(* ===== verification/Prelude.thy ===== *)
theory Prelude
  imports Main "HOL-Library.Word"
begin

text \<open>
  Shared vocabulary of the development: the machine types of the C++ code, the ways an
  operation can fail, sequencing of fallible operations, decimal printing as the code's
  \<open>printf\<close> formats produce it, little-endian byte order, and the arithmetic facts on
  \<open>size_t\<close> that every component uses.
\<close>

unbundle bit_operations_syntax

section \<open>Machine types\<close>

type_synonym byte = "8 word"
type_synonym u16 = "16 word"
type_synonym u32 = "32 word"
type_synonym u64 = "64 word"
type_synonym size_t = "64 word"
type_synonym fd = int

named_theorems size_simps \<open>reading size_t expressions as natural numbers\<close>
named_theorems op_defs \<open>definitions of a component's operations, for unfolding\<close>
named_theorems inv_intros \<open>preservation of component invariants\<close>

section \<open>Failing operations\<close>

text \<open>
  \<open>Undefined_Behaviour\<close> is an access the C++ standard gives no meaning to (an access out of
  bounds, a null dereference, a pointer range whose end is before its start, a signed overflow),
  \<open>Length_Error\<close> the exception \<open>std::length_error\<close> of the containers, \<open>Bad_Function_Call\<close> the one
  thrown by calling an empty \<open>std::function\<close>.
\<close>

datatype cxx_error = Undefined_Behaviour | Length_Error | Bad_Function_Call

definition bind_r :: "'e + 'a \<Rightarrow> ('a \<Rightarrow> 'e + 'b) \<Rightarrow> 'e + 'b" where
  "bind_r m f = (case m of Inl e \<Rightarrow> Inl e | Inr x \<Rightarrow> f x)"

lemma bind_r_Inl [simp]: "bind_r (Inl e) f = Inl e"
  and bind_r_Inr [simp]: "bind_r (Inr x) f = f x"
  by (simp_all add: bind_r_def)

lemma bind_r_assoc: "bind_r (bind_r m f) g = bind_r m (\<lambda>x. bind_r (f x) g)"
  by (cases m) simp_all

lemma bind_r_eq_Inr: "bind_r m f = Inr y \<longleftrightarrow> (\<exists>x. m = Inr x \<and> f x = Inr y)"
  by (cases m) simp_all

lemma bind_r_eq_Inl: "bind_r m f = Inl e \<longleftrightarrow> m = Inl e \<or> (\<exists>x. m = Inr x \<and> f x = Inl e)"
  by (cases m) simp_all

definition returns :: "'e + 'a \<Rightarrow> bool" where
  "returns m = (case m of Inl _ \<Rightarrow> False | Inr _ \<Rightarrow> True)"

lemma returns_simps [simp]: "returns (Inr x)" "\<not> returns (Inl e)"
  by (simp_all add: returns_def)

lemma returns_iff: "returns m \<longleftrightarrow> (\<exists>x. m = Inr x)"
  by (cases m) simp_all

section \<open>Sizes\<close>

text \<open>\<open>vec_size\<close> is \<open>size()\<close> of a vector; \<open>max_size\<close> is the largest size a \<open>vector<char>\<close>
  or \<open>std::string\<close> can have (\<open>PTRDIFF_MAX\<close>), beyond which they throw.\<close>

definition vec_size :: "'a list \<Rightarrow> size_t" where
  "vec_size xs = word_of_nat (length xs)"

definition max_size :: size_t where
  "max_size = 0x7FFFFFFFFFFFFFFF"

lemma unat_max_size [simp]: "unat max_size = 2 ^ 63 - 1"
  by (simp add: max_size_def)

lemma unat_vec_size [size_simps]: "length xs < 2 ^ 64 \<Longrightarrow> unat (vec_size xs) = length xs"
  by (simp add: vec_size_def unat_of_nat)

lemma unat_diff_le [size_simps]:
  "b \<le> (a :: 'a::len word) \<Longrightarrow> unat (a - b) = unat a - unat b"
  by (rule unat_sub)

lemma unat_add_small [size_simps]:
  "unat a + unat b < 2 ^ 64 \<Longrightarrow> unat ((a :: size_t) + b) = unat a + unat b"
  using unat_add_lem [of a b] by simp

lemmas word_order_nat = word_le_nat_alt word_less_nat_alt

lemma unat_of_nat_small: "n < 2 ^ LENGTH('a) \<Longrightarrow> unat (word_of_nat n :: 'a::len word) = n"
  by (simp add: unat_of_nat)

lemma word_eq_of_unat: "unat w = n \<Longrightarrow> w = word_of_nat n"
  by (drule sym) simp

text \<open>Masks and shifts read as remainders and quotients.\<close>

lemma unat_and_mask: "unat (w AND mask n) = unat w mod 2 ^ n"
  using unsigned_take_bit_eq [of n w, where ?'a = nat]
  by (simp only: take_bit_eq_mask [symmetric] take_bit_eq_mod [where ?'a = nat])

lemma mask_numerals: "(0x7f :: 'a::len word) = mask 7" "(0xffff :: 'a::len word) = mask 16"
  by (simp_all add: mask_eq_exp_minus_1)

lemma unat_low7 [size_simps]: "unat ((w :: 'a::len word) AND 0x7f) = unat w mod 128"
  using unat_and_mask [of w 7] by (simp add: mask_numerals)

lemma unat_low16 [size_simps]: "unat ((w :: 'a::len word) AND 0xffff) = unat w mod 65536"
  using unat_and_mask [of w 16] by (simp add: mask_numerals)

lemma unat_shift_right [size_simps]: "unat (drop_bit n (w :: 'a::len word)) = unat w div 2 ^ n"
  by (simp only: unat_drop_bit_eq drop_bit_eq_div [where ?'a = nat])

lemma unat_ucast_down [size_simps]:
  "unat (ucast (w :: 'a::len word) :: 'b::len word) = unat w mod 2 ^ LENGTH('b)"
  by (simp add: unsigned_ucast_eq take_bit_eq_mod)

section \<open>Lists\<close>

text \<open>\<open>splice_at i ys xs\<close> is \<open>std::copy\<close> of \<open>ys\<close> over the elements of \<open>xs\<close> from index \<open>i\<close> on,
  defined for a range that lies inside \<open>xs\<close>.\<close>

definition splice_at :: "nat \<Rightarrow> 'a list \<Rightarrow> 'a list \<Rightarrow> 'a list" where
  "splice_at i ys xs = take i xs @ ys @ drop (i + length ys) xs"

lemma length_splice_at [simp]:
  "i + length ys \<le> length xs \<Longrightarrow> length (splice_at i ys xs) = length xs"
  by (simp add: splice_at_def)

lemma splice_at_Nil [simp]: "splice_at i [] xs = xs"
  by (simp add: splice_at_def)

lemma take_splice_at: "i + length ys \<le> length xs \<Longrightarrow> j \<le> i \<Longrightarrow>
    take j (splice_at i ys xs) = take j xs"
  by (simp add: splice_at_def min_def)

lemma drop_splice_at: "i + length ys \<le> length xs \<Longrightarrow> i + length ys \<le> j \<Longrightarrow>
    drop j (splice_at i ys xs) = drop j xs"
  by (simp add: splice_at_def)

lemma slice_splice_at: "i + length ys \<le> length xs \<Longrightarrow>
    take (length ys) (drop i (splice_at i ys xs)) = ys"
  by (simp add: splice_at_def)

text \<open>The elements from index \<open>i\<close> up to but excluding \<open>j\<close>.\<close>

definition segment :: "nat \<Rightarrow> nat \<Rightarrow> 'a list \<Rightarrow> 'a list" where
  "segment i j xs = drop i (take j xs)"

lemma length_segment [simp]: "j \<le> length xs \<Longrightarrow> length (segment i j xs) = j - i"
  by (simp add: segment_def)

lemma segment_self [simp]: "segment i i xs = []"
  by (simp add: segment_def)

lemma segment_append_segment:
  assumes "i \<le> j" "j \<le> k"
  shows "segment i j xs @ segment j k xs = segment i k xs"
proof (cases "j \<le> length xs")
  case True
  have "take k xs = take j xs @ drop j (take k xs)"
    using assms by (metis append_take_drop_id min.absorb1 take_take)
  then have "drop i (take k xs) = drop i (take j xs) @ drop (i - j) (drop j (take k xs))"
    using True by (metis drop_append length_take min.absorb2)
  then show ?thesis using assms by (simp add: segment_def)
next
  case False
  then show ?thesis using assms by (simp add: segment_def)
qed

lemma segment_splice_before: "j \<le> k \<Longrightarrow> k + length ys \<le> length xs \<Longrightarrow>
    segment i j (splice_at k ys xs) = segment i j xs"
  by (simp add: segment_def take_splice_at)

lemma segment_splice_same: "k + length ys \<le> length xs \<Longrightarrow>
    segment k (k + length ys) (splice_at k ys xs) = ys"
  by (simp add: segment_def splice_at_def)

lemma segment_append_left [simp]: "j \<le> length xs \<Longrightarrow> segment i j (xs @ ys) = segment i j xs"
  by (simp add: segment_def)

end
