(* ===== verification/CLib.thy ===== *)
theory CLib
  imports Prelude
begin

text \<open>
  What the source uses of the C library: decimal conversions of \<open>printf\<close> (\<open>%d\<close>, \<open>%lld\<close>,
  \<open>%06lld\<close>), the truncation of \<open>snprintf\<close>, NUL-terminated strings, \<open>strchr\<close>, and the byte order
  of integers in memory. Strings are HOL strings, one \<open>char\<close> per byte.
\<close>

section \<open>Decimal conversion\<close>

definition digit_char :: "nat \<Rightarrow> char" where
  "digit_char d = char_of (48 + d)"

definition digit_val :: "char \<Rightarrow> nat" where
  "digit_val c = of_char c - 48"

definition is_digit :: "char \<Rightarrow> bool" where
  "is_digit c \<longleftrightarrow> 48 \<le> (of_char c :: nat) \<and> (of_char c :: nat) \<le> 57"

lemma of_char_digit_char [simp]: "d < 10 \<Longrightarrow> (of_char (digit_char d) :: nat) = 48 + d"
  by (simp add: digit_char_def)

lemma digit_val_char [simp]: "d < 10 \<Longrightarrow> digit_val (digit_char d) = d"
  by (simp add: digit_val_def)

lemma is_digit_char [simp]: "d < 10 \<Longrightarrow> is_digit (digit_char d)"
  by (simp add: is_digit_def)

lemma not_digit_sign [simp]: "\<not> is_digit CHR ''-''" "\<not> is_digit CHR ''.''"
    "\<not> is_digit CHR ''#''" "\<not> is_digit CHR '':''" "\<not> is_digit CHR '',''"
  by (simp_all add: is_digit_def)

fun show_nat :: "nat \<Rightarrow> string" where
  "show_nat n =
     (if n < 10 then [digit_char n] else show_nat (n div 10) @ [digit_char (n mod 10)])"

declare show_nat.simps [simp del]

lemma show_nat_small: "n < 10 \<Longrightarrow> show_nat n = [digit_char n]"
  by (simp add: show_nat.simps)

lemma show_nat_step: "10 \<le> n \<Longrightarrow> show_nat n = show_nat (n div 10) @ [digit_char (n mod 10)]"
  by (simp add: show_nat.simps [of n])

definition show_int :: "int \<Rightarrow> string" where
  "show_int i = (if i < 0 then ''-'' @ show_nat (nat (- i)) else show_nat (nat i))"

definition read_nat :: "string \<Rightarrow> nat" where
  "read_nat s = foldl (\<lambda>a c. 10 * a + digit_val c) 0 s"

lemma read_nat_snoc [simp]: "read_nat (s @ [c]) = 10 * read_nat s + digit_val c"
  by (simp add: read_nat_def)

lemma read_show_nat [simp]: "read_nat (show_nat n) = n"
proof (induction n rule: show_nat.induct)
  case (1 n)
  show ?case
  proof (cases "n < 10")
    case True
    then show ?thesis by (simp add: show_nat_small read_nat_def)
  next
    case False
    with "1.IH" show ?thesis by (simp add: show_nat_step)
  qed
qed

lemma show_nat_inj [simp]: "show_nat m = show_nat n \<longleftrightarrow> m = n"
  by (metis read_show_nat)

lemma show_nat_digits: "list_all is_digit (show_nat n)"
proof (induction n rule: show_nat.induct)
  case (1 n)
  show ?case
  proof (cases "n < 10")
    case True
    then show ?thesis by (simp add: show_nat_small)
  next
    case False
    with "1.IH" show ?thesis by (simp add: show_nat_step)
  qed
qed

lemma show_nat_not_Nil [simp]: "show_nat n \<noteq> []"
  by (simp add: show_nat.simps)

lemma length_show_nat_pos [simp]: "0 < length (show_nat n)"
  by simp

lemma length_show_nat_le: "length (show_nat n) \<le> Suc k \<longleftrightarrow> n < 10 ^ Suc k"
proof (induction k arbitrary: n)
  case 0
  show ?case
    by (cases "n < 10") (simp_all add: show_nat_small show_nat_step)
next
  case (Suc k)
  show ?case
  proof (cases "n < 10")
    case True
    then have "n < 10 ^ Suc (Suc k)"
      by (rule less_le_trans) (simp add: power_increasing)
    with True show ?thesis by (simp add: show_nat_small)
  next
    case False
    have "length (show_nat n) \<le> Suc (Suc k) \<longleftrightarrow> length (show_nat (n div 10)) \<le> Suc k"
      using False by (simp add: show_nat_step)
    also have "\<dots> \<longleftrightarrow> n div 10 < 10 ^ Suc k" by (rule Suc.IH)
    also have "\<dots> \<longleftrightarrow> n < 10 ^ Suc (Suc k)"
      by (simp add: div_less_iff_less_mult mult.commute)
    finally show ?thesis .
  qed
qed

text \<open>\<open>%0wd\<close> of a non-negative number: zeros on the left up to width \<open>w\<close>.\<close>

definition pad_zero :: "nat \<Rightarrow> string \<Rightarrow> string" where
  "pad_zero w s = replicate (w - length s) (CHR ''0'') @ s"

lemma digit_val_0 [simp]: "digit_val (CHR ''0'') = 0"
  by (simp add: digit_val_def)

lemma foldl_zeros: "foldl (\<lambda>a c. 10 * a + digit_val c) 0 (replicate k (CHR ''0'')) = 0"
  by (induction k) simp_all

lemma read_pad_zero [simp]: "read_nat (pad_zero w s) = read_nat s"
  by (simp add: read_nat_def pad_zero_def foldl_zeros)

lemma length_pad_zero: "length s \<le> w \<Longrightarrow> length (pad_zero w s) = w"
  by (simp add: pad_zero_def)

text \<open>\<open>%0wd\<close> of any number: the sign comes first and counts toward the width.\<close>

definition show_int_pad :: "nat \<Rightarrow> int \<Rightarrow> string" where
  "show_int_pad w i =
     (if i < 0 then ''-'' @ pad_zero (w - 1) (show_nat (nat (- i)))
      else pad_zero w (show_nat (nat i)))"

section \<open>C strings\<close>

definition c_str :: "string \<Rightarrow> string" where
  "c_str s = takeWhile (\<lambda>c. c \<noteq> CHR 0x00) s"

text \<open>\<open>snprintf\<close> into a buffer of \<open>n > 0\<close> bytes keeps the first \<open>n - 1\<close> characters.\<close>

definition snprintf_buf :: "nat \<Rightarrow> string \<Rightarrow> string" where
  "snprintf_buf n s = take (n - 1) s"

lemma snprintf_buf_fits: "length s < n \<Longrightarrow> snprintf_buf n s = s"
  by (simp add: snprintf_buf_def)

lemma length_snprintf_buf: "0 < n \<Longrightarrow> length (snprintf_buf n s) < n"
  by (simp add: snprintf_buf_def)

section \<open>Integers in memory\<close>

text \<open>The code runs on a little-endian machine: the low byte comes first.\<close>

definition le_bytes32 :: "u32 \<Rightarrow> byte list" where
  "le_bytes32 w = [ucast w, ucast (drop_bit 8 w), ucast (drop_bit 16 w), ucast (drop_bit 24 w)]"

definition le_word32 :: "byte list \<Rightarrow> u32" where
  "le_word32 bs = (case bs of
     [a, b, c, d] \<Rightarrow> ucast a OR push_bit 8 (ucast b) OR push_bit 16 (ucast c) OR push_bit 24 (ucast d)
   | _ \<Rightarrow> 0)"

lemma length_le_bytes32 [simp]: "length (le_bytes32 w) = 4"
  by (simp add: le_bytes32_def)

lemma le_word32_bytes32 [simp]: "le_word32 (le_bytes32 w) = w"
proof (rule bit_word_eqI)
  fix n
  assume "n < LENGTH(32)"
  then consider "n < 8" | "8 \<le> n" "n < 16" | "16 \<le> n" "n < 24" | "24 \<le> n" "n < 32"
    by fastforce
  then show "bit (le_word32 (le_bytes32 w)) n = bit w n"
    by cases (auto simp: le_word32_def le_bytes32_def bit_simps)
qed

definition le_word16 :: "byte \<Rightarrow> byte \<Rightarrow> u16" where
  "le_word16 a b = ucast a OR push_bit 8 (ucast b)"

text \<open>\<open>htons\<close>: the two bytes of a 16-bit value swapped.\<close>

definition htons :: "u16 \<Rightarrow> u16" where
  "htons w = push_bit 8 w OR drop_bit 8 w"

lemma htons_htons [simp]: "htons (htons w) = w"
  by (rule bit_word_eqI) (auto simp: htons_def bit_simps)

section \<open>Numbers in text\<close>

text \<open>\<open>atol\<close> and \<open>atoll\<close> read white space, a sign and digits; a value outside 64 bits is undefined.\<close>

definition c_space :: "char \<Rightarrow> bool" where
  "c_space c \<longleftrightarrow> c = CHR '' '' \<or> c \<in> {CHR 0x09, CHR 0x0A, CHR 0x0B, CHR 0x0C, CHR 0x0D}"

definition read_signed :: "string \<Rightarrow> int" where
  "read_signed s =
     (case dropWhile c_space (c_str s) of
        [] \<Rightarrow> 0
      | c # cs \<Rightarrow>
          if c = CHR ''-'' then - int (read_nat (takeWhile is_digit cs))
          else if c = CHR ''+'' then int (read_nat (takeWhile is_digit cs))
          else int (read_nat (takeWhile is_digit (c # cs))))"

definition atol :: "string \<Rightarrow> cxx_error + 64 word" where
  "atol s =
     (let v = read_signed s in
      if - (2 ^ 63) \<le> v \<and> v < 2 ^ 63 then Inr (word_of_int v) else Inl Undefined_Behaviour)"

text \<open>\<open>atoi\<close>, with 32 bits.\<close>

definition atoi :: "string \<Rightarrow> cxx_error + 32 word" where
  "atoi s =
     (let v = read_signed s in
      if - (2 ^ 31) \<le> v \<and> v < 2 ^ 31 then Inr (word_of_int v) else Inl Undefined_Behaviour)"

lemma takeWhile_digits [simp]: "takeWhile is_digit (show_nat n) = show_nat n"
  using show_nat_digits[of n] by (simp add: list_all_iff)

lemma c_str_digits [simp]: "c_str (show_nat n) = show_nat n"
  using show_nat_digits[of n] by (auto simp: c_str_def list_all_iff is_digit_def)

lemma show_nat_head: "\<exists>c cs. show_nat n = c # cs \<and> is_digit c"
  using show_nat_digits[of n] show_nat_not_Nil[of n] by (cases "show_nat n") auto

lemma digit_not_special: "is_digit c \<Longrightarrow> \<not> c_space c \<and> c \<noteq> CHR ''-'' \<and> c \<noteq> CHR ''+''"
  by (auto simp: is_digit_def c_space_def)

lemma read_signed_show [simp]: "read_signed (show_int i) = i"
proof (cases "i < 0")
  case True
  have "c_str (CHR ''-'' # show_nat n) = CHR ''-'' # show_nat n" for n
    using c_str_digits[of n] by (simp add: c_str_def)
  then show ?thesis using True by (simp add: read_signed_def show_int_def c_space_def)
next
  case False
  obtain c cs where s: "show_nat (nat i) = c # cs" "is_digit c" using show_nat_head by blast
  have "read_signed (show_nat (nat i)) = int (read_nat (takeWhile is_digit (show_nat (nat i))))"
    using c_str_digits[of "nat i"] digit_not_special[OF s(2)] unfolding s(1) by (simp add: read_signed_def)
  then show ?thesis using False by (simp add: show_int_def)
qed

lemma atol_show: "- (2 ^ 63) \<le> i \<Longrightarrow> i < 2 ^ 63 \<Longrightarrow> atol (show_int i) = Inr (word_of_int i)"
  by (simp add: atol_def)

end
