(* ===== verification/Codec.thy ===== *)
theory Codec
  imports CLib
begin

text \<open>
  The interface between a byte format and its users: an encoder whose output a decoder reads
  back from the front of any input, leaving the rest. What follows from that law alone
  (injectivity, prefix-freeness, unique decoding of a sequence) is proved here once, for the
  variable-length integers of \<open>ByteStream\<close> and the message header of \<open>ChatSession\<close>.
\<close>

fun decode_many :: "(byte list \<Rightarrow> ('v \<times> byte list) option) \<Rightarrow> nat \<Rightarrow> byte list \<Rightarrow> ('v list \<times> byte list) option" where
  "decode_many dec 0 bs = Some ([], bs)"
| "decode_many dec (Suc n) bs =
     (case dec bs of
        None \<Rightarrow> None
      | Some (v, rest) \<Rightarrow> map_option (\<lambda>(vs, rest'). (v # vs, rest')) (decode_many dec n rest))"

locale prefix_codec =
  fixes enc :: "'v \<Rightarrow> byte list"
    and dec :: "byte list \<Rightarrow> ('v \<times> byte list) option"
  assumes dec_enc: "dec (enc v @ rest) = Some (v, rest)"
begin

lemma enc_inj: "enc v = enc w \<Longrightarrow> v = w"
  by (metis Pair_inject append_Nil2 dec_enc option.inject)

lemma enc_prefix_free: "enc v @ r = enc w @ s \<Longrightarrow> v = w \<and> r = s"
  by (metis Pair_inject dec_enc option.inject)

lemma decode_encode_many: "decode_many dec (length vs) (concat (map enc vs) @ rest) = Some (vs, rest)"
  by (induction vs) (simp_all add: dec_enc)

lemma encode_many_inj:
  assumes "length vs = length ws" and "concat (map enc vs) = concat (map enc ws)"
  shows "vs = ws"
proof -
  have "Some (vs, []) = decode_many dec (length ws) (concat (map enc ws) @ [])"
    using decode_encode_many [of vs "[]"] assms by simp
  then show ?thesis by (simp only: decode_encode_many) simp
qed

end

end
