(* ===== verification/ByteStream.thy ===== *)
theory ByteStream
  imports Codec
begin

text \<open>
  \<open>src/Util/ProtocoIStream.cpp\<close>: the 16-bit ones' complement checksum and the 7-bit
  variable-length encoding of integers, with the abstract decoder that inverts it.
\<close>

section \<open>checksum\<close>

text \<open>The first loop and the odd byte after it. \<open>mem\<close> is the memory from \<open>buffer\<close> on and \<open>acc\<close>
  the 32-bit accumulator; reading past the end of \<open>mem\<close> is undefined.\<close>

fun checksum_sum :: "byte list \<Rightarrow> int \<Rightarrow> u32 \<Rightarrow> cxx_error + u32" where
  "checksum_sum mem sz acc =
     (if sz > 1 then
        (case mem of
           a # b # rest \<Rightarrow> checksum_sum rest (sz - 2) (acc + ucast (le_word16 a b))
         | _ \<Rightarrow> Inl Undefined_Behaviour)
      else if sz \<noteq> 0 then
        (case mem of
           a # _ \<Rightarrow> Inr (acc + ucast a)
         | [] \<Rightarrow> Inl Undefined_Behaviour)
      else Inr acc)"

declare checksum_sum.simps [simp del]

text \<open>The second loop: the carries above bit 16 are added back until none is left.\<close>

function checksum_fold :: "u32 \<Rightarrow> u32" where
  "checksum_fold c =
     (if drop_bit 16 c \<noteq> 0 then checksum_fold (drop_bit 16 c + (c AND 0xffff)) else c)"
  by pat_completeness auto

lemma unat_fold_step:
  "unat (drop_bit 16 (c::u32) + (c AND 0xffff)) = unat c div 65536 + unat c mod 65536"
proof -
  have "unat c < 2 ^ 32" using unsigned_less [of c] by simp
  then have "unat c div 65536 < 65536" by simp
  moreover have "unat c mod 65536 < 65536" by simp
  ultimately have "unat c div 65536 + unat c mod 65536 < 2 ^ 32" by simp
  then show ?thesis
    by (simp add: unat_word_ariths size_simps)
qed

lemma fold_step_less:
  assumes "65536 \<le> (n::nat)"
  shows "n div 65536 + n mod 65536 < n"
proof -
  from assms have "0 < n div 65536" by (simp add: div_greater_zero_iff)
  moreover have "n = 65536 * (n div 65536) + n mod 65536" by simp
  ultimately show ?thesis by linarith
qed

lemma carry_iff: "drop_bit 16 (c::u32) \<noteq> 0 \<longleftrightarrow> 65536 \<le> unat c"
  by (simp flip: unat_eq_0 add: size_simps div_eq_0_iff not_less)

termination checksum_fold
  by (relation "measure unat")
     (simp_all only: wf_measure in_measure unat_fold_step carry_iff fold_step_less)

declare checksum_fold.simps [simp del]

definition checksum :: "byte list \<Rightarrow> int \<Rightarrow> cxx_error + u16" where
  "checksum mem sz =
     bind_r (checksum_sum mem sz 0) (\<lambda>cksum. Inr (ucast (NOT (checksum_fold cksum))))"

subsection \<open>The ones' complement sum\<close>

text \<open>The specification: the sum of the little-endian 16-bit words of the data, and its
  representative between 1 and 65535 modulo 65535 (0 only for a zero sum).\<close>

fun words_sum :: "byte list \<Rightarrow> nat" where
  "words_sum [] = 0"
| "words_sum [a] = unat a"
| "words_sum (a # b # rest) = unat a + 256 * unat b + words_sum rest"

definition ones_rep :: "nat \<Rightarrow> nat" where
  "ones_rep s = (if s = 0 then 0 else (s - 1) mod 65535 + 1)"

lemma ones_rep_le: "ones_rep s \<le> 65535"
  using mod_less_divisor [of 65535 "s - 1"] by (simp add: ones_rep_def del: mod_less_divisor)

lemma ones_rep_small: "s < 65536 \<Longrightarrow> ones_rep s = s"
  by (simp add: ones_rep_def)

lemma ones_rep_carry: "ones_rep (n div 65536 + n mod 65536) = ones_rep n"
proof (cases "n = 0")
  case False
  define h l where "h = n div 65536" and "l = n mod 65536"
  have n: "n = h * 65536 + l" by (simp add: h_def l_def)
  with False have hl: "0 < h + l" by (cases "h = 0") auto
  have "n - 1 = (h + l - 1) + h * 65535" using n hl by simp
  then have "(n - 1) mod 65535 = (h + l - 1) mod 65535" by (metis mod_mult_self1)
  then show ?thesis using False hl by (simp add: ones_rep_def h_def l_def)
qed (simp add: ones_rep_def)

lemma ones_rep_mod: "0 < s \<Longrightarrow> ones_rep s mod 65535 = s mod 65535"
  by (simp add: ones_rep_def mod_Suc_eq)

lemma ones_rep_multiple: "0 < s \<Longrightarrow> s mod 65535 = 0 \<Longrightarrow> ones_rep s = 65535"
  using ones_rep_mod [of s] ones_rep_le [of s]
  by (cases "ones_rep s = 65535") (simp_all add: ones_rep_def)

lemma unat_checksum_fold: "unat (checksum_fold c) = ones_rep (unat c)"
proof (induction c rule: checksum_fold.induct)
  case (1 c)
  show ?case
  proof (cases "drop_bit 16 c = 0")
    case True
    then have "unat c < 65536" using carry_iff [of c] by simp
    with True show ?thesis by (simp add: checksum_fold.simps ones_rep_small)
  next
    case False
    then have "unat (checksum_fold c) = unat (checksum_fold (drop_bit 16 c + (c AND 0xffff)))"
      by (simp add: checksum_fold.simps [of c])
    also have "\<dots> = ones_rep (unat c)"
      using "1.IH" [OF False] by (simp only: unat_fold_step ones_rep_carry)
    finally show ?thesis .
  qed
qed

lemma ucast_word16: "(ucast (le_word16 a b) :: u32) = word_of_nat (unat a + 256 * unat b)"
proof -
  have "(ucast (le_word16 a b) :: u32) = ucast a OR push_bit 8 (ucast b)"
    by (rule bit_word_eqI) (auto simp: le_word16_def bit_simps dest: bit_imp_le_length)
  also have "\<dots> = ucast a + push_bit 8 (ucast b)"
    by (rule disjunctive_add [symmetric]) (auto simp: bit_simps dest: bit_imp_le_length)
  also have "\<dots> = word_of_nat (unat a + 256 * unat b)"
    by (simp add: push_bit_eq_mult mult.commute)
  finally show ?thesis .
qed

lemma checksum_sum_words:
  "checksum_sum bs (int (length bs)) acc = Inr (acc + word_of_nat (words_sum bs))"
proof (induction bs arbitrary: acc rule: words_sum.induct)
  case (3 a b rest)
  then show ?case
    by (subst checksum_sum.simps) (simp add: ucast_word16 add.assoc)
qed (simp_all add: checksum_sum.simps)

lemma words_sum_bound: "words_sum bs \<le> 65535 * ((length bs + 1) div 2)"
proof (induction bs rule: words_sum.induct)
  case (2 a)
  then show ?case using unsigned_less [of a, where ?'a = nat] by simp
next
  case (3 a b rest)
  have "unat a \<le> 255" "unat b \<le> 255"
    using unsigned_less [of a, where ?'a = nat] unsigned_less [of b, where ?'a = nat] by simp_all
  with 3 show ?case by simp
qed simp

lemma unat_not16: "unat (NOT (x::u16)) = 65535 - unat x"
proof -
  have "NOT x = 0xFFFF - x" by (simp add: not_eq_complement)
  moreover have "x \<le> 0xFFFF" using unsigned_less [of x, where ?'a = nat] by (simp add: word_le_nat_alt)
  ultimately show ?thesis by (simp add: unat_sub)
qed

lemma ucast_not16: "(ucast (NOT (c::u32)) :: u16) = NOT (ucast c)"
  by (rule bit_word_eqI) (auto simp: bit_simps)

text \<open>The sum of at most 65536 words does not overflow the 32-bit accumulator.\<close>

lemma checksum_value:
  assumes "length bs \<le> 131072"
  shows "checksum bs (int (length bs)) = Inr (word_of_nat (65535 - ones_rep (words_sum bs)))"
proof -
  define c where "c = checksum_fold (word_of_nat (words_sum bs))"
  have "words_sum bs \<le> 65535 * 65536"
    by (rule order_trans [OF words_sum_bound]) (use assms in simp)
  then have "unat (word_of_nat (words_sum bs) :: u32) = words_sum bs"
    by (simp add: unat_of_nat)
  then have c: "unat c = ones_rep (words_sum bs)"
    by (simp add: c_def unat_checksum_fold)
  then have "unat (ucast c :: u16) = ones_rep (words_sum bs)"
    using ones_rep_le [of "words_sum bs"] by (simp add: size_simps)
  then have "unat (ucast (NOT c) :: u16) = 65535 - ones_rep (words_sum bs)"
    by (simp add: ucast_not16 unat_not16)
  then have "(ucast (NOT c) :: u16) = word_of_nat (65535 - ones_rep (words_sum bs))"
    by (rule word_eq_of_unat)
  then show ?thesis
    using checksum_sum_words [of bs 0] by (simp add: checksum_def c_def)
qed

lemma words_sum_append: "even (length xs) \<Longrightarrow> words_sum (xs @ ys) = words_sum xs + words_sum ys"
  by (induction xs rule: words_sum.induct) simp_all

lemma words_sum_word: "words_sum [ucast (w::u16), ucast (drop_bit 8 w)] = unat w"
proof -
  have "unat w < 65536" using unsigned_less [of w, where ?'a = nat] by simp
  then have "unat w div 256 < 256" by simp
  then show ?thesis by (simp add: size_simps)
qed

lemma checksum_append_word:
  assumes "even (length bs)" and len: "length bs + 2 \<le> 131072"
    and w: "checksum bs (int (length bs)) = Inr w"
  defines "bs' \<equiv> bs @ [ucast w, ucast (drop_bit 8 w)]"
  shows "checksum bs' (int (length bs')) = Inr 0"
proof -
  let ?S = "words_sum bs"
  have "w = word_of_nat (65535 - ones_rep ?S)"
    using w checksum_value [of bs] len by (simp del: of_nat_diff)
  then have uw: "unat w = 65535 - ones_rep ?S"
    by (simp only:) (rule unat_of_nat_small, simp)
  have sum: "words_sum bs' = ?S + (65535 - ones_rep ?S)"
    using assms(1) words_sum_word [of w] by (simp add: bs'_def words_sum_append uw)
  have "ones_rep (words_sum bs') = 65535"
  proof (cases "?S = 0")
    case True
    then show ?thesis by (simp add: sum ones_rep_def)
  next
    case False
    then have "ones_rep ?S mod 65535 = ?S mod 65535" by (simp add: ones_rep_mod)
    then have "(?S + (65535 - ones_rep ?S)) mod 65535
        = (ones_rep ?S + (65535 - ones_rep ?S)) mod 65535"
      by (intro mod_add_cong) simp_all
    also have "\<dots> = 0" using ones_rep_le [of ?S] by simp
    finally show ?thesis using False by (simp add: sum ones_rep_multiple)
  qed
  then show ?thesis
    using checksum_value [of bs'] len by (simp add: bs'_def)
qed

section \<open>write7BitEncode\<close>

text \<open>Both overloads, on 32 and on 64 bits, have the same body: groups of seven bits, low group
  first, with the top bit of every byte but the last set.\<close>

function write7BitEncode :: "'a::len word \<Rightarrow> byte list \<Rightarrow> byte list" where
  "write7BitEncode value buf =
     (let c = ucast (value AND 0x7f); value' = drop_bit 7 value in
      if value' \<noteq> 0 then write7BitEncode value' (buf @ [c OR 0x80]) else buf @ [c])"
  by pat_completeness auto

lemma shift7_less: "drop_bit 7 (v :: 'a::len word) \<noteq> 0 \<Longrightarrow> unat (drop_bit 7 v) < unat v"
  by (simp flip: unat_eq_0 add: size_simps)

termination write7BitEncode
  by (relation "measure (\<lambda>(v, buf). unat v)") (simp_all add: shift7_less)

declare write7BitEncode.simps [simp del]

definition write7BitEncode_u32 :: "u32 \<Rightarrow> byte list \<Rightarrow> byte list" where
  "write7BitEncode_u32 value buf = write7BitEncode value buf"

definition write7BitEncode_u64 :: "u64 \<Rightarrow> byte list \<Rightarrow> byte list" where
  "write7BitEncode_u64 value buf = write7BitEncode value buf"

text \<open>The specification: little-endian base 128 of a natural number, and its reader.\<close>

fun base128 :: "nat \<Rightarrow> byte list" where
  "base128 n =
     (if n < 128 then [word_of_nat n] else word_of_nat (n mod 128 + 128) # base128 (n div 128))"

declare base128.simps [simp del]

fun read_base128 :: "byte list \<Rightarrow> (nat \<times> byte list) option" where
  "read_base128 [] = None"
| "read_base128 (b # bs) =
     (if unat b < 128 then Some (unat b, bs)
      else map_option (\<lambda>(n, rest). (unat b - 128 + 128 * n, rest)) (read_base128 bs))"

lemma low7_byte:
  assumes "7 < LENGTH('a)"
  shows "(ucast ((v :: 'a::len word) AND 0x7f) :: byte) = word_of_nat (unat v mod 128)"
proof -
  have "unat (ucast (v AND 0x7f) :: byte) = unat v mod 128"
    by (simp add: size_simps)
  then show ?thesis by (rule word_eq_of_unat)
qed

lemma continuation_byte: "n < 128 \<Longrightarrow> (word_of_nat n OR 0x80 :: byte) = word_of_nat (n + 128)"
proof -
  assume n: "n < 128"
  have "\<not> bit (word_of_nat n :: byte) 7"
    using n by (simp add: bit_simps bit_iff_odd [where ?'a = nat])
  then have "(word_of_nat n AND 2 ^ 7 :: byte) = 0"
    by (simp only: and_exp_eq_0_iff_not_bit not_False_eq_True)
  then have "(word_of_nat n AND 0x80 :: byte) = 0" by simp
  then show ?thesis by (simp add: disjunctive_add_eq_or [symmetric])
qed

lemma write7_base128:
  assumes "7 < LENGTH('a)"
  shows "write7BitEncode (v :: 'a::len word) buf = buf @ base128 (unat v)"
proof (induction v buf rule: write7BitEncode.induct)
  case (1 v buf)
  show ?case
  proof (cases "drop_bit 7 v = 0")
    case True
    then have "unat v < 128" by (simp flip: unat_eq_0 add: size_simps div_eq_0_iff)
    with True show ?thesis
      by (simp add: write7BitEncode.simps [of v] base128.simps low7_byte [OF assms])
  next
    case False
    then have "\<not> unat v < 128" by (simp flip: unat_eq_0 add: size_simps div_eq_0_iff)
    with False 1 show ?thesis
      by (simp add: write7BitEncode.simps [of v] base128.simps [of "unat v"] Let_def
          low7_byte [OF assms] continuation_byte size_simps)
  qed
qed

lemma read_base128_append: "read_base128 (base128 n @ rest) = Some (n, rest)"
proof (induction n rule: base128.induct)
  case (1 n)
  show ?case
  proof (cases "n < 128")
    case True
    then show ?thesis by (simp add: base128.simps unat_of_nat)
  next
    case False
    moreover have "unat (word_of_nat (n mod 128 + 128) :: byte) = n mod 128 + 128"
      by (rule unat_of_nat_small) simp
    ultimately show ?thesis using "1.IH"
      by (simp add: base128.simps [of n] del: of_nat_add)
  qed
qed

lemma length_base128: "n < 128 ^ k \<Longrightarrow> 0 < k \<Longrightarrow> length (base128 n) \<le> k"
proof (induction n arbitrary: k rule: base128.induct)
  case (1 n)
  show ?case
  proof (cases "n < 128")
    case True
    with "1.prems" show ?thesis by (simp add: base128.simps)
  next
    case False
    with "1.prems" obtain j where k: "k = Suc j" and "0 < j"
      by (cases k; cases "k - 1") auto
    with "1.prems" have "n div 128 < 128 ^ j"
      by (simp add: div_less_iff_less_mult mult.commute)
    with "1.IH" [OF False] \<open>0 < j\<close> False k show ?thesis by (simp add: base128.simps [of n])
  qed
qed

section \<open>The encodings as prefix codes\<close>

definition read7_u32 :: "byte list \<Rightarrow> (u32 \<times> byte list) option" where
  "read7_u32 bs = map_option (\<lambda>(n, rest). (word_of_nat n, rest)) (read_base128 bs)"

definition read7_u64 :: "byte list \<Rightarrow> (u64 \<times> byte list) option" where
  "read7_u64 bs = map_option (\<lambda>(n, rest). (word_of_nat n, rest)) (read_base128 bs)"

lemmas write7_eq =
  write7_base128 [where ?'a = 32, simplified] write7_base128 [where ?'a = 64, simplified]

interpretation varint32: prefix_codec "\<lambda>v. write7BitEncode_u32 v []" read7_u32
  by unfold_locales (simp add: write7BitEncode_u32_def write7_eq read7_u32_def read_base128_append)

interpretation varint64: prefix_codec "\<lambda>v. write7BitEncode_u64 v []" read7_u64
  by unfold_locales (simp add: write7BitEncode_u64_def write7_eq read7_u64_def read_base128_append)

section \<open>Properties\<close>

text \<open>The checksum of a buffer of any length up to 128 KiB (the range in which the 32-bit
  accumulator cannot wrap) is the complement of the ones' complement sum of its little-endian
  16-bit words, the odd last byte counting as a word of its own; the loops end and read only the
  buffer.\<close>

theorem checksum_ones_complement:
  assumes "length bs \<le> 131072"
  shows "checksum bs (int (length bs)) = Inr (word_of_nat (65535 - ones_rep (words_sum bs)))"
  using assms by (rule checksum_value)

theorem checksum_ones_complement_witness:
  "length [0xFF :: byte, 0xFF, 3] \<le> 131072 \<and>
   checksum [0xFF, 0xFF, 3] (int (length [0xFF :: byte, 0xFF, 3])) = Inr 0xFFFC"
  using checksum_ones_complement [of "[0xFF, 0xFF, 3]"] by (simp add: ones_rep_def)

text \<open>C34. A receiver detects no error in an intact packet: a buffer of even length followed by
  its own checksum has checksum 0, up to 128 KiB in all, where the 32-bit sum of the words cannot wrap.\<close>

theorem checksum_verifies:
  assumes "even (length bs)" and "length bs + 2 \<le> 131072"
    and "checksum bs (int (length bs)) = Inr w"
  shows "checksum (bs @ [ucast w, ucast (drop_bit 8 w)]) (int (length bs + 2)) = Inr 0"
  using checksum_append_word [OF assms] by simp

theorem checksum_verifies_witness:
  "checksum ([1, 2, 3, 4] @ [ucast (0xF9FB :: u16), ucast (drop_bit 8 (0xF9FB :: u16))]) 6 = Inr 0"
proof -
  have w: "checksum [1, 2, 3, 4] (int (length [1 :: byte, 2, 3, 4])) = Inr 0xF9FB"
    using checksum_value [of "[1, 2, 3, 4]"] by (simp add: ones_rep_def)
  show ?thesis using checksum_verifies [OF _ _ w] by simp
qed

text \<open>\<open>write7BitEncode\<close> appends to the buffer the base-128 digits of the value, low digit
  first: at most 5 bytes for a \<open>uint32_t\<close> and 10 for a \<open>uint64_t\<close>, from which the value is read
  back whatever follows.\<close>

theorem write7BitEncode_digits:
  "write7BitEncode_u32 v buf = buf @ base128 (unat v) \<and>
   length (base128 (unat v)) \<le> 5 \<and> read_base128 (base128 (unat v) @ rest) = Some (unat v, rest) \<and>
   write7BitEncode_u64 w buf = buf @ base128 (unat w) \<and>
   length (base128 (unat w)) \<le> 10 \<and> read_base128 (base128 (unat w) @ rest) = Some (unat w, rest)"
proof -
  have "unat v < 128 ^ 5" "unat w < 128 ^ 10"
    using unsigned_less [of v, where ?'a = nat] unsigned_less [of w, where ?'a = nat] by simp_all
  then show ?thesis
    by (simp add: write7BitEncode_u32_def write7BitEncode_u64_def write7_eq
        read_base128_append length_base128)
qed

text \<open>A sequence of 64-bit values written one after the other is read back as that sequence,
  with the bytes after it left over.\<close>

theorem write7BitEncode_sequence:
  "decode_many read7_u64 (length vs) (concat (map (\<lambda>v. write7BitEncode_u64 v []) vs) @ rest)
     = Some (vs, rest)"
  by (rule varint64.decode_encode_many)

end
