(* ===== verification/ByteBuffer.thy ===== *)
theory ByteBuffer
  imports CLib
begin

text \<open>
  \<open>src/Net/Buffer.h\<close> and \<open>src/Net/Buffer.cpp\<close>: the byte buffer of a connection, a vector with
  a read and a write index. Indices are \<open>size_t\<close>, so every comparison and subtraction of the
  code is the one on 64-bit words. A pointer into the vector is its offset from \<open>begin()\<close>.
  An access outside the vector is \<open>Undefined_Behaviour\<close>.
\<close>

record Buffer =
  m_buffer :: "byte list"
  m_readIndex :: size_t
  m_writeIndex :: size_t

definition Prepend :: size_t where
  "Prepend = 8"

definition InitSize :: size_t where
  "InitSize = 1024"

definition CRLF :: "byte list" where
  "CRLF = [13, 10]"

section \<open>Construction and sizes\<close>

definition Buffer_new :: "size_t \<Rightarrow> cxx_error + Buffer" where
  "Buffer_new initsize =
     (if Prepend + initsize > max_size then Inl Length_Error
      else Inr \<lparr>m_buffer = replicate (unat (Prepend + initsize)) 0,
                m_readIndex = Prepend, m_writeIndex = Prepend\<rparr>)"

definition Buffer_swap :: "Buffer \<Rightarrow> Buffer \<Rightarrow> Buffer \<times> Buffer" where
  "Buffer_swap b rhs =
     (b\<lparr>m_buffer := m_buffer rhs, m_readIndex := m_readIndex rhs, m_writeIndex := m_writeIndex rhs\<rparr>,
      rhs\<lparr>m_buffer := m_buffer b, m_readIndex := m_readIndex b, m_writeIndex := m_writeIndex b\<rparr>)"

definition readableBytes :: "Buffer \<Rightarrow> size_t" where
  "readableBytes b = m_writeIndex b - m_readIndex b"

definition writableBytes :: "Buffer \<Rightarrow> size_t" where
  "writableBytes b = vec_size (m_buffer b) - m_writeIndex b"

definition prependableBytes :: "Buffer \<Rightarrow> size_t" where
  "prependableBytes b = m_readIndex b"

definition peek :: "Buffer \<Rightarrow> size_t" where
  "peek b = m_readIndex b"

definition beginWrite :: "Buffer \<Rightarrow> size_t" where
  "beginWrite b = m_writeIndex b"

definition hasWritten :: "Buffer \<Rightarrow> size_t \<Rightarrow> bool \<times> Buffer" where
  "hasWritten b len =
     (if len < writableBytes b then (False, b)
      else (True, b\<lparr>m_writeIndex := m_writeIndex b + len\<rparr>))"

text \<open>Reading and overwriting a range of the vector, for the callers that go through a pointer.\<close>

definition read_range :: "Buffer \<Rightarrow> size_t \<Rightarrow> size_t \<Rightarrow> cxx_error + byte list" where
  "read_range b p len =
     (if unat p + unat len \<le> length (m_buffer b)
      then Inr (segment (unat p) (unat p + unat len) (m_buffer b))
      else Inl Undefined_Behaviour)"

definition write_range :: "Buffer \<Rightarrow> size_t \<Rightarrow> byte list \<Rightarrow> cxx_error + Buffer" where
  "write_range b p bs =
     (if unat p + length bs \<le> length (m_buffer b)
      then Inr (b\<lparr>m_buffer := splice_at (unat p) bs (m_buffer b)\<rparr>)
      else Inl Undefined_Behaviour)"

text \<open>\<open>std::string(p, len)\<close>: a string longer than the largest one throws before reading.\<close>

definition string_of_range :: "Buffer \<Rightarrow> size_t \<Rightarrow> size_t \<Rightarrow> cxx_error + byte list" where
  "string_of_range b p len =
     (if len > max_size then Inl Length_Error else read_range b p len)"

section \<open>Consuming\<close>

definition retrieveAll :: "Buffer \<Rightarrow> Buffer" where
  "retrieveAll b = b\<lparr>m_readIndex := Prepend, m_writeIndex := Prepend\<rparr>"

definition retrieve :: "Buffer \<Rightarrow> size_t \<Rightarrow> bool \<times> Buffer" where
  "retrieve b len =
     (if len < readableBytes b then (False, b)
      else if len < readableBytes b then (True, b\<lparr>m_readIndex := m_readIndex b + len\<rparr>)
      else (True, retrieveAll b))"

definition retrieveUntil :: "Buffer \<Rightarrow> size_t \<Rightarrow> bool \<times> Buffer" where
  "retrieveUntil b end_ptr =
     (if peek b < end_ptr then (False, b)
      else if end_ptr > beginWrite b then (False, b)
      else (True, snd (retrieve b (end_ptr - peek b))))"

definition retrieveAsString :: "Buffer \<Rightarrow> size_t \<Rightarrow> cxx_error + (byte list \<times> Buffer)" where
  "retrieveAsString b len =
     (if len > readableBytes b then Inr ([], b)
      else bind_r (string_of_range b (peek b) len) (\<lambda>result. Inr (result, snd (retrieve b len))))"

definition retrieveAllAsString :: "Buffer \<Rightarrow> cxx_error + (byte list \<times> Buffer)" where
  "retrieveAllAsString b = retrieveAsString b (readableBytes b)"

section \<open>Making room and appending\<close>

definition vector_resize :: "byte list \<Rightarrow> size_t \<Rightarrow> cxx_error + byte list" where
  "vector_resize v n =
     (if n > max_size then Inl Length_Error
      else Inr (take (unat n) v @ replicate (unat n - length v) 0))"

definition makeSpace :: "Buffer \<Rightarrow> size_t \<Rightarrow> cxx_error + Buffer" where
  "makeSpace b len =
     (if writableBytes b + prependableBytes b < len + Prepend then
        bind_r (vector_resize (m_buffer b) (m_writeIndex b + len)) (\<lambda>v. Inr (b\<lparr>m_buffer := v\<rparr>))
      else if Prepend \<ge> m_readIndex b then Inr b
      else
        (let readble = readableBytes b in
         bind_r (read_range b (m_readIndex b) readble) (\<lambda>bs.
         bind_r (write_range b Prepend bs) (\<lambda>b'.
           Inr (b'\<lparr>m_readIndex := Prepend, m_writeIndex := Prepend + readble\<rparr>)))))"

definition ensureWritableBytes :: "Buffer \<Rightarrow> size_t \<Rightarrow> cxx_error + Buffer" where
  "ensureWritableBytes b len = (if writableBytes b < len then makeSpace b len else Inr b)"

definition append_mem :: "Buffer \<Rightarrow> byte list \<Rightarrow> size_t \<Rightarrow> cxx_error + Buffer" where
  "append_mem b data len =
     bind_r (ensureWritableBytes b len) (\<lambda>b1.
       if length data < unat len then Inl Undefined_Behaviour
       else bind_r (write_range b1 (beginWrite b1) (take (unat len) data)) (\<lambda>b2.
              Inr (snd (hasWritten b2 len))))"

definition append_string :: "Buffer \<Rightarrow> byte list \<Rightarrow> cxx_error + Buffer" where
  "append_string b str = append_mem b str (vec_size str)"

definition prepend :: "Buffer \<Rightarrow> byte list \<Rightarrow> size_t \<Rightarrow> cxx_error + (bool \<times> Buffer)" where
  "prepend b data len =
     (if len > prependableBytes b then Inr (False, b)
      else if length data < unat len then Inl Undefined_Behaviour
      else
        (let b1 = b\<lparr>m_readIndex := m_readIndex b - len\<rparr> in
         bind_r (write_range b1 (m_readIndex b1) (take (unat len) data)) (\<lambda>b2. Inr (True, b2))))"

text \<open>\<open>static_cast<int>\<close> of a size, then back to \<open>size_t\<close>: the low 32 bits, sign-extended.\<close>

definition int_cast :: "size_t \<Rightarrow> size_t" where
  "int_cast n = scast (ucast n :: u32)"

definition toStringPiece :: "Buffer \<Rightarrow> cxx_error + byte list" where
  "toStringPiece b = string_of_range b (peek b) (int_cast (readableBytes b))"

definition shrink :: "Buffer \<Rightarrow> size_t \<Rightarrow> cxx_error + Buffer" where
  "shrink b reserve =
     bind_r (Buffer_new InitSize) (\<lambda>other.
     bind_r (ensureWritableBytes other (readableBytes b + reserve)) (\<lambda>other1.
     bind_r (toStringPiece b) (\<lambda>str.
     bind_r (append_string other1 str) (\<lambda>other2.
       Inr (fst (Buffer_swap b other2))))))"

section \<open>Searching\<close>

text \<open>The first position at or after \<open>p\<close> where \<open>pat\<close> is found inside \<open>xs\<close>.\<close>

fun search_from :: "byte list \<Rightarrow> byte list \<Rightarrow> nat \<Rightarrow> nat option" where
  "search_from pat [] p = (if pat = [] then Some p else None)"
| "search_from pat (x # xs) p =
     (if take (length pat) (x # xs) = pat then Some p else search_from pat xs (Suc p))"

text \<open>\<open>std::search\<close> over the range from \<open>first\<close> to \<open>finish\<close> of the vector; \<open>finish\<close> itself when there
  is no match. A range whose end is before its start, or past the vector, is undefined.\<close>

definition std_search :: "Buffer \<Rightarrow> size_t \<Rightarrow> size_t \<Rightarrow> byte list \<Rightarrow> cxx_error + size_t" where
  "std_search b first finish pat =
     (if finish < first \<or> length (m_buffer b) < unat finish then Inl Undefined_Behaviour
      else case search_from pat (segment (unat first) (unat finish) (m_buffer b)) (unat first) of
             None \<Rightarrow> Inr finish
           | Some i \<Rightarrow> Inr (word_of_nat i))"

text \<open>\<open>memchr\<close>: the first occurrence of \<open>c\<close> in \<open>n\<close> bytes from \<open>p\<close>, or null.\<close>

definition memchr :: "Buffer \<Rightarrow> size_t \<Rightarrow> byte \<Rightarrow> size_t \<Rightarrow> cxx_error + size_t option" where
  "memchr b p c n =
     bind_r (read_range b p n) (\<lambda>bs.
       Inr (map_option word_of_nat (search_from [c] bs (unat p))))"

definition findString :: "Buffer \<Rightarrow> byte list \<Rightarrow> cxx_error + size_t" where
  "findString b targetStr = std_search b (peek b) 0 targetStr"

definition findCRLF :: "Buffer \<Rightarrow> cxx_error + size_t option" where
  "findCRLF b =
     bind_r (std_search b (peek b) 0 CRLF) (\<lambda>crlf.
       Inr (if crlf = beginWrite b then None else Some crlf))"

definition findCRLF_from :: "Buffer \<Rightarrow> size_t \<Rightarrow> cxx_error + size_t option" where
  "findCRLF_from b start =
     (if peek b > start then Inr None
      else if start > beginWrite b then Inr None
      else bind_r (std_search b start (beginWrite b) CRLF) (\<lambda>clf.
             Inr (if clf = beginWrite b then None else Some clf)))"

definition findEOF :: "Buffer \<Rightarrow> cxx_error + size_t option" where
  "findEOF b = memchr b (peek b) 10 (readableBytes b)"

definition findEOF_from :: "Buffer \<Rightarrow> size_t \<Rightarrow> cxx_error + size_t option" where
  "findEOF_from b start =
     (if peek b > start then Inr None
      else if start > beginWrite b then Inr None
      else memchr b start 10 (beginWrite b - start))"

section \<open>Reading from a descriptor\<close>

text \<open>What \<open>readv\<close> did: \<open>rv_data\<close> is \<open>None\<close> when it returned -1 and otherwise the bytes it read;
  \<open>rv_errno\<close> is \<open>errno\<close> after the call.\<close>

record readv_result =
  rv_data :: "byte list option"
  rv_errno :: int

definition extrabuf_size :: nat where
  "extrabuf_size = 65536"

definition readv_capacity :: "Buffer \<Rightarrow> nat" where
  "readv_capacity b =
     (if unat (writableBytes b) < extrabuf_size then unat (writableBytes b) + extrabuf_size
      else unat (writableBytes b))"

text \<open>The result is the \<open>int32_t\<close> returned, what is stored in \<open>*Errno\<close> if anything is, and the
  buffer. The first bytes read go to the writable part of the vector, the others to \<open>extrabuf\<close>;
  more bytes than the two hold would overrun \<open>extrabuf\<close>.\<close>

definition readFd :: "Buffer \<Rightarrow> readv_result \<Rightarrow> cxx_error + (int \<times> int option \<times> Buffer)" where
  "readFd b rv =
     (case rv_data rv of
        None \<Rightarrow> Inr (-1, Some (rv_errno rv), b)
      | Some bs \<Rightarrow>
          (let writable = writableBytes b; n = length bs;
               ret = sint (word_of_nat n :: u32) in
           if readv_capacity b < n then Inl Undefined_Behaviour
           else if n = 0 then Inr (ret, Some (rv_errno rv), b)
           else bind_r (write_range b (m_writeIndex b) (take (unat writable) bs)) (\<lambda>b1.
             if n \<le> unat writable then
               Inr (ret, None, b1\<lparr>m_writeIndex := m_writeIndex b1 + word_of_nat n\<rparr>)
             else
               bind_r (append_mem (b1\<lparr>m_writeIndex := vec_size (m_buffer b1)\<rparr>)
                         (drop (unat writable) bs) (word_of_nat n - writable)) (\<lambda>b2.
                 Inr (ret, None, b2)))))"

lemmas [op_defs] = Prepend_def readableBytes_def writableBytes_def prependableBytes_def peek_def
  beginWrite_def

section \<open>Invariant and content\<close>

text \<open>The indices are ordered and inside the vector, which has room for the prepend area and a
  legal size. The stronger \<open>Buffer_front\<close> says that the read index never moved past that area.\<close>

definition Buffer_inv :: "Buffer \<Rightarrow> bool" where
  "Buffer_inv b \<longleftrightarrow>
     unat (m_readIndex b) \<le> unat (m_writeIndex b) \<and>
     unat (m_writeIndex b) \<le> length (m_buffer b) \<and>
     8 \<le> length (m_buffer b) \<and> length (m_buffer b) < 2 ^ 63"

definition Buffer_front :: "Buffer \<Rightarrow> bool" where
  "Buffer_front b \<longleftrightarrow> Buffer_inv b \<and> unat (m_readIndex b) \<le> 8"

definition content :: "Buffer \<Rightarrow> byte list" where
  "content b = segment (unat (m_readIndex b)) (unat (m_writeIndex b)) (m_buffer b)"

lemma Buffer_frontD: "Buffer_front b \<Longrightarrow> Buffer_inv b"
  by (simp add: Buffer_front_def)

lemma unat_readable: "Buffer_inv b \<Longrightarrow>
    unat (readableBytes b) = unat (m_writeIndex b) - unat (m_readIndex b)"
  by (simp add: Buffer_inv_def readableBytes_def size_simps word_le_nat_alt)

lemma unat_writable: "Buffer_inv b \<Longrightarrow>
    unat (writableBytes b) = length (m_buffer b) - unat (m_writeIndex b)"
  by (simp add: Buffer_inv_def writableBytes_def size_simps word_le_nat_alt)

lemma length_content: "Buffer_inv b \<Longrightarrow> length (content b) = unat (readableBytes b)"
  by (simp add: unat_readable content_def Buffer_inv_def)

lemmas buffer_nat = unat_readable unat_writable Prepend_def prependableBytes_def peek_def
  beginWrite_def word_order_nat

lemma Buffer_new_ok:
  "unat n + 8 < 2 ^ 63 \<Longrightarrow>
   Buffer_new n = Inr \<lparr>m_buffer = replicate (8 + unat n) 0, m_readIndex = 8, m_writeIndex = 8\<rparr>"
  by (simp add: Buffer_new_def Prepend_def word_order_nat size_simps)

lemma Buffer_new_front:
  assumes "unat n + 8 < 2 ^ 63" and "Buffer_new n = Inr b"
  shows "Buffer_front b" and "content b = []" and "unat (writableBytes b) = unat n"
proof -
  from assms have b: "b = \<lparr>m_buffer = replicate (8 + unat n) 0, m_readIndex = 8, m_writeIndex = 8\<rparr>"
    by (simp add: Buffer_new_ok)
  with assms(1) show "Buffer_front b" "content b = []"
    by (simp_all add: Buffer_front_def Buffer_inv_def content_def)
  with b show "unat (writableBytes b) = unat n"
    by (simp add: unat_writable Buffer_frontD)
qed

subsection \<open>Consuming\<close>

lemma retrieveAll_front [inv_intros]: "Buffer_inv b \<Longrightarrow> Buffer_front (retrieveAll b)"
  by (simp add: Buffer_inv_def Buffer_front_def retrieveAll_def Prepend_def)

lemma content_retrieveAll [simp]: "content (retrieveAll b) = []"
  by (simp add: content_def retrieveAll_def)

text \<open>The second comparison of \<open>retrieve\<close> repeats the first, so a partial retrieval never happens.\<close>

lemma retrieve_cases:
  "retrieve b len = (if len < readableBytes b then (False, b) else (True, retrieveAll b))"
  by (simp add: retrieve_def)

lemma retrieve_inv [inv_intros]: "Buffer_inv b \<Longrightarrow> Buffer_inv (snd (retrieve b len))"
  by (simp add: retrieve_cases Buffer_frontD retrieveAll_front)

lemma retrieve_front [inv_intros]: "Buffer_front b \<Longrightarrow> Buffer_front (snd (retrieve b len))"
  by (simp add: retrieve_cases Buffer_frontD retrieveAll_front)

lemma content_retrieve:
  "Buffer_inv b \<Longrightarrow>
   content (snd (retrieve b len)) = (if unat len < length (content b) then content b else [])"
  by (simp add: retrieve_cases length_content word_less_nat_alt)

lemma retrieveUntil_front [inv_intros]:
  "Buffer_front b \<Longrightarrow> Buffer_front (snd (retrieveUntil b e))"
  by (simp add: retrieveUntil_def retrieve_front)

lemma read_range_content:
  assumes "Buffer_inv b" and "unat len \<le> unat (readableBytes b)"
  shows "read_range b (peek b) len = Inr (take (unat len) (content b))"
proof -
  have len: "unat (m_readIndex b) + unat len \<le> unat (m_writeIndex b)"
    using assms by (auto simp: unat_readable Buffer_inv_def)
  then have "take (unat len) (content b)
      = segment (unat (m_readIndex b)) (unat (m_readIndex b) + unat len) (m_buffer b)"
    using assms(1) by (simp add: content_def segment_def take_drop min_def add.commute)
  with len assms(1) show ?thesis
    by (simp add: read_range_def peek_def Buffer_inv_def)
qed

lemma readable_le_max: "Buffer_inv b \<Longrightarrow> unat (readableBytes b) < 2 ^ 63"
  by (auto simp: unat_readable Buffer_inv_def)

lemma string_of_range_content:
  assumes "Buffer_inv b" and "unat len \<le> unat (readableBytes b)"
  shows "string_of_range b (peek b) len = Inr (take (unat len) (content b))"
  using assms readable_le_max [OF assms(1)]
  by (simp add: string_of_range_def read_range_content word_less_nat_alt)

lemma retrieveAsString_eq:
  assumes "Buffer_inv b"
  shows "retrieveAsString b len =
    (if length (content b) < unat len then Inr ([], b)
     else Inr (take (unat len) (content b), snd (retrieve b len)))"
  using assms by (auto simp: retrieveAsString_def string_of_range_content length_content word_less_nat_alt)

lemma retrieveAllAsString_eq:
  assumes "Buffer_inv b"
  shows "retrieveAllAsString b = Inr (content b, retrieveAll b)"
  using assms
  by (simp add: retrieveAllAsString_def retrieveAsString_eq length_content [symmetric] retrieve_cases)

subsection \<open>Making room\<close>

lemma vector_resize_grow:
  "length v \<le> unat n \<Longrightarrow> unat n < 2 ^ 63 \<Longrightarrow>
   vector_resize v n = Inr (v @ replicate (unat n - length v) 0)"
  by (simp add: vector_resize_def word_less_nat_alt)

text \<open>The branch that grows the vector: the new size is exactly the write index plus \<open>len\<close>.\<close>

lemma makeSpace_grow:
  assumes inv: "Buffer_inv b" and len: "unat (writableBytes b) < unat len" "unat len < 2 ^ 63"
    and grow: "unat (writableBytes b) + unat (m_readIndex b) < unat len + 8"
    and fits: "unat (m_writeIndex b) + unat len < 2 ^ 63"
  shows "makeSpace b len = Inr (b\<lparr>m_buffer := m_buffer b @
           replicate (unat (m_writeIndex b) + unat len - length (m_buffer b)) 0\<rparr>)"
proof -
  have sum: "unat (m_writeIndex b + len) = unat (m_writeIndex b) + unat len"
    using fits by (simp add: size_simps)
  have "unat (writableBytes b + prependableBytes b) = unat (writableBytes b) + unat (m_readIndex b)"
  proof -
    have "unat (writableBytes b) + unat (m_readIndex b) < 2 ^ 64"
      using inv unat_writable [OF inv] by (auto simp: Buffer_inv_def)
    then show ?thesis by (simp only: prependableBytes_def unat_add_small)
  qed
  moreover have "unat (len + Prepend) = unat len + 8"
    using len by (simp add: size_simps Prepend_def)
  ultimately have "writableBytes b + prependableBytes b < len + Prepend"
    using grow by (simp add: word_less_nat_alt)
  moreover have "length (m_buffer b) \<le> unat (m_writeIndex b + len)"
    using inv len(1) by (simp add: sum unat_writable)
  ultimately show ?thesis
    using fits by (simp add: makeSpace_def vector_resize_grow sum)
qed

text \<open>With the read index inside the prepend area this is the only branch ever taken.\<close>

lemma ensureWritable_front:
  assumes front: "Buffer_front b" and len: "unat len < 2 ^ 63"
    and fits: "unat (m_writeIndex b) + unat len < 2 ^ 63"
  shows "ensureWritableBytes b len =
    Inr (b\<lparr>m_buffer := m_buffer b @
             replicate (unat (m_writeIndex b) + unat len - length (m_buffer b)) 0\<rparr>)"
proof -
  have inv: "Buffer_inv b" using front by (rule Buffer_frontD)
  show ?thesis
  proof (cases "writableBytes b < len")
    case True
    then have w: "unat (writableBytes b) < unat len" by (simp add: word_less_nat_alt)
    with front have "unat (writableBytes b) + unat (m_readIndex b) < unat len + 8"
      by (simp add: Buffer_front_def)
    with True w inv len fits show ?thesis by (simp add: ensureWritableBytes_def makeSpace_grow)
  next
    case False
    then have "unat (m_writeIndex b) + unat len \<le> length (m_buffer b)"
      using inv by (auto simp: word_less_nat_alt unat_writable Buffer_inv_def)
    with False show ?thesis by (simp add: ensureWritableBytes_def)
  qed
qed

lemma grown_front:
  assumes "Buffer_front b" and "unat (m_writeIndex b) + n < 2 ^ 63"
  shows "Buffer_front (b\<lparr>m_buffer := m_buffer b @
           replicate (unat (m_writeIndex b) + n - length (m_buffer b)) 0\<rparr>)"
    and "content (b\<lparr>m_buffer := m_buffer b @
           replicate (unat (m_writeIndex b) + n - length (m_buffer b)) 0\<rparr>) = content b"
  using assms by (auto simp: Buffer_front_def Buffer_inv_def content_def)

subsection \<open>Writing\<close>

text \<open>Bytes copied to the write index that fit in the vector, with the index left where it is or
  moved past them.\<close>

definition store_bytes :: "Buffer \<Rightarrow> byte list \<Rightarrow> Buffer" where
  "store_bytes b bs = b\<lparr>m_buffer := splice_at (unat (m_writeIndex b)) bs (m_buffer b)\<rparr>"

definition commit_bytes :: "Buffer \<Rightarrow> byte list \<Rightarrow> Buffer" where
  "commit_bytes b bs =
     (store_bytes b bs)\<lparr>m_writeIndex := m_writeIndex b + word_of_nat (length bs)\<rparr>"

lemma write_range_store:
  "unat (m_writeIndex b) + length bs \<le> length (m_buffer b) \<Longrightarrow>
   write_range b (m_writeIndex b) bs = Inr (store_bytes b bs)"
  by (simp add: write_range_def store_bytes_def)

lemma store_bytes_front:
  assumes "Buffer_front b" and "unat (m_writeIndex b) + length bs \<le> length (m_buffer b)"
  shows "Buffer_front (store_bytes b bs)" and "content (store_bytes b bs) = content b"
  using assms
  by (simp_all add: store_bytes_def Buffer_front_def Buffer_inv_def content_def segment_splice_before)

lemma unat_write_plus:
  assumes "Buffer_inv b" and "unat (m_writeIndex b) + n \<le> length (m_buffer b)"
  shows "unat (m_writeIndex b + word_of_nat n) = unat (m_writeIndex b) + n"
proof -
  have "n < 2 ^ 63" "unat (m_writeIndex b) + n < 2 ^ 63"
    using assms by (auto simp: Buffer_inv_def)
  then show ?thesis by (simp add: unat_add_small unat_of_nat_small)
qed

lemma commit_bytes_front:
  assumes "Buffer_front b" and "unat (m_writeIndex b) + length bs \<le> length (m_buffer b)"
  shows "Buffer_front (commit_bytes b bs)" and "content (commit_bytes b bs) = content b @ bs"
proof -
  let ?w = "unat (m_writeIndex b)" and ?r = "unat (m_readIndex b)"
  let ?v = "splice_at ?w bs (m_buffer b)"
  have rw: "?r \<le> ?w" and sum: "unat (m_writeIndex b + word_of_nat (length bs)) = ?w + length bs"
    using assms unat_write_plus [of b "length bs"] by (simp_all add: Buffer_front_def Buffer_inv_def)
  show "Buffer_front (commit_bytes b bs)"
    using assms sum by (simp add: commit_bytes_def store_bytes_def Buffer_front_def Buffer_inv_def)
  have "segment ?r (?w + length bs) ?v = segment ?r ?w ?v @ segment ?w (?w + length bs) ?v"
    using rw by (simp add: segment_append_segment)
  also have "\<dots> = content b @ bs"
    using assms(2) by (simp add: segment_splice_before segment_splice_same content_def)
  finally show "content (commit_bytes b bs) = content b @ bs"
    by (simp add: commit_bytes_def store_bytes_def content_def sum)
qed

text \<open>\<open>append\<close>: the bytes become readable only when they fill the writable space or overflow it,
  because \<open>hasWritten\<close> refuses to advance by less than the writable size.\<close>

lemma append_front:
  assumes front: "Buffer_front b" and len: "length data = unat len"
    and fits: "unat (m_writeIndex b) + unat len < 2 ^ 63"
  obtains b' where "append_mem b data len = Inr b'" and "Buffer_front b'"
    and "content b' = (if unat len < unat (writableBytes b) then content b else content b @ data)"
    and "length (m_buffer b') = max (length (m_buffer b)) (unat (m_writeIndex b) + unat len)"
proof -
  define b1 where "b1 = b\<lparr>m_buffer := m_buffer b @
             replicate (unat (m_writeIndex b) + unat len - length (m_buffer b)) 0\<rparr>"
  have inv: "Buffer_inv b" using front by (rule Buffer_frontD)
  have b1: "Buffer_front b1" "content b1 = content b"
    using grown_front [OF front fits] by (simp_all add: b1_def)
  have w1: "m_writeIndex b1 = m_writeIndex b" by (simp add: b1_def)
  have room: "unat (m_writeIndex b1) + length data \<le> length (m_buffer b1)"
    by (simp add: b1_def len)
  have size1: "length (m_buffer b1) = max (length (m_buffer b)) (unat (m_writeIndex b) + unat len)"
    by (auto simp: b1_def max_def)
  have ens: "ensureWritableBytes b len = Inr b1"
    using ensureWritable_front [OF front _ fits] fits by (simp add: b1_def)
  have less: "len < writableBytes (store_bytes b1 data) \<longleftrightarrow> unat len < unat (writableBytes b)"
  proof -
    have "unat (writableBytes (store_bytes b1 data))
        = length (m_buffer b1) - unat (m_writeIndex b)"
      using store_bytes_front(1) [OF b1(1) room] room
      by (simp add: unat_writable Buffer_frontD) (simp add: store_bytes_def w1)
    moreover have "unat (writableBytes b) = length (m_buffer b) - unat (m_writeIndex b)"
      by (rule unat_writable [OF inv])
    ultimately show ?thesis unfolding word_less_nat_alt size1 by linarith
  qed
  have eq: "append_mem b data len =
    Inr (if unat len < unat (writableBytes b) then store_bytes b1 data else commit_bytes b1 data)"
    using room
    by (simp add: append_mem_def ens len beginWrite_def write_range_store hasWritten_def less)
       (simp add: commit_bytes_def store_bytes_def len flip: word_eq_of_unat [OF len [symmetric]])
  show ?thesis
  proof (rule that [OF eq])
    show "Buffer_front (if unat len < unat (writableBytes b) then store_bytes b1 data
        else commit_bytes b1 data)"
      using store_bytes_front [OF b1(1) room] commit_bytes_front [OF b1(1) room] by simp
    show "content (if unat len < unat (writableBytes b) then store_bytes b1 data
        else commit_bytes b1 data)
      = (if unat len < unat (writableBytes b) then content b else content b @ data)"
      using store_bytes_front [OF b1(1) room] commit_bytes_front [OF b1(1) room] b1(2) by simp
    show "length (m_buffer (if unat len < unat (writableBytes b) then store_bytes b1 data
        else commit_bytes b1 data)) = max (length (m_buffer b)) (unat (m_writeIndex b) + unat len)"
      using room size1 by (simp add: store_bytes_def commit_bytes_def)
  qed
qed

lemma append_string_front:
  assumes "Buffer_front b" and "unat (m_writeIndex b) + length str < 2 ^ 63"
  obtains b' where "append_string b str = Inr b'" and "Buffer_front b'"
    and "content b' =
      (if length str < unat (writableBytes b) then content b else content b @ str)"
proof -
  have "length str = unat (vec_size str)"
    using assms(2) by (simp add: unat_vec_size)
  with append_front [of b str "vec_size str"] assms that show ?thesis
    by (metis append_string_def)
qed

text \<open>\<open>prepend\<close>: bytes put before the content, when the prepend area still has room for them.\<close>

lemma prepend_front:
  assumes front: "Buffer_front b" and len: "length data = unat len"
  obtains b' where "prepend b data len = Inr (unat len \<le> unat (m_readIndex b), b')"
    and "Buffer_front b'"
    and "content b' = (if unat len \<le> unat (m_readIndex b) then data @ content b else content b)"
proof (cases "unat len \<le> unat (m_readIndex b)")
  case False
  with that [of b] front show ?thesis
    by (simp add: prepend_def prependableBytes_def word_less_nat_alt)
next
  case True
  let ?r = "unat (m_readIndex b)" and ?w = "unat (m_writeIndex b)"
  define b' where "b' = b\<lparr>m_readIndex := m_readIndex b - len,
      m_buffer := splice_at (?r - length data) data (m_buffer b)\<rparr>"
  have r: "unat (m_readIndex b - len) = ?r - length data"
    using True by (simp add: size_simps word_le_nat_alt len)
  have rw: "?r \<le> ?w" "?w \<le> length (m_buffer b)" and d: "length data \<le> ?r"
    using front True len by (simp_all add: Buffer_front_def Buffer_inv_def)
  then have room: "?r - length data + length data \<le> length (m_buffer b)" by simp
  have eq: "prepend b data len = Inr (True, b')"
    using True rw d by (simp add: prepend_def prependableBytes_def write_range_def r word_less_nat_alt
        len [symmetric] b'_def)
  have front': "Buffer_front b'"
    using front room d by (auto simp: Buffer_front_def Buffer_inv_def b'_def r)
  let ?v = "splice_at (?r - length data) data (m_buffer b)"
  have "content b' = segment (?r - length data) ?w ?v"
    by (simp add: content_def b'_def r)
  also have "\<dots> = segment (?r - length data) ?r ?v @ segment ?r ?w ?v"
    using rw by (simp add: segment_append_segment)
  also have "segment (?r - length data) ?r ?v = data"
    using segment_splice_same [OF room] d by simp
  also have "segment ?r ?w ?v = content b"
    using drop_splice_at [OF room, of ?r] rw d
    by (simp add: content_def segment_def drop_take)
  finally show ?thesis using that [OF _ front'] eq True by simp
qed

subsection \<open>Reading from a descriptor\<close>

lemma commit_to_end:
  assumes "Buffer_inv b" and "length bs = unat (writableBytes b)"
  shows "(store_bytes b bs)\<lparr>m_writeIndex := vec_size (m_buffer (store_bytes b bs))\<rparr> = commit_bytes b bs"
proof -
  have room: "unat (m_writeIndex b) + length bs = length (m_buffer b)"
    using assms by (simp add: unat_writable Buffer_inv_def)
  have "m_writeIndex b + word_of_nat (length bs) = vec_size (m_buffer b)"
    unfolding vec_size_def room [symmetric] by simp
  with room show ?thesis by (simp add: commit_bytes_def store_bytes_def vec_size_def)
qed

lemma readFd_front:
  assumes front: "Buffer_front b" and rv: "rv_data rv = Some bs" "bs \<noteq> []"
    and cap: "length bs \<le> readv_capacity b" and fits: "length (m_buffer b) + length bs < 2 ^ 63"
  obtains b' where "readFd b rv = Inr (sint (word_of_nat (length bs) :: u32), None, b')"
    and "Buffer_front b'" and "content b' = content b @ bs"
    and "length (m_buffer b') \<le> length (m_buffer b) + length bs"
proof -
  have inv: "Buffer_inv b" using front by (rule Buffer_frontD)
  let ?W = "unat (writableBytes b)"
  have wW: "unat (m_writeIndex b) + ?W = length (m_buffer b)"
    using inv by (simp add: unat_writable Buffer_inv_def)
  have c: "\<not> readv_capacity b < length bs" using cap by simp
  show ?thesis
  proof (cases "length bs \<le> ?W")
    case True
    then have room: "unat (m_writeIndex b) + length bs \<le> length (m_buffer b)"
      using wW by simp
    have "readFd b rv = Inr (sint (word_of_nat (length bs) :: u32), None, commit_bytes b bs)"
      using True rv c by (simp add: readFd_def Let_def write_range_store room)
         (simp add: commit_bytes_def store_bytes_def)
    then show ?thesis
      using that commit_bytes_front [OF front room] room
      by (simp add: commit_bytes_def store_bytes_def)
  next
    case False
    define b2 where "b2 = commit_bytes b (take ?W bs)"
    have lW: "length (take ?W bs) = ?W" using False by simp
    have room: "unat (m_writeIndex b) + length (take ?W bs) \<le> length (m_buffer b)"
      using wW lW by simp
    have b2: "Buffer_front b2" "content b2 = content b @ take ?W bs"
      using commit_bytes_front [OF front room] by (simp_all add: b2_def)
    have size2: "length (m_buffer b2) = length (m_buffer b)"
      using room by (simp add: b2_def commit_bytes_def store_bytes_def)
    have "m_writeIndex b2 = vec_size (m_buffer b)"
      using commit_to_end [OF inv lW] room
      by (metis Buffer.select_convs(3) Buffer.surjective Buffer.update_convs(3) b2_def
          commit_bytes_def store_bytes_def length_splice_at vec_size_def Buffer.select_convs(1)
          Buffer.update_convs(1))
    then have end2: "unat (m_writeIndex b2) = length (m_buffer b)"
      using inv by (simp add: unat_vec_size Buffer_inv_def)
    then have full2: "unat (writableBytes b2) = 0"
      using b2(1) size2 by (simp add: unat_writable Buffer_frontD)
    have len: "length (drop ?W bs) = unat (word_of_nat (length bs) - writableBytes b)"
      using False fits by (simp add: size_simps word_le_nat_alt unat_of_nat_small)
    have fits2: "unat (m_writeIndex b2) + unat (word_of_nat (length bs) - writableBytes b) < 2 ^ 63"
      unfolding end2 len [symmetric] using fits by simp
    obtain b' where b': "append_mem b2 (drop ?W bs) (word_of_nat (length bs) - writableBytes b) = Inr b'"
      "Buffer_front b'" "content b' = content b2 @ drop ?W bs"
      "length (m_buffer b') = max (length (m_buffer b)) (length (m_buffer b) + length (drop ?W bs))"
      using append_front [OF b2(1) len fits2] len end2 full2 size2 by auto
    have "readFd b rv = Inr (sint (word_of_nat (length bs) :: u32), None, b')"
      using False rv c b'(1) commit_to_end [OF inv lW] lW
      by (simp add: readFd_def Let_def write_range_store [OF room] b2_def)
    then show ?thesis
      using that b' b2 by simp
  qed
qed

subsection \<open>Size limits\<close>

lemma ensureWritable_overflow:
  assumes front: "Buffer_front b" and len: "unat len < 2 ^ 63"
    and over: "2 ^ 63 \<le> unat (m_writeIndex b) + unat len"
  shows "ensureWritableBytes b len = Inl Length_Error"
proof -
  have inv: "Buffer_inv b" and wr: "unat (m_writeIndex b) < 2 ^ 63"
    using front by (auto simp: Buffer_front_def Buffer_inv_def)
  have w: "unat (writableBytes b) < unat len"
    using inv over by (auto simp: unat_writable Buffer_inv_def)
  have "unat (writableBytes b + prependableBytes b) = unat (writableBytes b) + unat (m_readIndex b)"
    using w len front by (auto simp: prependableBytes_def Buffer_front_def intro!: unat_add_small)
  moreover have "unat (len + Prepend) = unat len + 8"
    using len by (simp add: size_simps Prepend_def)
  ultimately have "writableBytes b + prependableBytes b < len + Prepend"
    using w front by (simp add: word_less_nat_alt Buffer_front_def)
  moreover have "unat (m_writeIndex b + len) = unat (m_writeIndex b) + unat len"
    using wr len by (intro unat_add_small) simp
  then have "max_size < m_writeIndex b + len"
    using over by (simp add: word_less_nat_alt)
  ultimately show ?thesis
    using w by (simp add: ensureWritableBytes_def makeSpace_def vector_resize_def word_less_nat_alt)
qed

lemma ensureWritable_inv [inv_intros]:
  assumes "Buffer_front b" and "unat len < 2 ^ 63" and "ensureWritableBytes b len = Inr b'"
  shows "Buffer_front b'" and "content b' = content b"
    and "length (m_buffer b') = max (length (m_buffer b)) (unat (m_writeIndex b) + unat len)"
    and "m_writeIndex b' = m_writeIndex b"
proof -
  have fits: "unat (m_writeIndex b) + unat len < 2 ^ 63"
    using ensureWritable_overflow [OF assms(1,2)] assms(3) by fastforce
  then have b': "b' = b\<lparr>m_buffer := m_buffer b @
             replicate (unat (m_writeIndex b) + unat len - length (m_buffer b)) 0\<rparr>"
    using ensureWritable_front [OF assms(1,2)] assms(3) by simp
  show "Buffer_front b'" "content b' = content b"
    using grown_front [OF assms(1) fits] b' by simp_all
  show "length (m_buffer b') = max (length (m_buffer b)) (unat (m_writeIndex b) + unat len)"
    and "m_writeIndex b' = m_writeIndex b"
    by (auto simp: b' max_def)
qed

lemma append_inv [inv_intros]:
  assumes "Buffer_front b" and "length data = unat len" and "unat len < 2 ^ 63"
    and "append_mem b data len = Inr b'"
  shows "Buffer_front b'"
proof (cases "unat (m_writeIndex b) + unat len < 2 ^ 63")
  case True
  with append_front [OF assms(1,2)] assms(4) show ?thesis by (metis Inr_inject)
next
  case False
  with assms show ?thesis by (simp add: append_mem_def ensureWritable_overflow)
qed

lemma prepend_inv [inv_intros]:
  "Buffer_front b \<Longrightarrow> length data = unat len \<Longrightarrow> prepend b data len = Inr (ok, b') \<Longrightarrow> Buffer_front b'"
  by (metis Inr_inject Pair_inject prepend_front)

lemma readFd_inv [inv_intros]:
  assumes "Buffer_front b" and "readFd b rv = Inr (n, e, b')"
    and "\<And>bs. rv_data rv = Some bs \<Longrightarrow> length (m_buffer b) + length bs < 2 ^ 63"
  shows "Buffer_front b'"
proof (cases "rv_data rv")
  case None
  with assms show ?thesis by (simp add: readFd_def)
next
  case (Some bs)
  show ?thesis
  proof (cases "bs = [] \<or> readv_capacity b < length bs")
    case True
    with Some assms(1,2) show ?thesis by (auto simp: readFd_def Let_def split: if_splits)
  next
    case False
    with readFd_front [OF assms(1) Some _ _ assms(3) [OF Some]] assms(2) show ?thesis
      by (metis Inr_inject Pair_inject leI)
  qed
qed

lemma int_cast_small:
  assumes "unat n < 2 ^ 31"
  shows "int_cast n = n"
proof -
  have hi: "\<not> bit n k" if "31 \<le> k" for k
  proof
    assume "bit n k"
    then have "bit (unat n) k" by (simp add: bit_unsigned_iff bit_imp_le_length)
    then have "odd (unat n div 2 ^ k)" by (rule bit_iff_odd [THEN iffD1])
    moreover have "unat n < 2 ^ k" 
      by (rule less_le_trans [OF assms], rule power_increasing) (use that in simp_all)
    ultimately show False by simp
  qed
  show ?thesis
  proof (rule bit_word_eqI)
    fix k
    assume "k < LENGTH(64)"
    then show "bit (int_cast n) k = bit n k"
      using hi by (auto simp: int_cast_def bit_simps min_def)
  qed
qed

lemma toStringPiece_small:
  "Buffer_inv b \<Longrightarrow> unat (readableBytes b) < 2 ^ 31 \<Longrightarrow> toStringPiece b = Inr (content b)"
  by (simp add: toStringPiece_def int_cast_small string_of_range_content length_content [symmetric])

lemma toStringPiece_length: "toStringPiece b = Inr s \<Longrightarrow> length s < 2 ^ 63"
  by (auto simp: toStringPiece_def string_of_range_def read_range_def word_less_nat_alt
      split: if_splits)

lemma shrink_other:
  assumes "unat (readableBytes b + reserve) < 2 ^ 63"
    and "ensureWritableBytes \<lparr>m_buffer = replicate 1032 0, m_readIndex = 8, m_writeIndex = 8\<rparr>
           (readableBytes b + reserve) = Inr c"
  shows "Buffer_front c" and "content c = []" and "m_writeIndex c = 8"
    and "unat (writableBytes c) = max 1024 (unat (readableBytes b + reserve))"
proof -
  let ?n = "\<lparr>m_buffer = replicate 1032 0, m_readIndex = 8, m_writeIndex = 8\<rparr> :: Buffer"
  have n: "Buffer_front ?n" "content ?n = []"
    by (simp_all add: Buffer_front_def Buffer_inv_def content_def)
  note c = ensureWritable_inv [OF n(1) assms]
  show "Buffer_front c" "content c = []" "m_writeIndex c = 8"
    using c n by simp_all
  with c(3) show "unat (writableBytes c) = max 1024 (unat (readableBytes b + reserve))"
    by (simp add: unat_writable Buffer_frontD)
qed

lemma Buffer_new_InitSize:
  "Buffer_new InitSize = Inr \<lparr>m_buffer = replicate 1032 0, m_readIndex = 8, m_writeIndex = 8\<rparr>"
  by (simp add: Buffer_new_ok InitSize_def)

lemma shrink_inv [inv_intros]:
  assumes "unat (readableBytes b + reserve) < 2 ^ 63" and "shrink b reserve = Inr b'"
  shows "Buffer_front b'"
proof -
  obtain c str d where c: "ensureWritableBytes
        \<lparr>m_buffer = replicate 1032 0, m_readIndex = 8, m_writeIndex = 8\<rparr>
        (readableBytes b + reserve) = Inr c"
    and str: "toStringPiece b = Inr str" and d: "append_string c str = Inr d"
    and b': "b' = fst (Buffer_swap b d)"
    using assms(2) by (auto simp: shrink_def Buffer_new_InitSize bind_r_eq_Inr)
  have l: "length str < 2 ^ 63" using str by (rule toStringPiece_length)
  then have "length str = unat (vec_size str)" by (simp add: unat_vec_size)
  with l append_inv [OF shrink_other(1) [OF assms(1) c], of str "vec_size str" d] d
  have "Buffer_front d" by (simp add: append_string_def)
  then show ?thesis
    by (simp add: b' Buffer_swap_def Buffer_front_def Buffer_inv_def)
qed

lemma shrink_content:
  assumes inv: "Buffer_inv b" and small: "length (content b) + unat reserve < 2 ^ 31"
  obtains b' where "shrink b reserve = Inr b'" and "Buffer_front b'"
    and "content b' = (if length (content b) < max 1024 (length (content b) + unat reserve)
                       then [] else content b)"
proof -
  let ?n = "\<lparr>m_buffer = replicate 1032 0, m_readIndex = 8, m_writeIndex = 8\<rparr> :: Buffer"
  have rd: "unat (readableBytes b) = length (content b)" using inv by (simp add: length_content)
  have x: "unat (readableBytes b + reserve) = length (content b) + unat reserve"
    using small rd by (simp add: size_simps)
  have n: "Buffer_front ?n" by (simp add: Buffer_front_def Buffer_inv_def)
  obtain c where c: "ensureWritableBytes ?n (readableBytes b + reserve) = Inr c"
    using ensureWritable_front [OF n, of "readableBytes b + reserve"] x small by auto
  have x63: "unat (readableBytes b + reserve) < 2 ^ 63" using x small by simp
  note other = shrink_other [OF x63 c]
  obtain d where d: "append_string c (content b) = Inr d" "Buffer_front d"
    "content d = (if length (content b) < unat (writableBytes c) then content c
                  else content c @ content b)"
    using append_string_front [OF other(1), of "content b"] other(3) small by auto
  have "shrink b reserve = Inr (fst (Buffer_swap b d))"
    using c d(1) small rd
    by (simp add: shrink_def Buffer_new_InitSize toStringPiece_small [OF inv])
  moreover have "fst (Buffer_swap b d) = d" by (simp add: Buffer_swap_def)
  ultimately have "shrink b reserve = Inr d" by simp
  moreover have "content d = (if length (content b) < max 1024 (length (content b) + unat reserve)
                       then [] else content b)"
    using d(3) by (simp only: other(2,4) x append_Nil)
  ultimately show ?thesis using that d(2) by blast
qed

subsection \<open>Searching\<close>

lemma search_from_bounds: "search_from pat xs p = Some i \<Longrightarrow> p \<le> i \<and> i \<le> p + length xs"
  by (induction xs arbitrary: p) (fastforce split: if_splits)+

lemma search_from_char:
  "search_from [c] xs p =
     (if c \<in> set xs then Some (p + length (takeWhile (\<lambda>x. x \<noteq> c) xs)) else None)"
  by (induction xs arbitrary: p) auto

lemma findEOF_front:
  assumes "Buffer_inv b"
  shows "findEOF b =
    Inr (if 10 \<in> set (content b)
         then Some (word_of_nat (unat (m_readIndex b) + length (takeWhile (\<lambda>x. x \<noteq> 10) (content b))))
         else None)"
proof -
  have "read_range b (peek b) (readableBytes b) = Inr (content b)"
    using read_range_content [OF assms order_refl] assms by (simp add: length_content [symmetric])
  then show ?thesis
    by (simp add: findEOF_def memchr_def search_from_char peek_def)
qed

text \<open>\<open>findString\<close> and \<open>findCRLF\<close> search from \<open>peek()\<close> to \<open>begin()\<close>.\<close>

lemma std_search_to_begin:
  "std_search b (peek b) 0 pat =
     (if m_readIndex b = 0 then Inr 0 else Inl Undefined_Behaviour)"
proof (cases "m_readIndex b = 0")
  case True
  then show ?thesis
    by (cases pat) (simp_all add: std_search_def peek_def)
next
  case False
  then show ?thesis by (simp add: std_search_def peek_def word_neq_0_conv)
qed

section \<open>Runs of a buffer\<close>

text \<open>The buffers a program can reach with the public operations, while the vector stays below
  the largest size. \<open>hasWritten\<close> is public: its caller has written \<open>len\<close> bytes at \<open>beginWrite()\<close>, so \<open>len\<close>
  is at most the writable size, and what the bytes are is up to the caller. Every such buffer keeps its
  read index inside the prepend area.\<close>

inductive Buffer_reach :: "Buffer \<Rightarrow> bool" where
  reach_new: "unat n + 8 < 2 ^ 63 \<Longrightarrow> Buffer_new n = Inr b \<Longrightarrow> Buffer_reach b"
| reach_append: "Buffer_reach b \<Longrightarrow> length data = unat len \<Longrightarrow> unat len < 2 ^ 63 \<Longrightarrow>
    append_mem b data len = Inr b' \<Longrightarrow> Buffer_reach b'"
| reach_prepend: "Buffer_reach b \<Longrightarrow> length data = unat len \<Longrightarrow> prepend b data len = Inr (ok, b') \<Longrightarrow>
    Buffer_reach b'"
| reach_retrieve: "Buffer_reach b \<Longrightarrow> Buffer_reach (snd (retrieve b n))"
| reach_retrieveAll: "Buffer_reach b \<Longrightarrow> Buffer_reach (retrieveAll b)"
| reach_retrieveUntil: "Buffer_reach b \<Longrightarrow> Buffer_reach (snd (retrieveUntil b e))"
| reach_retrieveAsString: "Buffer_reach b \<Longrightarrow> retrieveAsString b n = Inr (str, b') \<Longrightarrow> Buffer_reach b'"
| reach_ensureWritable: "Buffer_reach b \<Longrightarrow> unat n < 2 ^ 63 \<Longrightarrow> ensureWritableBytes b n = Inr b' \<Longrightarrow>
    Buffer_reach b'"
| reach_readFd: "Buffer_reach b \<Longrightarrow> (\<And>bs. rv_data rv = Some bs \<Longrightarrow> length (m_buffer b) + length bs < 2 ^ 63) \<Longrightarrow>
    readFd b rv = Inr (n, e, b') \<Longrightarrow> Buffer_reach b'"
| reach_shrink: "Buffer_reach b \<Longrightarrow> unat (readableBytes b + reserve) < 2 ^ 63 \<Longrightarrow> shrink b reserve = Inr b' \<Longrightarrow>
    Buffer_reach b'"
| reach_swap: "Buffer_reach b \<Longrightarrow> Buffer_reach rhs \<Longrightarrow> Buffer_swap b rhs = (b', rhs') \<Longrightarrow> b'' \<in> {b', rhs'} \<Longrightarrow> Buffer_reach b''"
| reach_write: "Buffer_reach b \<Longrightarrow> write_range b (beginWrite b) bs = Inr b' \<Longrightarrow> Buffer_reach b'"
| reach_hasWritten: "Buffer_reach b \<Longrightarrow> len \<le> writableBytes b \<Longrightarrow> Buffer_reach (snd (hasWritten b len))"

lemma Buffer_reach_front: "Buffer_reach b \<Longrightarrow> Buffer_front b"
proof (induction rule: Buffer_reach.induct)
  case (reach_new n b)
  then show ?case by (rule Buffer_new_front)
next
  case (reach_append b data len b')
  then show ?case by (blast intro: append_inv)
next
  case (reach_prepend b data len ok b')
  then show ?case by (blast intro: prepend_inv)
next
  case (reach_retrieveAsString b n str b')
  then show ?case
    by (auto simp: retrieveAsString_eq Buffer_frontD retrieve_front split: if_splits)
next
  case (reach_ensureWritable b n b')
  then show ?case by (blast intro: ensureWritable_inv)
next
  case (reach_readFd b rv n e b')
  then show ?case by (blast intro: readFd_inv)
next
  case (reach_shrink b reserve b')
  then show ?case by (blast intro: shrink_inv)
next
  case (reach_swap b rhs b' rhs' b'')
  then show ?case by (auto simp: Buffer_swap_def Buffer_front_def Buffer_inv_def)
next
  case (reach_write b bs b')
  then show ?case by (auto simp: write_range_def Buffer_front_def Buffer_inv_def splice_at_def split: if_splits)
next
  case (reach_hasWritten b len)
  then have inv: "Buffer_inv b" by (simp add: Buffer_frontD)
  have w: "unat (m_writeIndex b) \<le> length (m_buffer b)" "length (m_buffer b) < 2 ^ 63" using inv by (simp_all add: Buffer_inv_def)
  have "m_writeIndex b + writableBytes b = vec_size (m_buffer b)" by (simp add: writableBytes_def)
  moreover have "unat (vec_size (m_buffer b)) = length (m_buffer b)" using w by (simp add: unat_vec_size)
  ultimately show ?case using reach_hasWritten w
    by (auto simp: hasWritten_def Buffer_front_def Buffer_inv_def)
qed (simp_all add: retrieve_front retrieveUntil_front retrieveAll_front Buffer_frontD)

section \<open>Input stores\<close>

text \<open>What a reader asks of the buffer it fills from a socket: each successful fill keeps the
  store well formed, appends what was read to the content, and uses at most that much more
  memory. Filling from a stream then delivers the stream.\<close>

locale input_store =
  fixes ok :: "'s \<Rightarrow> bool" and data :: "'s \<Rightarrow> 'x list" and used :: "'s \<Rightarrow> nat"
    and limit :: "'s \<Rightarrow> nat" and fill :: "'s \<Rightarrow> 'x list \<Rightarrow> 'e + 's" and bound :: nat
  assumes fill_ok: "ok s \<Longrightarrow> xs \<noteq> [] \<Longrightarrow> length xs \<le> limit s \<Longrightarrow> used s + length xs < bound \<Longrightarrow>
      \<exists>s'. fill s xs = Inr s' \<and> ok s' \<and> data s' = data s @ xs \<and> used s' \<le> used s + length xs"
begin

primrec fills :: "'s \<Rightarrow> 'x list list \<Rightarrow> 'e + 's" where
  "fills s [] = Inr s"
| "fills s (c # cs) = bind_r (fill s c) (\<lambda>s'. fills s' cs)"

lemma fills_deliver:
  assumes "ok s" and "\<forall>c \<in> set cs. c \<noteq> []" and "\<And>s c. c \<in> set cs \<Longrightarrow> length c \<le> limit s"
    and "used s + length (concat cs) < bound"
  shows "\<exists>s'. fills s cs = Inr s' \<and> ok s' \<and> data s' = data s @ concat cs"
  using assms
proof (induction cs arbitrary: s)
  case Nil
  then show ?case by simp
next
  case (Cons c cs)
  obtain s' where s': "fill s c = Inr s'" "ok s'" "data s' = data s @ c" "used s' \<le> used s + length c"
    using fill_ok [of s c] Cons.prems by auto
  moreover have "used s' + length (concat cs) < bound"
    using s'(4) Cons.prems(4) by simp
  ultimately obtain s'' where "fills s' cs = Inr s''" "ok s''" "data s'' = data s' @ concat cs"
    using Cons.IH [of s'] Cons.prems by auto
  then show ?case using s' by simp
qed

end

text \<open>The buffer filled by successful \<open>readv\<close> calls.\<close>

definition readFd_bytes :: "Buffer \<Rightarrow> byte list \<Rightarrow> cxx_error + Buffer" where
  "readFd_bytes b bs =
     bind_r (readFd b \<lparr>rv_data = Some bs, rv_errno = 0\<rparr>) (\<lambda>(n, e, b'). Inr b')"

primrec readFd_stream :: "Buffer \<Rightarrow> byte list list \<Rightarrow> cxx_error + Buffer" where
  "readFd_stream b [] = Inr b"
| "readFd_stream b (c # cs) = bind_r (readFd_bytes b c) (\<lambda>b'. readFd_stream b' cs)"

lemma capacity_ge: "65536 \<le> readv_capacity b"
  by (simp add: readv_capacity_def extrabuf_size_def)

interpretation buf: input_store Buffer_front content "\<lambda>b. length (m_buffer b)" "\<lambda>b. 65536"
  readFd_bytes "2 ^ 63"
proof
  fix b bs
  assume a: "Buffer_front b" "bs \<noteq> ([] :: byte list)" "length bs \<le> 65536"
    "length (m_buffer b) + length bs < 2 ^ 63"
  obtain b' where "readFd b \<lparr>rv_data = Some bs, rv_errno = 0\<rparr>
        = Inr (sint (word_of_nat (length bs) :: u32), None, b')"
    and "Buffer_front b'" "content b' = content b @ bs"
    "length (m_buffer b') \<le> length (m_buffer b) + length bs"
    by (rule readFd_front [OF a(1) _ a(2) _ a(4), of "\<lparr>rv_data = Some bs, rv_errno = 0\<rparr>"])
       (use a(3) capacity_ge [of b] in auto)
  then show "\<exists>b'. readFd_bytes b bs = Inr b' \<and> Buffer_front b' \<and> content b' = content b @ bs \<and>
      length (m_buffer b') \<le> length (m_buffer b) + length bs"
    by (simp add: readFd_bytes_def)
qed

lemma readFd_stream_fills: "readFd_stream b cs = buf.fills b cs"
  by (induction cs arbitrary: b) simp_all

section \<open>Properties\<close>

lemma hasWritten_too_much:
  assumes "Buffer_inv b" and "writableBytes b < len" and "unat (m_writeIndex b) + unat len < 2 ^ 64"
  shows "fst (hasWritten b len)" and "length (m_buffer b) < unat (m_writeIndex (snd (hasWritten b len)))"
proof -
  show "fst (hasWritten b len)" using assms(2) by (simp add: hasWritten_def)
  have "length (m_buffer b) - unat (m_writeIndex b) < unat len"
    using assms(2) by (simp add: word_less_nat_alt unat_writable [OF assms(1)])
  moreover have "unat (m_writeIndex b + len) = unat (m_writeIndex b) + unat len"
    using assms(3) by (simp add: unat_word_ariths)
  moreover have "\<not> len < writableBytes b" using assms(2) by (rule less_not_sym)
  ultimately show "length (m_buffer b) < unat (m_writeIndex (snd (hasWritten b len)))"
    by (simp add: hasWritten_def)
qed


lemma reach_InitSize: "Buffer_reach \<lparr>m_buffer = replicate 1032 0, m_readIndex = 8, m_writeIndex = 8\<rparr>"
  by (rule reach_new [OF _ Buffer_new_InitSize]) (simp add: InitSize_def)


text \<open>C7. Reading a socket: whatever pieces \<open>readv\<close> delivers, of at most 64 KB each, whether
  they fit the vector or overflow into the stack buffer, the content of a fresh buffer is then
  exactly the stream, and no read is out of bounds or fails.\<close>

theorem readFd_delivers_stream:
  assumes "unat n + 8 + length (concat cs) < 2 ^ 63" and "Buffer_new n = Inr b"
    and "\<forall>c \<in> set cs. c \<noteq> [] \<and> length c \<le> 65536"
  shows "\<exists>b'. readFd_stream b cs = Inr b' \<and> Buffer_front b' \<and> content b' = concat cs"
proof -
  have "length (m_buffer b) = 8 + unat n" "Buffer_front b" "content b = []"
    using assms(1,2) Buffer_new_front [of n b] by (auto simp: Buffer_new_ok)
  then show ?thesis
    using buf.fills_deliver [of b cs] assms(1,3) by (simp add: readFd_stream_fills)
qed

theorem readFd_delivers_stream_witness:
  "\<exists>b'. readFd_stream \<lparr>m_buffer = replicate 12 0, m_readIndex = 8, m_writeIndex = 8\<rparr> [[1, 2, 3], [4, 5, 6]]
     = Inr b' \<and> Buffer_front b' \<and> content b' = [1, 2, 3, 4, 5, 6]"
proof -
  have "Buffer_new 4 = Inr \<lparr>m_buffer = replicate 12 0, m_readIndex = 8, m_writeIndex = 8\<rparr>"
    by (simp add: Buffer_new_ok)
  from readFd_delivers_stream [OF _ this, of "[[1, 2, 3], [4, 5, 6]]"] show ?thesis
    by (auto simp del: readFd_stream.simps)
qed

text \<open>\<open>append\<close> always copies the bytes behind the write index, growing the vector when it must,
  and throws \<open>length_error\<close> when the vector would be too long. It makes them readable only when they
  fill the writable space: \<open>hasWritten\<close> has its guard inverted and refuses every shorter write, so
  such an append leaves the content, and what a later \<open>append\<close> overwrites, as before.\<close>

theorem append_effect:
  assumes "Buffer_front b" and "length data = unat len" and "unat len < 2 ^ 63"
  shows "if 2 ^ 63 \<le> unat (m_writeIndex b) + unat len then append_mem b data len = Inl Length_Error
    else \<exists>b'. append_mem b data len = Inr b' \<and> Buffer_front b' \<and>
      content b' = (if unat len < unat (writableBytes b) then content b else content b @ data) \<and>
      length (m_buffer b') = max (length (m_buffer b)) (unat (m_writeIndex b) + unat len)"
proof (cases "2 ^ 63 \<le> unat (m_writeIndex b) + unat len")
  case True
  with assms show ?thesis by (simp add: append_mem_def ensureWritable_overflow)
next
  case False
  then have fits: "unat (m_writeIndex b) + unat len < 2 ^ 63" by simp
  obtain b' where "append_mem b data len = Inr b'" "Buffer_front b'"
    "content b' = (if unat len < unat (writableBytes b) then content b else content b @ data)"
    "length (m_buffer b') = max (length (m_buffer b)) (unat (m_writeIndex b) + unat len)"
    by (rule append_front [OF assms(1,2) fits])
  then show ?thesis unfolding if_not_P [OF False] by blast
qed

theorem append_effect_witness:
  "\<exists>b'. append_mem \<lparr>m_buffer = replicate 12 0, m_readIndex = 8, m_writeIndex = 8\<rparr> [65, 66] 2 = Inr b' \<and>
     content b' = []"
  using append_effect [of "\<lparr>m_buffer = replicate 12 0, m_readIndex = 8, m_writeIndex = 8\<rparr>" "[65, 66]" 2]
  by (auto simp: Buffer_front_def Buffer_inv_def content_def writableBytes_def vec_size_def)

text \<open>Consuming is all or nothing. \<open>retrieve\<close> of less than everything is refused and changes
  nothing; \<open>retrieveAsString\<close> of a proper prefix returns the prefix and leaves it in the buffer, so
  the next call returns it again; \<open>retrieveAllAsString\<close> returns the content and empties the buffer.\<close>

theorem retrieve_all_or_nothing:
  assumes "Buffer_inv b"
  shows "(if unat len < length (content b)
      then retrieve b len = (False, b) \<and> retrieveAsString b len = Inr (take (unat len) (content b), b)
      else retrieve b len = (True, retrieveAll b)) \<and>
    retrieveAllAsString b = Inr (content b, retrieveAll b) \<and> content (retrieveAll b) = []"
  using assms
  by (simp add: retrieve_cases retrieveAsString_eq retrieveAllAsString_eq length_content
      word_less_nat_alt)

theorem retrieve_all_or_nothing_witness:
  "retrieve \<lparr>m_buffer = [0, 0, 0, 0, 0, 0, 0, 0, 65, 66], m_readIndex = 8, m_writeIndex = 10\<rparr> 1
    = (False, \<lparr>m_buffer = [0, 0, 0, 0, 0, 0, 0, 0, 65, 66], m_readIndex = 8, m_writeIndex = 10\<rparr>)"
  using retrieve_all_or_nothing
    [of "\<lparr>m_buffer = [0, 0, 0, 0, 0, 0, 0, 0, 65, 66], m_readIndex = 8, m_writeIndex = 10\<rparr>" 1]
  by (simp add: Buffer_inv_def content_def segment_def)

text \<open>\<open>shrink\<close> loses what it is meant to keep: it appends the content to a fresh buffer whose
  writable part is larger, so nothing becomes readable, unless the content is at least 1024 bytes
  long and nothing is reserved; only then is it kept.\<close>

theorem shrink_drops_content:
  assumes "Buffer_inv b" and "length (content b) + unat reserve < 2 ^ 31"
  shows "\<exists>b'. shrink b reserve = Inr b' \<and> Buffer_front b' \<and>
    content b' = (if 1024 \<le> length (content b) \<and> reserve = 0 then content b else [])"
proof -
  obtain b' where "shrink b reserve = Inr b'" "Buffer_front b'"
    and "content b' = (if length (content b) < max 1024 (length (content b) + unat reserve)
                       then [] else content b)"
    by (rule shrink_content [OF assms])
  moreover have "reserve = 0 \<longleftrightarrow> unat reserve = 0" by (simp add: unat_eq_0)
  then have "length (content b) < max 1024 (length (content b) + unat reserve)
      \<longleftrightarrow> \<not> (1024 \<le> length (content b) \<and> reserve = 0)"
    by linarith
  ultimately show ?thesis by auto
qed

theorem shrink_drops_content_witness:
  "\<exists>b'. shrink \<lparr>m_buffer = [0, 0, 0, 0, 0, 0, 0, 0, 65, 66], m_readIndex = 8, m_writeIndex = 10\<rparr> 0 = Inr b'
     \<and> content b' = []"
  using shrink_drops_content
    [of "\<lparr>m_buffer = [0, 0, 0, 0, 0, 0, 0, 0, 65, 66], m_readIndex = 8, m_writeIndex = 10\<rparr>" 0]
  by (auto simp: Buffer_inv_def content_def segment_def)

text \<open>\<open>findEOF\<close> finds the first newline of the content, or null. \<open>findCRLF\<close> and
  \<open>findString\<close> pass \<open>begin()\<close> as the end of the range they search, so they are undefined as soon as
  the read index is not 0, as in every buffer nothing was prepended to.\<close>

theorem search_ranges:
  assumes "Buffer_inv b"
  shows "findEOF b = Inr (if 10 \<in> set (content b)
           then Some (peek b + word_of_nat (length (takeWhile (\<lambda>x. x \<noteq> 10) (content b)))) else None) \<and>
    (m_readIndex b \<noteq> 0 \<longrightarrow>
      findCRLF b = Inl Undefined_Behaviour \<and> findString b target = Inl Undefined_Behaviour)"
proof -
  have "findEOF b = Inr (if 10 \<in> set (content b)
           then Some (peek b + word_of_nat (length (takeWhile (\<lambda>x. x \<noteq> 10) (content b)))) else None)"
    using assms by (simp add: findEOF_front peek_def)
  then show ?thesis by (simp add: findCRLF_def findString_def std_search_to_begin)
qed

theorem search_ranges_witness:
  "findCRLF \<lparr>m_buffer = [0, 0, 0, 0, 0, 0, 0, 0, 13, 10], m_readIndex = 8, m_writeIndex = 10\<rparr>
    = Inl Undefined_Behaviour"
  using search_ranges
    [of "\<lparr>m_buffer = [0, 0, 0, 0, 0, 0, 0, 0, 13, 10], m_readIndex = 8, m_writeIndex = 10\<rparr>"]
  by (simp add: Buffer_inv_def)

end
