(* ===== verification/BufferQueues.thy ===== *)
theory BufferQueues
  imports ByteBuffer
begin

text \<open>
  An abstract specification of the byte buffer of \<open>src/Net/Buffer.h\<close>: the bytes that can be read, the
  room before them and the size of the vector. What each operation answers and leaves depends on
  nothing else, and the buffer implements the queue for every sequence of operations.
\<close>

section \<open>The abstract queue\<close>

record byte_queue =
  q_front :: nat
  q_bytes :: "byte list"
  q_size :: nat

definition q_end :: "byte_queue \<Rightarrow> nat" where
  "q_end q = q_front q + length (q_bytes q)"

definition q_room :: "byte_queue \<Rightarrow> nat" where
  "q_room q = q_size q - q_end q"

definition queue_new :: "nat \<Rightarrow> byte_queue" where
  "queue_new n = \<lparr>q_front = 8, q_bytes = [], q_size = 8 + n\<rparr>"

definition q_clear :: "byte_queue \<Rightarrow> byte_queue" where
  "q_clear q = q\<lparr>q_front := 8, q_bytes := []\<rparr>"

definition q_grow :: "nat \<Rightarrow> byte_queue \<Rightarrow> byte_queue" where
  "q_grow n q = q\<lparr>q_size := max (q_size q) (q_end q + n)\<rparr>"

definition q_put :: "byte list \<Rightarrow> byte_queue \<Rightarrow> byte_queue" where
  "q_put d q = (q_grow (length d) q)\<lparr>q_bytes := q_bytes q @ d\<rparr>"

datatype buffer_op = Do_append "byte list" | Do_prepend "byte list" | Do_retrieve size_t | Do_retrieveAll
  | Do_retrieveAsString size_t | Do_ensureWritable size_t | Do_readFd "byte list"

datatype buffer_out = Out_unit | Out_bool bool | Out_bytes "byte list" | Out_int int

text \<open>What the operations do to the queue: an append that does not fill the room is lost, and bytes are
  consumed only all together.\<close>

fun queue_step :: "buffer_op \<Rightarrow> byte_queue \<Rightarrow> cxx_error + (buffer_out \<times> byte_queue)" where
  "queue_step (Do_append d) q = Inr (Out_unit, if length d < q_room q then q else q_put d q)"
| "queue_step (Do_prepend d) q =
     Inr (if length d \<le> q_front q then (Out_bool True, q\<lparr>q_front := q_front q - length d, q_bytes := d @ q_bytes q\<rparr>)
          else (Out_bool False, q))"
| "queue_step (Do_retrieve n) q = Inr (if unat n < length (q_bytes q) then (Out_bool False, q) else (Out_bool True, q_clear q))"
| "queue_step Do_retrieveAll q = Inr (Out_unit, q_clear q)"
| "queue_step (Do_retrieveAsString n) q =
     Inr (if length (q_bytes q) < unat n then (Out_bytes [], q)
          else (Out_bytes (take (unat n) (q_bytes q)), if unat n < length (q_bytes q) then q else q_clear q))"
| "queue_step (Do_ensureWritable n) q = Inr (Out_unit, q_grow (unat n) q)"
| "queue_step (Do_readFd bs) q =
     (if (if q_room q < extrabuf_size then q_room q + extrabuf_size else q_room q) < length bs then Inl Undefined_Behaviour
      else if bs = [] then Inr (Out_int 0, q)
      else Inr (Out_int (sint (word_of_nat (length bs) :: u32)), q_put bs q))"

text \<open>The same operations of the buffer.\<close>

fun buffer_step :: "buffer_op \<Rightarrow> Buffer \<Rightarrow> cxx_error + (buffer_out \<times> Buffer)" where
  "buffer_step (Do_append d) b = bind_r (append_string b d) (\<lambda>b'. Inr (Out_unit, b'))"
| "buffer_step (Do_prepend d) b = bind_r (prepend b d (vec_size d)) (\<lambda>(ok, b'). Inr (Out_bool ok, b'))"
| "buffer_step (Do_retrieve n) b = (let (ok, b') = retrieve b n in Inr (Out_bool ok, b'))"
| "buffer_step Do_retrieveAll b = Inr (Out_unit, retrieveAll b)"
| "buffer_step (Do_retrieveAsString n) b = bind_r (retrieveAsString b n) (\<lambda>(s, b'). Inr (Out_bytes s, b'))"
| "buffer_step (Do_ensureWritable n) b = bind_r (ensureWritableBytes b n) (\<lambda>b'. Inr (Out_unit, b'))"
| "buffer_step (Do_readFd bs) b = bind_r (readFd b \<lparr>rv_data = Some bs, rv_errno = 0\<rparr>) (\<lambda>(n, _, b'). Inr (Out_int n, b'))"

text \<open>A sequence of operations with what they answered, for either machine.\<close>

primrec run_ops :: "('x \<Rightarrow> 's \<Rightarrow> cxx_error + ('y \<times> 's)) \<Rightarrow> 'x list \<Rightarrow> 's \<Rightarrow> cxx_error + ('y list \<times> 's)" where
  "run_ops f [] s = Inr ([], s)"
| "run_ops f (x # xs) s = bind_r (f x s) (\<lambda>(y, s1). bind_r (run_ops f xs s1) (\<lambda>(ys, s2). Inr (y # ys, s2)))"

text \<open>The memory an operation may ask for.\<close>

fun op_size :: "buffer_op \<Rightarrow> nat" where
  "op_size (Do_append d) = length d"
| "op_size (Do_prepend d) = length d"
| "op_size (Do_ensureWritable n) = unat n"
| "op_size (Do_readFd bs) = length bs"
| "op_size _ = 0"

section \<open>The abstraction\<close>

definition queue_of :: "Buffer \<Rightarrow> byte_queue" where
  "queue_of b = \<lparr>q_front = unat (m_readIndex b), q_bytes = content b, q_size = length (m_buffer b)\<rparr>"

lemma queue_of_simps [simp]:
  "q_front (queue_of b) = unat (m_readIndex b)" "q_bytes (queue_of b) = content b" "q_size (queue_of b) = length (m_buffer b)"
  by (simp_all add: queue_of_def)

lemma q_end_of: "Buffer_inv b \<Longrightarrow> q_end (queue_of b) = unat (m_writeIndex b)"
  by (simp add: q_end_def length_content unat_readable) (simp add: Buffer_inv_def)

lemma q_room_of: "Buffer_inv b \<Longrightarrow> q_room (queue_of b) = unat (writableBytes b)"
  by (simp add: q_room_def q_end_of unat_writable)

lemma queue_of_eqI:
  "unat (m_readIndex b) = q_front q \<Longrightarrow> content b = q_bytes q \<Longrightarrow> length (m_buffer b) = q_size q \<Longrightarrow> queue_of b = q"
  by (simp add: queue_of_def)

text \<open>Appending and filling leave the read index alone.\<close>

lemma append_readIndex:
  assumes "Buffer_front b" and "unat len < 2 ^ 63" and "unat (m_writeIndex b) + unat len < 2 ^ 63"
    and "append_mem b data len = Inr b'"
  shows "m_readIndex b' = m_readIndex b"
  using assms(4) ensureWritable_front [OF assms(1-3)]
  by (auto simp: append_mem_def write_range_def hasWritten_def bind_r_eq_Inr split: if_splits)

lemma append_queue:
  assumes front: "Buffer_front b" and fits: "length (m_buffer b) + length d < 2 ^ 63"
  shows "\<exists>b'. append_string b d = Inr b' \<and> Buffer_front b' \<and>
    queue_of b' = (if length d < q_room (queue_of b) then queue_of b else q_put d (queue_of b))"
proof -
  have inv: "Buffer_inv b" using front by (rule Buffer_frontD)
  have len: "length d = unat (vec_size d)" using fits by (simp add: unat_vec_size)
  have w: "unat (m_writeIndex b) + unat (vec_size d) < 2 ^ 63" and l63: "unat (vec_size d) < 2 ^ 63"
    using inv fits len by (auto simp: Buffer_inv_def)
  obtain b' where b': "append_mem b d (vec_size d) = Inr b'" "Buffer_front b'"
      "content b' = (if unat (vec_size d) < unat (writableBytes b) then content b else content b @ d)"
      "length (m_buffer b') = max (length (m_buffer b)) (unat (m_writeIndex b) + unat (vec_size d))"
    using append_front [OF front len w] by blast
  have "m_readIndex b' = m_readIndex b" by (rule append_readIndex [OF front l63 w b'(1)])
  moreover have "unat (writableBytes b) = length (m_buffer b) - unat (m_writeIndex b)" by (rule unat_writable [OF inv])
  ultimately have "queue_of b' = (if length d < q_room (queue_of b) then queue_of b else q_put d (queue_of b))"
    using b'(3,4) inv len by (intro queue_of_eqI) (auto simp: q_room_of q_put_def q_grow_def q_end_of)
  then show ?thesis using b'(1,2) by (auto simp: append_string_def)
qed

lemma readFd_queue:
  assumes front: "Buffer_front b" and ne: "bs \<noteq> []" and cap: "length bs \<le> readv_capacity b"
    and fits: "length (m_buffer b) + length bs < 2 ^ 63"
  shows "\<exists>b'. readFd b \<lparr>rv_data = Some bs, rv_errno = 0\<rparr> = Inr (sint (word_of_nat (length bs) :: u32), None, b') \<and>
    Buffer_front b' \<and> queue_of b' = q_put bs (queue_of b)"
proof -
  let ?rv = "\<lparr>rv_data = Some bs, rv_errno = 0\<rparr>"
  have inv: "Buffer_inv b" using front by (rule Buffer_frontD)
  let ?W = "unat (writableBytes b)"
  have wW: "unat (m_writeIndex b) + ?W = length (m_buffer b)" using inv by (simp add: unat_writable Buffer_inv_def)
  obtain b' where b': "readFd b ?rv = Inr (sint (word_of_nat (length bs) :: u32), None, b')" "Buffer_front b'"
      "content b' = content b @ bs"
    using readFd_front [OF front _ ne cap fits, of ?rv] by auto
  have idx: "m_readIndex b' = m_readIndex b \<and> length (m_buffer b') = max (length (m_buffer b)) (unat (m_writeIndex b) + length bs)"
  proof (cases "length bs \<le> ?W")
    case True
    have "unat (m_writeIndex b) + length bs \<le> length (m_buffer b)" using True wW by simp
    then show ?thesis using b'(1) True cap ne by (auto simp: readFd_def Let_def write_range_def split: if_splits)
  next
    case False
    let ?b2 = "(store_bytes b (take ?W bs))\<lparr>m_writeIndex := vec_size (m_buffer (store_bytes b (take ?W bs)))\<rparr>"
    let ?len = "word_of_nat (length bs) - writableBytes b"
    have lW: "length (take ?W bs) = ?W" using False by simp
    have room: "unat (m_writeIndex b) + length (take ?W bs) \<le> length (m_buffer b)" using wW lW by simp
    have len: "unat ?len = length bs - ?W" using False fits by (simp add: size_simps word_le_nat_alt unat_of_nat_small)
    have size: "length (m_buffer ?b2) = length (m_buffer b)" using room by (simp add: store_bytes_def)
    have front2: "Buffer_front ?b2"
      using commit_bytes_front(1) [OF front room] commit_to_end [OF inv lW] by simp
    have end2: "unat (m_writeIndex ?b2) = length (m_buffer b)"
      using size inv by (simp add: unat_vec_size Buffer_inv_def)
    have l63: "unat ?len < 2 ^ 63" and w: "unat (m_writeIndex ?b2) + unat ?len < 2 ^ 63"
      unfolding len end2 using fits by simp_all
    have app: "append_mem ?b2 (drop ?W bs) ?len = Inr b'"
      using b'(1) False cap ne by (auto simp: readFd_def Let_def write_range_store [OF room] bind_r_eq_Inr)
    have ld: "length (drop ?W bs) = unat ?len" using len by simp
    obtain b'' where b'': "append_mem ?b2 (drop ?W bs) ?len = Inr b''"
        "length (m_buffer b'') = max (length (m_buffer ?b2)) (unat (m_writeIndex ?b2) + unat ?len)"
      using append_front [OF front2 ld w] by blast
    have "m_readIndex b' = m_readIndex ?b2" by (rule append_readIndex [OF front2 l63 w app])
    moreover have "b'' = b'" using b''(1) app by simp
    ultimately show ?thesis using b''(2) size end2 len wW False by (simp add: store_bytes_def)
  qed
  then have "queue_of b' = q_put bs (queue_of b)"
    using b'(3) inv by (intro queue_of_eqI) (simp_all add: q_put_def q_grow_def q_end_of)
  then show ?thesis using b'(1,2) by blast
qed

lemma prepend_queue:
  assumes front: "Buffer_front b" and small: "length d < 2 ^ 64"
  shows "\<exists>b'. prepend b d (vec_size d) = Inr (length d \<le> unat (m_readIndex b), b') \<and> Buffer_front b' \<and>
    queue_of b' = (if length d \<le> unat (m_readIndex b)
      then (queue_of b)\<lparr>q_front := unat (m_readIndex b) - length d, q_bytes := d @ content b\<rparr> else queue_of b)"
proof -
  have len: "length d = unat (vec_size d)" using small by (simp add: unat_vec_size)
  obtain b' where b': "prepend b d (vec_size d) = Inr (unat (vec_size d) \<le> unat (m_readIndex b), b')" "Buffer_front b'"
      "content b' = (if unat (vec_size d) \<le> unat (m_readIndex b) then d @ content b else content b)"
    using prepend_front [OF front len] by blast
  have "unat (m_readIndex b') = (if length d \<le> unat (m_readIndex b) then unat (m_readIndex b) - length d else unat (m_readIndex b)) \<and>
      length (m_buffer b') = length (m_buffer b)"
  proof (cases "length d \<le> unat (m_readIndex b)")
    case True
    then have r: "unat (m_readIndex b - vec_size d) = unat (m_readIndex b) - length d"
      using len by (simp add: unat_sub word_le_nat_alt)
    let ?v = "splice_at (unat (m_readIndex b) - length d) d (m_buffer b)"
    have "unat (m_readIndex b) \<le> length (m_buffer b)" using front by (auto simp: Buffer_front_def Buffer_inv_def)
    then have "b' = b\<lparr>m_readIndex := m_readIndex b - vec_size d, m_buffer := ?v\<rparr>" and "length ?v = length (m_buffer b)"
      using True b'(1) len r by (simp_all add: prepend_def prependableBytes_def write_range_def word_less_nat_alt Let_def)
    then show ?thesis using True r by simp
  next
    case False
    then show ?thesis using b'(1) len by (simp add: prepend_def prependableBytes_def word_less_nat_alt)
  qed
  then show ?thesis using b' len by (auto intro!: exI [of _ b'] queue_of_eqI)
qed

lemma retrieveAll_queue: "Buffer_inv b \<Longrightarrow> queue_of (retrieveAll b) = q_clear (queue_of b)"
  by (intro queue_of_eqI) (simp_all add: q_clear_def retrieveAll_def Prepend_def content_def)

lemma buffer_step_queue:
  assumes front: "Buffer_front b" and fits: "length (m_buffer b) + op_size x < 2 ^ 63"
  shows "case queue_step x (queue_of b) of
      Inl e \<Rightarrow> buffer_step x b = Inl e
    | Inr (y, q) \<Rightarrow> \<exists>b'. buffer_step x b = Inr (y, b') \<and> Buffer_front b' \<and> queue_of b' = q \<and>
        length (m_buffer b') \<le> length (m_buffer b) + op_size x"
proof -
  have inv: "Buffer_inv b" using front by (rule Buffer_frontD)
  have w: "unat (m_writeIndex b) \<le> length (m_buffer b)" using inv by (simp add: Buffer_inv_def)
  have size: "length (m_buffer b') = q_size q" if "queue_of b' = q" for b' q using that by auto
  show ?thesis
  proof (cases x)
    case (Do_append d)
    then obtain b' where b': "append_string b d = Inr b'" "Buffer_front b'"
        "queue_of b' = (if length d < q_room (queue_of b) then queue_of b else q_put d (queue_of b))"
      using append_queue [OF front, of d] fits by auto
    show ?thesis using Do_append b' size [OF b'(3)] w inv by (auto simp: q_put_def q_grow_def q_end_of split: if_splits)
  next
    case (Do_prepend d)
    then obtain b' where b': "prepend b d (vec_size d) = Inr (length d \<le> unat (m_readIndex b), b')" "Buffer_front b'"
        "queue_of b' = (if length d \<le> unat (m_readIndex b)
          then (queue_of b)\<lparr>q_front := unat (m_readIndex b) - length d, q_bytes := d @ content b\<rparr> else queue_of b)"
      using prepend_queue [OF front, of d] fits by auto
    show ?thesis using Do_prepend b' size [OF b'(3)] by (auto split: if_splits)
  next
    case (Do_retrieve n)
    then show ?thesis using front retrieveAll_front [OF inv] retrieveAll_queue [OF inv]
      by (auto simp: retrieve_cases length_content [OF inv] word_less_nat_alt retrieveAll_def)
  next
    case Do_retrieveAll
    then show ?thesis using retrieveAll_front [OF inv] retrieveAll_queue [OF inv] by (simp add: retrieveAll_def)
  next
    case (Do_retrieveAsString n)
    then show ?thesis using front retrieveAll_front [OF inv] retrieveAll_queue [OF inv]
      by (auto simp: retrieveAsString_eq [OF inv] retrieve_cases length_content [OF inv] word_less_nat_alt retrieveAll_def)
  next
    case (Do_ensureWritable n)
    let ?b = "b\<lparr>m_buffer := m_buffer b @ replicate (unat (m_writeIndex b) + unat n - length (m_buffer b)) 0\<rparr>"
    have f: "unat (m_writeIndex b) + unat n < 2 ^ 63" "unat n < 2 ^ 63" using fits w Do_ensureWritable by auto
    have "ensureWritableBytes b n = Inr ?b" by (rule ensureWritable_front [OF front f(2,1)])
    moreover have "queue_of ?b = q_grow (unat n) (queue_of b)"
      using grown_front(2) [OF front f(1)] inv by (intro queue_of_eqI) (auto simp: q_grow_def q_end_of)
    ultimately show ?thesis using Do_ensureWritable grown_front(1) [OF front f(1)] w by auto
  next
    case (Do_readFd bs)
    have cap: "readv_capacity b = (if q_room (queue_of b) < extrabuf_size then q_room (queue_of b) + extrabuf_size else q_room (queue_of b))"
      by (simp add: readv_capacity_def q_room_of [OF inv])
    consider "readv_capacity b < length bs" | "bs = []" | "bs \<noteq> []" "length bs \<le> readv_capacity b" by linarith
    then show ?thesis
    proof cases
      case 3
      then obtain b' where b': "readFd b \<lparr>rv_data = Some bs, rv_errno = 0\<rparr> = Inr (sint (word_of_nat (length bs) :: u32), None, b')"
          "Buffer_front b'" "queue_of b' = q_put bs (queue_of b)"
        using readFd_queue [OF front] fits Do_readFd by auto
      show ?thesis using 3 Do_readFd b' size [OF b'(3)] w inv by (auto simp: cap [symmetric] q_put_def q_grow_def q_end_of)
    qed (use Do_readFd front in \<open>auto simp: cap [symmetric] readFd_def\<close>)
  qed
qed

lemma buffer_run_queue:
  assumes "Buffer_front b" and "length (m_buffer b) + sum_list (map op_size xs) < 2 ^ 63"
  shows "case run_ops queue_step xs (queue_of b) of
      Inl e \<Rightarrow> run_ops buffer_step xs b = Inl e
    | Inr (ys, q) \<Rightarrow> \<exists>b'. run_ops buffer_step xs b = Inr (ys, b') \<and> queue_of b' = q"
  using assms
proof (induction xs arbitrary: b)
  case (Cons x xs)
  have step: "case queue_step x (queue_of b) of
      Inl e \<Rightarrow> buffer_step x b = Inl e
    | Inr (y, q) \<Rightarrow> \<exists>b'. buffer_step x b = Inr (y, b') \<and> Buffer_front b' \<and> queue_of b' = q \<and>
        length (m_buffer b') \<le> length (m_buffer b) + op_size x"
    using buffer_step_queue [OF Cons.prems(1), of x] Cons.prems(2) by simp
  show ?case
  proof (cases "queue_step x (queue_of b)")
    case (Inl e)
    then show ?thesis using step by simp
  next
    case (Inr r)
    obtain y q where r: "r = (y, q)" by (cases r)
    obtain b' where b': "buffer_step x b = Inr (y, b')" "Buffer_front b'" "queue_of b' = q"
        "length (m_buffer b') \<le> length (m_buffer b) + op_size x"
      using step Inr r by auto
    have "length (m_buffer b') + sum_list (map op_size xs) < 2 ^ 63" using b'(4) Cons.prems(2) by simp
    from Cons.IH [OF b'(2) this] show ?thesis
      using Inr r b'(1,3) by (auto split: sum.splits prod.splits)
  qed
qed simp

section \<open>Properties\<close>

text \<open>C11. The buffer implements the queue. For every sequence of appends, prepends, retrievals, reservations and
  reads from a descriptor on a new buffer, the answers are those of the abstract queue, the
  buffer fails exactly when the queue does, and at the end it holds what the queue holds, as long as the
  memory asked for stays below the largest size of a vector.\<close>

theorem buffer_refines_queue:
  assumes "Buffer_new n = Inr b" and "unat n + 8 + sum_list (map op_size xs) < 2 ^ 63"
  shows "case run_ops queue_step xs (queue_new (unat n)) of
      Inl e \<Rightarrow> run_ops buffer_step xs b = Inl e
    | Inr (ys, q) \<Rightarrow> \<exists>b'. run_ops buffer_step xs b = Inr (ys, b') \<and> queue_of b' = q"
proof -
  have n: "unat n + 8 < 2 ^ 63" using assms(2) by simp
  note new = Buffer_new_front [OF n assms(1)]
  have b: "b = \<lparr>m_buffer = replicate (8 + unat n) 0, m_readIndex = 8, m_writeIndex = 8\<rparr>"
    using assms(1) n by (simp add: Buffer_new_ok)
  have "queue_of b = queue_new (unat n)" by (simp add: queue_of_def queue_new_def new(2)) (simp add: b)
  moreover have "length (m_buffer b) + sum_list (map op_size xs) < 2 ^ 63" using assms(2) b by simp
  ultimately show ?thesis using buffer_run_queue [OF new(1), of xs] by simp
qed

theorem buffer_refines_queue_witness:
  "\<exists>b b'. Buffer_new 4 = Inr b \<and>
    run_ops buffer_step [Do_readFd [1, 2], Do_append [3], Do_append [4, 5], Do_prepend [9], Do_retrieveAsString 2, Do_retrieve 1, Do_retrieve 5] b =
      Inr ([Out_int 2, Out_unit, Out_unit, Out_bool True, Out_bytes [9, 1], Out_bool False, Out_bool True], b') \<and>
    q_bytes (queue_of b') = []"
proof -
  let ?xs = "[Do_readFd [1, 2], Do_append [3], Do_append [4, 5], Do_prepend [9], Do_retrieveAsString 2, Do_retrieve 1, Do_retrieve 5]"
  obtain b where b: "Buffer_new 4 = Inr b" by (simp add: Buffer_new_ok)
  have "unat (4 :: size_t) + 8 + sum_list (map op_size ?xs) < 2 ^ 63" by simp
  moreover have "run_ops queue_step ?xs (queue_new (unat (4 :: size_t))) =
      Inr ([Out_int 2, Out_unit, Out_unit, Out_bool True, Out_bytes [9, 1], Out_bool False, Out_bool True], \<lparr>q_front = 8, q_bytes = [], q_size = 12\<rparr>)"
    by (simp add: queue_new_def q_room_def q_end_def q_put_def q_grow_def q_clear_def extrabuf_size_def)
  ultimately obtain b' where r: "run_ops buffer_step ?xs b =
      Inr ([Out_int 2, Out_unit, Out_unit, Out_bool True, Out_bytes [9, 1], Out_bool False, Out_bool True], b')"
    and q: "queue_of b' = \<lparr>q_front = 8, q_bytes = [], q_size = 12\<rparr>"
    using buffer_refines_queue [OF b] by fastforce
  have "q_bytes (queue_of b') = []" unfolding q by simp
  with r b show ?thesis by blast
qed

end
