(* ===== verification/Timestamps.thy ===== *)
theory Timestamps
  imports CLib "HOL-Library.Signed_Division"
begin

text \<open>
  \<open>src/time/TimeStamp.h\<close> and \<open>src/time/TimeStamp.cpp\<close>: a point in time as a signed 64-bit number of
  microseconds. Signed overflow is undefined in C++, so the arithmetic operators are fallible;
  the comparisons of the code make timestamps a linear order.
\<close>

section \<open>Signed 64-bit arithmetic\<close>

definition int64_ok :: "int \<Rightarrow> bool" where
  "int64_ok i \<longleftrightarrow> - (2 ^ 63) \<le> i \<and> i < 2 ^ 63"

definition int64_result :: "int \<Rightarrow> cxx_error + int" where
  "int64_result i = (if int64_ok i then Inr i else Inl Undefined_Behaviour)"

lemma int64_result_Inr [simp]: "int64_result i = Inr j \<longleftrightarrow> int64_ok i \<and> j = i"
  by (auto simp: int64_result_def)

lemma int64_result_ok: "int64_ok i \<Longrightarrow> int64_result i = Inr i"
  by simp

section \<open>The class\<close>

datatype Timestamp = Timestamp (m_microSecondsSinceEpoch: int)

definition MicroSecondsPerSecond :: int where
  "MicroSecondsPerSecond = 1000000"

definition Timestamp_default :: Timestamp where
  "Timestamp_default = Timestamp 0"

definition Timestamp_invalid :: Timestamp where
  "Timestamp_invalid = Timestamp_default"

definition GetMicroSecondValue :: "Timestamp \<Rightarrow> int" where
  "GetMicroSecondValue t = m_microSecondsSinceEpoch t"

definition GetSecondValue :: "Timestamp \<Rightarrow> int" where
  "GetSecondValue t = m_microSecondsSinceEpoch t sdiv MicroSecondsPerSecond"

definition vaild :: "Timestamp \<Rightarrow> bool" where
  "vaild t \<longleftrightarrow> m_microSecondsSinceEpoch t > 0"

definition Timestamp_plus_assign :: "Timestamp \<Rightarrow> Timestamp \<Rightarrow> cxx_error + Timestamp" where
  "Timestamp_plus_assign t lhs =
     bind_r (int64_result (m_microSecondsSinceEpoch t + m_microSecondsSinceEpoch lhs)) (\<lambda>v. Inr (Timestamp v))"

definition Timestamp_plus_assign_int :: "Timestamp \<Rightarrow> int \<Rightarrow> cxx_error + Timestamp" where
  "Timestamp_plus_assign_int t lhs =
     bind_r (int64_result (m_microSecondsSinceEpoch t + lhs)) (\<lambda>v. Inr (Timestamp v))"

definition Timestamp_minus_assign :: "Timestamp \<Rightarrow> Timestamp \<Rightarrow> cxx_error + Timestamp" where
  "Timestamp_minus_assign t lhs =
     bind_r (int64_result (m_microSecondsSinceEpoch t - m_microSecondsSinceEpoch lhs)) (\<lambda>v. Inr (Timestamp v))"

definition Timestamp_minus_assign_int :: "Timestamp \<Rightarrow> int \<Rightarrow> cxx_error + Timestamp" where
  "Timestamp_minus_assign_int t lhs =
     bind_r (int64_result (m_microSecondsSinceEpoch t - lhs)) (\<lambda>v. Inr (Timestamp v))"

definition Timestamp_swap :: "Timestamp \<Rightarrow> Timestamp \<Rightarrow> Timestamp \<times> Timestamp" where
  "Timestamp_swap a b = (Timestamp (m_microSecondsSinceEpoch b), Timestamp (m_microSecondsSinceEpoch a))"

definition timeAdd_int :: "Timestamp \<Rightarrow> int \<Rightarrow> cxx_error + Timestamp" where
  "timeAdd_int timestamp v =
     bind_r (int64_result (GetMicroSecondValue timestamp + v)) (\<lambda>r. Inr (Timestamp r))"

definition timeAdd :: "Timestamp \<Rightarrow> Timestamp \<Rightarrow> cxx_error + Timestamp" where
  "timeAdd timestamp1 timestamp2 =
     bind_r (int64_result (GetMicroSecondValue timestamp1 + GetMicroSecondValue timestamp2)) (\<lambda>r. Inr (Timestamp r))"

text \<open>The integer that \<open>timeDiff\<close> converts to \<open>double\<close> and divides by a million.\<close>

definition timeDiff_num :: "Timestamp \<Rightarrow> Timestamp \<Rightarrow> cxx_error + int" where
  "timeDiff_num big little = int64_result (GetMicroSecondValue big - GetMicroSecondValue little)"

text \<open>\<open>ToString\<close> prints \<open>"%lld.%06lld"\<close> into a buffer of which it offers 63 bytes.\<close>

definition Timestamp_ToString :: "Timestamp \<Rightarrow> string" where
  "Timestamp_ToString t =
     (let seconds = m_microSecondsSinceEpoch t sdiv MicroSecondsPerSecond;
          microseconds = m_microSecondsSinceEpoch t smod MicroSecondsPerSecond
      in snprintf_buf 63 (show_int seconds @ ''.'' @ show_int_pad 6 microseconds))"

section \<open>The order\<close>

text \<open>The six comparison operators of the header.\<close>

definition Timestamp_less :: "Timestamp \<Rightarrow> Timestamp \<Rightarrow> bool" where
  "Timestamp_less lhs rhs \<longleftrightarrow> GetMicroSecondValue lhs < GetMicroSecondValue rhs"

definition Timestamp_greater :: "Timestamp \<Rightarrow> Timestamp \<Rightarrow> bool" where
  "Timestamp_greater lhs rhs \<longleftrightarrow> GetMicroSecondValue lhs > GetMicroSecondValue rhs"

definition Timestamp_less_eq :: "Timestamp \<Rightarrow> Timestamp \<Rightarrow> bool" where
  "Timestamp_less_eq lhs rhs \<longleftrightarrow> GetMicroSecondValue lhs \<le> GetMicroSecondValue rhs"

definition Timestamp_greater_eq :: "Timestamp \<Rightarrow> Timestamp \<Rightarrow> bool" where
  "Timestamp_greater_eq lhs rhs \<longleftrightarrow> GetMicroSecondValue lhs \<ge> GetMicroSecondValue rhs"

definition Timestamp_equal :: "Timestamp \<Rightarrow> Timestamp \<Rightarrow> bool" where
  "Timestamp_equal lhs rhs \<longleftrightarrow> GetMicroSecondValue lhs = GetMicroSecondValue rhs"

definition Timestamp_unequal :: "Timestamp \<Rightarrow> Timestamp \<Rightarrow> bool" where
  "Timestamp_unequal lhs rhs \<longleftrightarrow> GetMicroSecondValue lhs \<noteq> GetMicroSecondValue rhs"

instantiation Timestamp :: linorder
begin

definition less_eq_Timestamp :: "Timestamp \<Rightarrow> Timestamp \<Rightarrow> bool" where
  "less_eq_Timestamp a b \<longleftrightarrow> Timestamp_less_eq a b"

definition less_Timestamp :: "Timestamp \<Rightarrow> Timestamp \<Rightarrow> bool" where
  "less_Timestamp a b \<longleftrightarrow> Timestamp_less a b"

instance
  by standard
    (auto simp: less_eq_Timestamp_def less_Timestamp_def Timestamp_less_eq_def Timestamp_less_def
      GetMicroSecondValue_def Timestamp.expand)

end

lemma Timestamp_le [simp]: "Timestamp a \<le> Timestamp b \<longleftrightarrow> a \<le> b"
  by (simp add: less_eq_Timestamp_def Timestamp_less_eq_def GetMicroSecondValue_def)

lemma Timestamp_lt [simp]: "Timestamp a < Timestamp b \<longleftrightarrow> a < b"
  by (simp add: less_Timestamp_def Timestamp_less_def GetMicroSecondValue_def)

lemma Timestamp_equal_iff: "Timestamp_equal a b \<longleftrightarrow> a = b"
  by (cases a; cases b) (simp add: Timestamp_equal_def GetMicroSecondValue_def)

lemma plus_assign_int_Inr [simp]:
  "Timestamp_plus_assign_int t d = Inr t' \<longleftrightarrow>
     int64_ok (m_microSecondsSinceEpoch t + d) \<and> t' = Timestamp (m_microSecondsSinceEpoch t + d)"
  by (auto simp: Timestamp_plus_assign_int_def bind_r_eq_Inr)

section \<open>Printing\<close>

lemma length_show_int: "int64_ok i \<Longrightarrow> length (show_int i) \<le> 20"
proof -
  assume ok: "int64_ok i"
  have "length (show_nat (nat \<bar>i\<bar>)) \<le> Suc 18"
    unfolding length_show_nat_le using ok by (auto simp: int64_ok_def)
  then show ?thesis by (cases "i < 0") (simp_all add: show_int_def)
qed

lemma smod_million: "\<bar>i smod MicroSecondsPerSecond\<bar> < MicroSecondsPerSecond"
  using smod_int_range [of MicroSecondsPerSecond i] by (auto simp: MicroSecondsPerSecond_def)

lemma length_show_micro: "\<bar>j\<bar> < 1000000 \<Longrightarrow> length (show_int_pad 6 j) \<le> 7"
proof -
  assume "\<bar>j\<bar> < 1000000"
  then have "length (show_nat (nat \<bar>j\<bar>)) \<le> Suc 5"
    unfolding length_show_nat_le by simp
  then show ?thesis by (auto simp: show_int_pad_def pad_zero_def)
qed

text \<open>The buffer is always large enough.\<close>

lemma ToString_untruncated:
  assumes "int64_ok (m_microSecondsSinceEpoch t)"
  shows "Timestamp_ToString t =
    show_int (m_microSecondsSinceEpoch t sdiv MicroSecondsPerSecond) @ ''.'' @
    show_int_pad 6 (m_microSecondsSinceEpoch t smod MicroSecondsPerSecond)"
proof -
  let ?i = "m_microSecondsSinceEpoch t"
  have "\<bar>?i\<bar> div 1000000 \<le> 2 ^ 63 div 1000000"
    using assms by (intro zdiv_mono1) (auto simp: int64_ok_def)
  then have "\<bar>?i sdiv MicroSecondsPerSecond\<bar> \<le> 2 ^ 63 div 1000000"
    by (auto simp: signed_divide_int_def MicroSecondsPerSecond_def abs_mult)
  then have "int64_ok (?i sdiv MicroSecondsPerSecond)"
    by (auto simp: int64_ok_def)
  then have "length (show_int (?i sdiv MicroSecondsPerSecond)) \<le> 20"
    by (rule length_show_int)
  moreover have "length (show_int_pad 6 (?i smod MicroSecondsPerSecond)) \<le> 7"
    using smod_million [of ?i] by (intro length_show_micro) (simp add: MicroSecondsPerSecond_def)
  ultimately show ?thesis
    by (simp add: Timestamp_ToString_def Let_def snprintf_buf_fits)
qed

definition parse_timestamp :: "string \<Rightarrow> int" where
  "parse_timestamp s =
     int (read_nat (takeWhile (\<lambda>c. c \<noteq> CHR ''.'') s)) * 1000000 +
     int (read_nat (drop 1 (dropWhile (\<lambda>c. c \<noteq> CHR ''.'') s)))"

lemma no_dot_show_nat: "takeWhile (\<lambda>c. c \<noteq> CHR ''.'') (show_nat n @ CHR ''.'' # s) = show_nat n"
    "dropWhile (\<lambda>c. c \<noteq> CHR ''.'') (show_nat n @ CHR ''.'' # s) = CHR ''.'' # s"
proof -
  have "\<forall>c \<in> set (show_nat n). c \<noteq> CHR ''.''"
    using show_nat_digits [of n] by (auto simp: list_all_iff)
  then show "takeWhile (\<lambda>c. c \<noteq> CHR ''.'') (show_nat n @ CHR ''.'' # s) = show_nat n"
    "dropWhile (\<lambda>c. c \<noteq> CHR ''.'') (show_nat n @ CHR ''.'' # s) = CHR ''.'' # s"
    by (simp_all add: takeWhile_append2 dropWhile_append2)
qed

section \<open>Properties\<close>

text \<open>A time since the epoch printed by \<open>ToString\<close> is never cut by the 64-byte buffer, is read
  back exactly from the text, and has exactly six digits after the point.\<close>

theorem Timestamp_ToString_roundtrip:
  assumes "0 \<le> us" and "us < 2 ^ 63"
  shows "parse_timestamp (Timestamp_ToString (Timestamp us)) = us \<and>
    length (dropWhile (\<lambda>c. c \<noteq> CHR ''.'') (Timestamp_ToString (Timestamp us))) = 7"
proof -
  have "length (show_nat (nat (us mod 1000000))) \<le> Suc 5"
    unfolding length_show_nat_le by (simp add: nat_less_iff)
  moreover have "Timestamp_ToString (Timestamp us) =
      show_nat (nat (us div 1000000)) @ CHR ''.'' # pad_zero 6 (show_nat (nat (us mod 1000000)))"
  proof -
    have "us sdiv 1000000 = us div 1000000" "us smod 1000000 = us mod 1000000"
      using assms by (simp_all add: signed_divide_int_def signed_modulo_int_def
          minus_div_mult_eq_mod [symmetric] sgn_if)
    moreover have "0 \<le> us mod 1000000" by simp
    ultimately show ?thesis using assms
      by (simp add: ToString_untruncated int64_ok_def MicroSecondsPerSecond_def show_int_def
          show_int_pad_def linorder_not_less [symmetric] pos_imp_zdiv_nonneg_iff)
  qed
  ultimately show ?thesis
    using assms by (simp add: parse_timestamp_def no_dot_show_nat length_pad_zero pos_imp_zdiv_nonneg_iff)
qed

theorem Timestamp_ToString_roundtrip_witness:
  "parse_timestamp (Timestamp_ToString (Timestamp 1610553600000042)) = 1610553600000042"
  using Timestamp_ToString_roundtrip [of 1610553600000042] by simp

end
