(* ===== verification/Registry.thy ===== *)
theory Registry
  imports Prelude
begin

text \<open>
  Removing the first match from a list, as the code's search-and-erase loops do, and the contract
  of a registry: a container of things with identities to which the components add and from which
  they remove.
\<close>

section \<open>Search and erase\<close>

primrec erase_first :: "('a \<Rightarrow> bool) \<Rightarrow> 'a list \<Rightarrow> 'a list" where
  "erase_first P [] = []"
| "erase_first P (x # xs) = (if P x then xs else x # erase_first P xs)"

lemma erase_first_id: "\<forall>x \<in> set xs. \<not> P x \<Longrightarrow> erase_first P xs = xs"
  by (induction xs) auto

lemma set_erase_first_subset: "set (erase_first P xs) \<subseteq> set xs"
  by (induction xs) auto

lemma set_erase_first_key:
  "distinct (map f xs) \<Longrightarrow> set (erase_first (\<lambda>x. f x = k) xs) = {x \<in> set xs. f x \<noteq> k}"
proof (induction xs)
  case Nil
  then show ?case by simp
next
  case (Cons x xs)
  then have "f x \<notin> f ` set xs" by simp
  then have "{y \<in> set xs. f y \<noteq> f x} = set xs" by (auto simp: image_iff)
  with Cons show ?case by auto
qed

lemma distinct_erase_first:
  "distinct (map f xs) \<Longrightarrow> distinct (map f (erase_first P xs))"
proof (induction xs)
  case Nil
  then show ?case by simp
next
  case (Cons x xs)
  then show ?case using set_erase_first_subset [of P xs] by auto
qed

lemma sorted_wrt_erase_first: "sorted_wrt R xs \<Longrightarrow> sorted_wrt R (erase_first P xs)"
proof (induction xs)
  case Nil
  then show ?case by simp
next
  case (Cons x xs)
  then show ?case using set_erase_first_subset [of P xs] by auto
qed

section \<open>Registries\<close>

text \<open>\<open>add\<close> registers an item whose key is new, \<open>drop\<close> removes a key; both keep the container well
  formed and touch no other key. A client then knows, after any sequence of such calls, exactly
  which keys are registered.\<close>

datatype ('p, 'k) reg_op = Add 'p | Drop 'k

locale registry =
  fixes ok :: "'s \<Rightarrow> bool" and key :: "'p \<Rightarrow> 'k" and fresh :: "'s \<Rightarrow> 'p \<Rightarrow> bool"
    and members :: "'s \<Rightarrow> 'k set" and add :: "'p \<Rightarrow> 's \<Rightarrow> 's" and drop :: "'k \<Rightarrow> 's \<Rightarrow> 's"
  assumes ok_add: "ok s \<Longrightarrow> fresh s p \<Longrightarrow> ok (add p s)"
    and members_add: "ok s \<Longrightarrow> fresh s p \<Longrightarrow> members (add p s) = insert (key p) (members s)"
    and ok_drop: "ok s \<Longrightarrow> ok (drop k s)"
    and members_drop: "ok s \<Longrightarrow> members (drop k s) = members s - {k}"
begin

primrec run_ops :: "('p, 'k) reg_op list \<Rightarrow> 's \<Rightarrow> 's" where
  "run_ops [] s = s"
| "run_ops (x # xs) s = run_ops xs (case x of Add p \<Rightarrow> add p s | Drop k \<Rightarrow> drop k s)"

primrec legal_ops :: "('p, 'k) reg_op list \<Rightarrow> 's \<Rightarrow> bool" where
  "legal_ops [] s \<longleftrightarrow> True"
| "legal_ops (x # xs) s \<longleftrightarrow>
     (case x of Add p \<Rightarrow> fresh s p \<and> legal_ops xs (add p s) | Drop k \<Rightarrow> legal_ops xs (drop k s))"

primrec present_after :: "('p, 'k) reg_op list \<Rightarrow> 'k set \<Rightarrow> 'k set" where
  "present_after [] A = A"
| "present_after (x # xs) A =
     present_after xs (case x of Add p \<Rightarrow> insert (key p) A | Drop k \<Rightarrow> A - {k})"

lemma run_ops_members:
  "ok s \<Longrightarrow> legal_ops xs s \<Longrightarrow>
   ok (run_ops xs s) \<and> members (run_ops xs s) = present_after xs (members s)"
  by (induction xs arbitrary: s)
     (auto simp: ok_add ok_drop members_add members_drop split: reg_op.splits)

lemma drop_absent: "ok s \<Longrightarrow> k \<notin> members (drop k s)"
  by (simp add: members_drop)

end

end
