(* ===== verification/TimerQueues.thy ===== *)
theory TimerQueues
  imports Timestamps Registry "HOL-Library.Product_Lexorder"
begin

text \<open>
  \<open>src/time/KaTime.h\<close>, \<open>KaTime.cpp\<close>, \<open>TimerQueue.h\<close> and \<open>TimerQueue.cpp\<close>: timers, the queue that
  fires them, and the list of functions run on every turn of the loop. A \<open>shared_ptr<Timer>\<close> is the
  address of the timer in a store; \<open>std::set\<close> is a strictly ordered list of entries whose keys are
  the expiration at insertion time and the address. A callback is an opaque value: firing
  records it in a trace, and it does not touch the queue it is fired from.
\<close>

section \<open>Timers\<close>

record 'cb Timer =
  m_callback :: 'cb
  m_expiration :: Timestamp
  m_interval :: int
  m_repeatCount :: int
  m_sequcence :: int
  m_cancled :: bool

definition Timer_new :: "'cb \<Rightarrow> Timestamp \<Rightarrow> int \<Rightarrow> int \<Rightarrow> u64 \<Rightarrow> 'cb Timer \<times> u64" where
  "Timer_new cb when_t interval repeatCount numberCreate =
     (\<lparr>m_callback = cb, m_expiration = when_t, m_interval = interval, m_repeatCount = repeatCount,
       m_sequcence = sint (numberCreate + 1), m_cancled = False\<rparr>, numberCreate + 1)"

definition isCancled :: "'cb Timer \<Rightarrow> bool" where
  "isCancled t = m_cancled t"

definition Timer_sequence :: "'cb Timer \<Rightarrow> int" where
  "Timer_sequence t = m_sequcence t"

definition GetNumberCreated :: "u64 \<Rightarrow> int" where
  "GetNumberCreated numberCreate = sint numberCreate"

definition Timer_new_forever :: "'cb \<Rightarrow> Timestamp \<Rightarrow> int \<Rightarrow> u64 \<Rightarrow> 'cb Timer \<times> u64" where
  "Timer_new_forever cb when_t interval numberCreate =
     (\<lparr>m_callback = cb, m_expiration = when_t, m_interval = interval, m_repeatCount = -1,
       m_sequcence = sint (numberCreate + 1), m_cancled = False\<rparr>, numberCreate + 1)"

definition Control :: "'cb Timer \<Rightarrow> bool \<Rightarrow> 'cb Timer" where
  "Control t off = t\<lparr>m_cancled := off\<rparr>"

definition exprivation :: "'cb Timer \<Rightarrow> Timestamp" where
  "exprivation t = m_expiration t"

definition GetRepeatCount :: "'cb Timer \<Rightarrow> int" where
  "GetRepeatCount t = m_repeatCount t"

text \<open>The last statement of \<open>Run\<close>: move the expiration by the interval.\<close>

definition Timer_advance :: "'cb Timer \<Rightarrow> cxx_error + 'cb Timer" where
  "Timer_advance t =
     bind_r (Timestamp_plus_assign_int (m_expiration t) (m_interval t)) (\<lambda>e. Inr (t\<lparr>m_expiration := e\<rparr>))"

definition Timer_Run :: "'cb Timer \<Rightarrow> cxx_error + ('cb Timer \<times> 'cb list)" where
  "Timer_Run t =
     (if m_cancled t then Inr (t, [])
      else if m_repeatCount t \<noteq> 0 then
        bind_r (int64_result (m_repeatCount t - 1)) (\<lambda>r.
          (let t1 = t\<lparr>m_repeatCount := r\<rparr> in
           if r = 0 then Inr (t1, [m_callback t])
           else bind_r (Timer_advance t1) (\<lambda>t2. Inr (t2, [m_callback t]))))
      else bind_r (Timer_advance t) (\<lambda>t2. Inr (t2, [m_callback t])))"

section \<open>The queue\<close>

text \<open>\<open>std::set::insert\<close>: nothing happens when an equal element is there.\<close>

primrec set_insert :: "'a::linorder \<Rightarrow> 'a list \<Rightarrow> 'a list" where
  "set_insert x [] = [x]"
| "set_insert x (y # ys) =
     (if x < y then x # y # ys else if x = y then y # ys else y # set_insert x ys)"

lemma set_set_insert [simp]: "set (set_insert x xs) = insert x (set xs)"
  by (induction xs) auto

lemma sorted_set_insert: "sorted_wrt (<) xs \<Longrightarrow> sorted_wrt (<) (set_insert x xs)"
  by (induction xs) (auto simp: dest: less_trans)

lemma distinct_map_set_insert:
  "distinct (map f xs) \<Longrightarrow> f x \<notin> f ` set xs \<Longrightarrow> distinct (map f (set_insert x xs))"
  by (induction xs) auto

type_synonym entry = "Timestamp \<times> nat"

record 'cb TimerQueue =
  store :: "nat \<Rightarrow> 'cb Timer option"
  m_timers :: "entry list"
  m_numberCreate :: u64

definition TimerQueue_insert :: "'cb TimerQueue \<Rightarrow> nat \<Rightarrow> cxx_error + 'cb TimerQueue" where
  "TimerQueue_insert q timer =
     (case store q timer of
        None \<Rightarrow> Inl Undefined_Behaviour
      | Some t \<Rightarrow> Inr (q\<lparr>m_timers := set_insert (exprivation t, timer) (m_timers q)\<rparr>))"

text \<open>\<open>addTimer\<close>: \<open>addr\<close> is the address \<open>new\<close> returns.\<close>

definition addTimer :: "'cb TimerQueue \<Rightarrow> nat \<Rightarrow> 'cb \<Rightarrow> Timestamp \<Rightarrow> int \<Rightarrow> int \<Rightarrow>
    cxx_error + (nat \<times> 'cb TimerQueue)" where
  "addTimer q addr cb when_t interval repeatCount =
     (let (t, n) = Timer_new cb when_t interval repeatCount (m_numberCreate q);
          q1 = q\<lparr>store := (store q)(addr \<mapsto> t), m_numberCreate := n\<rparr>
      in bind_r (TimerQueue_insert q1 addr) (\<lambda>q2. Inr (addr, q2)))"

definition addTimer_forever :: "'cb TimerQueue \<Rightarrow> nat \<Rightarrow> 'cb \<Rightarrow> Timestamp \<Rightarrow> int \<Rightarrow>
    cxx_error + (nat \<times> 'cb TimerQueue)" where
  "addTimer_forever q addr cb when_t interval =
     (let (t, n) = Timer_new_forever cb when_t interval (m_numberCreate q);
          q1 = q\<lparr>store := (store q)(addr \<mapsto> t), m_numberCreate := n\<rparr>
      in bind_r (TimerQueue_insert q1 addr) (\<lambda>q2. Inr (addr, q2)))"

definition removeTimer :: "nat \<Rightarrow> 'cb TimerQueue \<Rightarrow> 'cb TimerQueue" where
  "removeTimer timer q = q\<lparr>m_timers := erase_first (\<lambda>e. snd e = timer) (m_timers q)\<rparr>"

definition TimerQueue_cancel :: "'cb TimerQueue \<Rightarrow> nat \<Rightarrow> bool \<Rightarrow> 'cb TimerQueue" where
  "TimerQueue_cancel q timer off =
     (case find (\<lambda>e. snd e = timer) (m_timers q) of
        None \<Rightarrow> q
      | Some e \<Rightarrow> q\<lparr>store := (store q)(snd e := map_option (\<lambda>t. Control t off) (store q (snd e)))\<rparr>)"

text \<open>The loop of \<open>doTimer\<close> from the entry the iterator is at, with the trace of what fired.\<close>

primrec doTimer_loop :: "Timestamp \<Rightarrow> entry list \<Rightarrow> (nat \<Rightarrow> 'cb Timer option) \<Rightarrow>
    cxx_error + (entry list \<times> (nat \<Rightarrow> 'cb Timer option) \<times> (nat \<times> 'cb) list)" where
  "doTimer_loop now [] h = Inr ([], h, [])"
| "doTimer_loop now (e # es) h =
     (case h (snd e) of
        None \<Rightarrow> Inl Undefined_Behaviour
      | Some t \<Rightarrow>
          if exprivation t \<le> now then
            bind_r (Timer_Run t) (\<lambda>(t', fired).
            bind_r (doTimer_loop now es (h(snd e \<mapsto> t'))) (\<lambda>(es', h', tr).
              Inr (if GetRepeatCount t' = 0 then es' else e # es', h', map (Pair (snd e)) fired @ tr)))
          else Inr (e # es, h, []))"

definition doTimer :: "Timestamp \<Rightarrow> 'cb TimerQueue \<Rightarrow> cxx_error + ('cb TimerQueue \<times> (nat \<times> 'cb) list)" where
  "doTimer now q =
     bind_r (doTimer_loop now (m_timers q) (store q)) (\<lambda>(es, h, tr).
       Inr (q\<lparr>m_timers := es, store := h\<rparr>, tr))"

text \<open>Successive calls, with the clock readings they see.\<close>

primrec doTimers :: "Timestamp list \<Rightarrow> 'cb TimerQueue \<Rightarrow> cxx_error + ('cb TimerQueue \<times> (nat \<times> 'cb) list)" where
  "doTimers [] q = Inr (q, [])"
| "doTimers (now # nows) q =
     bind_r (doTimer now q) (\<lambda>(q1, tr1).
     bind_r (doTimers nows q1) (\<lambda>(q2, tr2). Inr (q2, tr1 @ tr2)))"

section \<open>Loop events\<close>

record ('arg, 'f) LoopItem =
  m_loopfunc :: 'f
  user_data :: 'arg

definition LoopItem_Run :: "('arg, 'f) LoopItem \<Rightarrow> 'f \<times> 'arg" where
  "LoopItem_Run i = (m_loopfunc i, user_data i)"

text \<open>The list holds shared pointers: an address with the item it points to.\<close>

type_synonym ('arg, 'f) LoopItemList = "(nat \<times> ('arg, 'f) LoopItem) list"

definition addLoopEvent :: "nat \<times> 'f \<times> 'arg \<Rightarrow> ('arg, 'f) LoopItemList \<Rightarrow> ('arg, 'f) LoopItemList" where
  "addLoopEvent p l = (case p of (addr, cb, arg) \<Rightarrow> l @ [(addr, \<lparr>m_loopfunc = cb, user_data = arg\<rparr>)])"

definition removeLoopEvent :: "nat \<Rightarrow> ('arg, 'f) LoopItemList \<Rightarrow> ('arg, 'f) LoopItemList" where
  "removeLoopEvent itemPtr l = erase_first (\<lambda>e. fst e = itemPtr) l"

definition doLoopEvent :: "('arg, 'f) LoopItemList \<Rightarrow> ('f \<times> 'arg) list" where
  "doLoopEvent l = map (\<lambda>e. LoopItem_Run (snd e)) l"

lemmas [op_defs] = exprivation_def GetRepeatCount_def Control_def

section \<open>Invariant\<close>

definition TimerQueue_inv :: "'cb TimerQueue \<Rightarrow> bool" where
  "TimerQueue_inv q \<longleftrightarrow> sorted_wrt (<) (m_timers q) \<and> distinct (map snd (m_timers q)) \<and>
     (\<forall>e \<in> set (m_timers q). store q (snd e) \<noteq> None)"

definition queued :: "'cb TimerQueue \<Rightarrow> nat set" where
  "queued q = snd ` set (m_timers q)"

lemma Timer_Run_cases:
  assumes "Timer_Run t = Inr (t', fired)"
  shows "fired = (if m_cancled t then [] else [m_callback t])"
    and "m_repeatCount t' = (if m_cancled t \<or> m_repeatCount t = 0 then m_repeatCount t
                             else m_repeatCount t - 1)"
    and "m_cancled t' = m_cancled t" and "m_callback t' = m_callback t"
    and "m_expiration t' = (if m_cancled t \<or> m_repeatCount t = 1 then m_expiration t
           else Timestamp (m_microSecondsSinceEpoch (m_expiration t) + m_interval t))"
  using assms
  by (auto simp: Timer_Run_def Timer_advance_def Let_def bind_r_eq_Inr split: if_splits)

text \<open>What one pass does to the entries: the due prefix is run, the rest is untouched.\<close>

definition due :: "Timestamp \<Rightarrow> (nat \<Rightarrow> 'cb Timer option) \<Rightarrow> entry \<Rightarrow> bool" where
  "due now h e = (case h (snd e) of None \<Rightarrow> False | Some t \<Rightarrow> exprivation t \<le> now)"

definition fires :: "(nat \<Rightarrow> 'cb Timer option) \<Rightarrow> entry \<Rightarrow> (nat \<times> 'cb) list" where
  "fires h e = (case h (snd e) of None \<Rightarrow> []
     | Some t \<Rightarrow> if m_cancled t then [] else [(snd e, m_callback t)])"

lemma due_upd [simp]: "snd e \<noteq> a \<Longrightarrow> due now (h(a \<mapsto> t)) e = due now h e"
  by (simp add: due_def)

lemma fires_upd [simp]: "snd e \<noteq> a \<Longrightarrow> fires (h(a \<mapsto> t)) e = fires h e"
  by (simp add: fires_def)

lemma doTimer_loop_spec:
  assumes "doTimer_loop now es h = Inr (es', h', tr)" and "distinct (map snd es)"
  shows "tr = concat (map (fires h) (takeWhile (due now h) es)) \<and>
    es' = filter (\<lambda>e. m_repeatCount (the (h' (snd e))) \<noteq> 0) (takeWhile (due now h) es)
          @ dropWhile (due now h) es \<and>
    (\<forall>a. a \<notin> snd ` set (takeWhile (due now h) es) \<longrightarrow> h' a = h a) \<and>
    (\<forall>e \<in> set (takeWhile (due now h) es). \<exists>t t' f. h (snd e) = Some t \<and> h' (snd e) = Some t' \<and>
       Timer_Run t = Inr (t', f))"
  using assms
proof (induction es arbitrary: es' h h' tr)
  case Nil
  then show ?case by simp
next
  case (Cons e es)
  obtain t where t: "h (snd e) = Some t"
    using Cons.prems(1) by (auto split: option.splits)
  show ?case
  proof (cases "exprivation t \<le> now")
    case False
    then have "\<not> due now h e" by (simp add: due_def t)
    with False Cons.prems t show ?thesis by auto
  next
    case True
    obtain t' fired es1 tr1 where run: "Timer_Run t = Inr (t', fired)"
      and rest: "doTimer_loop now es (h(snd e \<mapsto> t')) = Inr (es1, h', tr1)"
      and tr: "tr = map (Pair (snd e)) fired @ tr1"
      and es': "es' = (if GetRepeatCount t' = 0 then es1 else e # es1)"
      using Cons.prems(1) True t by (auto simp: bind_r_eq_Inr)
    have fresh: "\<And>x. x \<in> set es \<Longrightarrow> snd x \<noteq> snd e" and dist: "distinct (map snd es)"
      using Cons.prems(2) by (auto simp: image_iff)
    have tw: "takeWhile (due now (h(snd e \<mapsto> t'))) es = takeWhile (due now h) es"
        "dropWhile (due now (h(snd e \<mapsto> t'))) es = dropWhile (due now h) es"
      using fresh by (auto intro!: takeWhile_cong dropWhile_cong)
    have fr: "map (fires (h(snd e \<mapsto> t'))) (takeWhile (due now h) es)
        = map (fires h) (takeWhile (due now h) es)"
      using fresh by (auto dest: set_takeWhileD)
    have dueE: "due now h e" using True t by (simp add: due_def)
    note IH = Cons.IH [OF rest dist, unfolded tw fr]
    have notin: "snd e \<notin> snd ` set (takeWhile (due now h) es)"
      by (metis fresh imageE set_takeWhileD)
    then have h'e: "h' (snd e) = Some t'" using IH by simp
    have "map (Pair (snd e)) fired = fires h e"
      using Timer_Run_cases(1) [OF run] t by (simp add: fires_def)
    then show ?thesis
      using IH tr es' dueE h'e notin t run fresh
      by (auto simp: GetRepeatCount_def fun_upd_def dest: set_takeWhileD split: if_splits)
  qed
qed


lemma doTimer_spec:
  assumes "TimerQueue_inv q" and "doTimer now q = Inr (q', tr)"
  shows "tr = concat (map (fires (store q)) (takeWhile (due now (store q)) (m_timers q)))"
    and "m_timers q' =
      filter (\<lambda>e. m_repeatCount (the (store q' (snd e))) \<noteq> 0) (takeWhile (due now (store q)) (m_timers q))
      @ dropWhile (due now (store q)) (m_timers q)"
    and "a \<notin> snd ` set (takeWhile (due now (store q)) (m_timers q)) \<Longrightarrow> store q' a = store q a"
    and "e \<in> set (takeWhile (due now (store q)) (m_timers q)) \<Longrightarrow>
      \<exists>t t' f. store q (snd e) = Some t \<and> store q' (snd e) = Some t' \<and> Timer_Run t = Inr (t', f)"
  using assms doTimer_loop_spec [of now "m_timers q" "store q" "m_timers q'" "store q'" tr]
  by (auto simp: doTimer_def TimerQueue_inv_def bind_r_eq_Inr)

lemma sorted_wrt_filter_append:
  "sorted_wrt R (xs @ ys) \<Longrightarrow> sorted_wrt R (filter P xs @ ys)"
  by (auto simp: sorted_wrt_append sorted_wrt_filter)

lemma distinct_filter_append:
  "distinct (map f (xs @ ys)) \<Longrightarrow> distinct (map f (filter P xs @ ys))"
  by (auto simp: distinct_map_filter)

lemma doTimer_inv [inv_intros]:
  assumes inv: "TimerQueue_inv q" and run: "doTimer now q = Inr (q', tr)"
  shows "TimerQueue_inv q'"
proof -
  note spec = doTimer_spec [OF inv run]
  let ?D = "takeWhile (due now (store q)) (m_timers q)"
  have "sorted_wrt (<) (?D @ dropWhile (due now (store q)) (m_timers q))"
    and "distinct (map snd (?D @ dropWhile (due now (store q)) (m_timers q)))"
    using inv by (simp_all add: TimerQueue_inv_def del: map_append)
  moreover have "store q' (snd e) \<noteq> None" if "e \<in> set (m_timers q')" for e
  proof (cases "snd e \<in> snd ` set ?D")
    case True
    then show ?thesis using spec(4) by (metis imageE option.distinct(1))
  next
    case False
    then have "e \<in> set (m_timers q)"
      using that by (auto simp: spec(2) dest: set_takeWhileD set_dropWhileD)
    with False inv show ?thesis by (auto simp: spec(3) TimerQueue_inv_def)
  qed
  ultimately show ?thesis
    unfolding TimerQueue_inv_def spec(2)
    by (metis sorted_wrt_filter_append distinct_filter_append spec(2))
qed

text \<open>Adding at an unused address, removing and cancelling.\<close>

definition add_to_queue :: "'cb TimerQueue \<Rightarrow> nat \<Rightarrow> 'cb Timer \<Rightarrow> u64 \<Rightarrow> 'cb TimerQueue" where
  "add_to_queue q addr t n = q\<lparr>store := (store q)(addr \<mapsto> t), m_numberCreate := n,
     m_timers := set_insert (m_expiration t, addr) (m_timers q)\<rparr>"

lemma addTimer_eq:
  "addTimer q addr cb w i r = Inr (addr, add_to_queue q addr (fst (Timer_new cb w i r (m_numberCreate q)))
     (m_numberCreate q + 1))"
  by (simp add: addTimer_def Timer_new_def TimerQueue_insert_def add_to_queue_def exprivation_def)

lemma addTimer_forever_eq:
  "addTimer_forever q addr cb w i = Inr (addr, add_to_queue q addr
     (fst (Timer_new_forever cb w i (m_numberCreate q))) (m_numberCreate q + 1))"
  by (simp add: addTimer_forever_def Timer_new_forever_def TimerQueue_insert_def add_to_queue_def
      exprivation_def)

lemma add_to_queue_inv [inv_intros]:
  assumes "TimerQueue_inv q" and "addr \<notin> queued q"
  shows "TimerQueue_inv (add_to_queue q addr t n)"
proof -
  have "distinct (map snd (set_insert (m_expiration t, addr) (m_timers q)))"
    by (rule distinct_map_set_insert) (use assms in \<open>auto simp: TimerQueue_inv_def queued_def\<close>)
  with assms show ?thesis
    by (auto simp: TimerQueue_inv_def add_to_queue_def sorted_set_insert queued_def)
qed

lemma queued_add [simp]: "queued (add_to_queue q addr t n) = insert addr (queued q)"
  by (simp add: queued_def add_to_queue_def)

lemma removeTimer_inv [inv_intros]: "TimerQueue_inv q \<Longrightarrow> TimerQueue_inv (removeTimer a q)"
  using set_erase_first_subset [of "\<lambda>e. snd e = a" "m_timers q"]
  by (auto simp: TimerQueue_inv_def removeTimer_def sorted_wrt_erase_first distinct_erase_first)

lemma queued_remove: "TimerQueue_inv q \<Longrightarrow> queued (removeTimer a q) = queued q - {a}"
  by (auto simp: queued_def removeTimer_def TimerQueue_inv_def set_erase_first_key)

lemma cancel_eq:
  assumes "TimerQueue_inv q"
  shows "TimerQueue_cancel q a off =
    (if a \<in> queued q then q\<lparr>store := (store q)(a \<mapsto> Control (the (store q a)) off)\<rparr> else q)"
proof (cases "find (\<lambda>e. snd e = a) (m_timers q)")
  case None
  then have "a \<notin> queued q" by (auto simp: find_None_iff queued_def image_iff)
  with None show ?thesis by (simp add: TimerQueue_cancel_def)
next
  case (Some e)
  then have "e \<in> set (m_timers q)" "snd e = a" by (auto simp: find_Some_iff)
  with Some assms show ?thesis
    by (auto simp: TimerQueue_cancel_def queued_def TimerQueue_inv_def)
qed

lemma cancel_inv [inv_intros]: "TimerQueue_inv q \<Longrightarrow> TimerQueue_inv (TimerQueue_cancel q a off)"
  by (auto simp: cancel_eq TimerQueue_inv_def)

subsection \<open>As a registry\<close>

text \<open>The queue with timers added through \<open>addTimer\<close>, and the list of loop events.\<close>

definition addTimer_op :: "nat \<times> 'cb \<times> Timestamp \<times> int \<times> int \<Rightarrow> 'cb TimerQueue \<Rightarrow> 'cb TimerQueue" where
  "addTimer_op p q = (case p of (addr, cb, w, i, r) \<Rightarrow>
     (case addTimer q addr cb w i r of Inl _ \<Rightarrow> q | Inr (_, q') \<Rightarrow> q'))"

lemma addTimer_op_eq:
  "addTimer_op (addr, cb, w, i, r) q = add_to_queue q addr
     (fst (Timer_new cb w i r (m_numberCreate q))) (m_numberCreate q + 1)"
  unfolding addTimer_op_def addTimer_eq by simp

interpretation timers: registry TimerQueue_inv fst "\<lambda>q p. fst p \<notin> queued q" queued addTimer_op removeTimer
proof (unfold_locales, goal_cases)
  case (1 q p)
  then show ?case by (cases p) (auto simp only: addTimer_op_eq fst_conv intro: add_to_queue_inv)
next
  case (2 q p)
  then show ?case by (cases p) (simp only: addTimer_op_eq queued_add fst_conv)
qed (simp_all add: removeTimer_inv queued_remove)

interpretation loop_events: registry "\<lambda>l. distinct (map fst l)" fst "\<lambda>l p. fst p \<notin> fst ` set l"
    "\<lambda>l. fst ` set l" addLoopEvent removeLoopEvent
proof (unfold_locales, goal_cases)
  case (2 l p)
  then show ?case by (cases p) (simp add: addLoopEvent_def)
next
  case (4 l k)
  then show ?case by (auto simp: removeLoopEvent_def set_erase_first_key)
qed (auto simp: addLoopEvent_def removeLoopEvent_def distinct_erase_first)

subsection \<open>How often a timer fires\<close>

lemma distinct_takeWhile_split:
  assumes "distinct (map f xs)"
  shows "distinct (map f (takeWhile P xs))"
    and "f ` set (takeWhile P xs) \<inter> f ` set (dropWhile P xs) = {}"
proof -
  have "map f xs = map f (takeWhile P xs) @ map f (dropWhile P xs)"
    by (metis map_append takeWhile_dropWhile_id)
  with assms have "distinct (map f (takeWhile P xs) @ map f (dropWhile P xs))" by simp
  then show "distinct (map f (takeWhile P xs))"
    and "f ` set (takeWhile P xs) \<inter> f ` set (dropWhile P xs) = {}" by auto
qed

lemma count_list_other: "\<forall>x \<in> set tr. fst x \<noteq> a \<Longrightarrow> count_list (map fst tr) a = 0"
  by (induction tr) auto

lemma count_fires:
  assumes "distinct (map snd es)"
  shows "count_list (map fst (concat (map (fires h) es))) a =
    (if a \<in> snd ` set es \<and> (\<exists>t. h a = Some t \<and> \<not> m_cancled t) then 1 else 0)"
  using assms
proof (induction es)
  case Nil
  then show ?case by simp
next
  case (Cons e es)
  then show ?case
    by (cases "h (snd e)") (auto simp: fires_def image_iff)
qed

text \<open>One pass over a queued timer: its count goes down when it fires, and it leaves the queue exactly when
  its count is 0 after it was run.\<close>

lemma doTimer_account:
  assumes inv: "TimerQueue_inv q" and run: "doTimer now q = Inr (q', tr)"
    and a: "a \<in> queued q" and t: "store q a = Some t"
  shows "\<exists>t' n. store q' a = Some t' \<and> count_list (map fst tr) a = n \<and> n \<le> 1 \<and>
    (m_repeatCount t \<noteq> 0 \<longrightarrow> m_repeatCount t' = m_repeatCount t - int n \<and> (a \<in> queued q' \<longleftrightarrow> m_repeatCount t' \<noteq> 0)) \<and>
    (m_repeatCount t = 0 \<longrightarrow> m_repeatCount t' = 0 \<and> (a \<in> queued q' \<longrightarrow> n = 0))"
proof -
  note spec = doTimer_spec [OF inv run]
  let ?D = "takeWhile (due now (store q)) (m_timers q)"
  let ?R = "dropWhile (due now (store q)) (m_timers q)"
  have split: "m_timers q = ?D @ ?R" by simp
  have ids: "distinct (map snd (m_timers q))" using inv by (simp add: TimerQueue_inv_def)
  have dist: "distinct (map snd ?D)" and disj: "snd ` set ?D \<inter> snd ` set ?R = {}"
    by (rule distinct_takeWhile_split [OF ids])+
  have cnt: "count_list (map fst tr) a = (if a \<in> snd ` set ?D \<and> \<not> m_cancled t then 1 else 0)"
    unfolding spec(1) using count_fires [OF dist, of "store q" a] t by auto
  show ?thesis
  proof (cases "a \<in> snd ` set ?D")
    case True
    then obtain e where e: "e \<in> set ?D" "snd e = a" by auto
    then obtain t' f where t': "store q' a = Some t'" "Timer_Run t = Inr (t', f)"
      using spec(4) [OF e(1)] t by auto
    have "a \<notin> snd ` set ?R" using True disj by auto
    then have "a \<in> queued q' \<longleftrightarrow> m_repeatCount t' \<noteq> 0"
      using e t' by (auto simp: queued_def spec(2) image_iff)
    then show ?thesis using t' Timer_Run_cases(2) [OF t'(2)] cnt True by auto
  next
    case False
    then have "a \<in> snd ` set ?R" using a split by (metis UnE image_Un queued_def set_append)
    then have "a \<in> queued q'" by (auto simp: queued_def spec(2))
    then show ?thesis using False spec(3) cnt t by auto
  qed
qed

lemma doTimer_repeat:
  assumes "TimerQueue_inv q" "doTimer now q = Inr (q', tr)" "a \<in> queued q" "store q a = Some t" "0 < m_repeatCount t"
  shows "\<exists>t'. store q' a = Some t' \<and>
    m_repeatCount t' = m_repeatCount t - int (count_list (map fst tr) a) \<and> 0 \<le> m_repeatCount t' \<and>
    (a \<in> queued q' \<longleftrightarrow> m_repeatCount t' \<noteq> 0)"
  using doTimer_account [OF assms(1-4)] assms(5) by fastforce

lemma doTimer_gone:
  assumes inv: "TimerQueue_inv q" and run: "doTimer now q = Inr (q', tr)" and a: "a \<notin> queued q"
  shows "a \<notin> queued q'" and "count_list (map fst tr) a = 0"
proof -
  note spec = doTimer_spec [OF inv run]
  let ?D = "takeWhile (due now (store q)) (m_timers q)"
  have D: "a \<notin> snd ` set ?D" using a by (auto simp: queued_def dest: set_takeWhileD)
  have "distinct (map snd ?D)"
    using inv by (simp add: TimerQueue_inv_def distinct_takeWhile_split)
  with D show "count_list (map fst tr) a = 0" by (simp add: spec(1) count_fires)
  show "a \<notin> queued q'"
    using a by (auto simp: queued_def spec(2) dest: set_takeWhileD set_dropWhileD)
qed

lemma doTimers_gone:
  "TimerQueue_inv q \<Longrightarrow> a \<notin> queued q \<Longrightarrow> doTimers nows q = Inr (q', tr) \<Longrightarrow>
   count_list (map fst tr) a = 0 \<and> a \<notin> queued q'"
proof (induction nows arbitrary: q tr)
  case Nil
  then show ?case by simp
next
  case (Cons now nows)
  then obtain q1 tr1 tr2 where 1: "doTimer now q = Inr (q1, tr1)"
    and 2: "doTimers nows q1 = Inr (q', tr2)" "tr = tr1 @ tr2"
    by (auto simp: bind_r_eq_Inr)
  show ?case
    using Cons.IH [OF doTimer_inv [OF Cons.prems(1) 1] _ 2(1)] doTimer_gone [OF Cons.prems(1) 1 Cons.prems(2)]
      2(2) by simp
qed


lemma doTimers_inv: "TimerQueue_inv q \<Longrightarrow> doTimers nows q = Inr (q', tr) \<Longrightarrow> TimerQueue_inv q'"
  by (induction nows arbitrary: q tr) (auto simp: bind_r_eq_Inr intro: doTimer_inv)

text \<open>Histories of a queue. With the queue goes an account: how often each timer was asked to fire (the
  last one made at an address), how often its callback has run, and which timers were removed. A timer is
  made at an address that no queued timer has.\<close>

record timer_account =
  asked :: "nat \<Rightarrow> int"
  fired :: "nat \<Rightarrow> nat"
  removed :: "nat set"

definition account_add :: "nat \<Rightarrow> int \<Rightarrow> timer_account \<Rightarrow> timer_account" where
  "account_add a n g = g\<lparr>asked := (asked g)(a := n), fired := (fired g)(a := 0), removed := removed g - {a}\<rparr>"

inductive timer_history :: "'cb TimerQueue \<Rightarrow> timer_account \<Rightarrow> bool" where
  th_empty: "timer_history \<lparr>store = Map.empty, m_timers = [], m_numberCreate = n\<rparr>
    \<lparr>asked = (\<lambda>_. 0), fired = (\<lambda>_. 0), removed = {}\<rparr>"
| th_add: "timer_history q g \<Longrightarrow> addr \<notin> queued q \<Longrightarrow> addTimer q addr cb w i r = Inr (p, q') \<Longrightarrow>
    timer_history q' (account_add addr r g)"
| th_add_forever: "timer_history q g \<Longrightarrow> addr \<notin> queued q \<Longrightarrow> addTimer_forever q addr cb w i = Inr (p, q') \<Longrightarrow>
    timer_history q' (account_add addr (-1) g)"
| th_remove: "timer_history q g \<Longrightarrow> 
    timer_history (removeTimer a q) (if a \<in> queued q then g\<lparr>removed := insert a (removed g)\<rparr> else g)"
| th_cancel: "timer_history q g \<Longrightarrow> timer_history (TimerQueue_cancel q a off) g"
| th_do: "timer_history q g \<Longrightarrow> doTimer now q = Inr (q', tr) \<Longrightarrow>
    timer_history q' (g\<lparr>fired := (\<lambda>a. fired g a + count_list (map fst tr) a)\<rparr>)"

text \<open>The account balances.\<close>

definition balanced :: "'cb TimerQueue \<Rightarrow> timer_account \<Rightarrow> nat \<Rightarrow> bool" where
  "balanced q g a \<longleftrightarrow>
     (if a \<in> queued q
      then (\<exists>t. store q a = Some t \<and> m_repeatCount t = asked g a - int (fired g a) \<and> (0 < asked g a \<longrightarrow> 0 < m_repeatCount t) \<and>
        (asked g a = 0 \<longrightarrow> fired g a = 0))
      else (0 < asked g a \<longrightarrow> int (fired g a) \<le> asked g a \<and> (a \<in> removed g \<or> int (fired g a) = asked g a)) \<and>
        (asked g a < 0 \<longrightarrow> a \<in> removed g) \<and> (asked g a = 0 \<longrightarrow> fired g a \<le> 1))"

lemma balanced_add:
  assumes "balanced q g b" and "m_repeatCount t = n"
  shows "balanced (add_to_queue q a t k) (account_add a n g) b"
  using assms by (auto simp: balanced_def account_add_def add_to_queue_def queued_def)

lemma balanced_do:
  assumes inv: "TimerQueue_inv q" and run: "doTimer now q = Inr (q', tr)" and bal: "balanced q g a"
  shows "balanced q' (g\<lparr>fired := (\<lambda>a. fired g a + count_list (map fst tr) a)\<rparr>) a"
proof (cases "a \<in> queued q")
  case False
  then show ?thesis using doTimer_gone [OF inv run False] bal by (simp add: balanced_def)
next
  case True
  then obtain t where t: "store q a = Some t" "m_repeatCount t = asked g a - int (fired g a)"
    "0 < asked g a \<longrightarrow> 0 < m_repeatCount t" "asked g a = 0 \<longrightarrow> fired g a = 0" using bal by (auto simp: balanced_def)
  obtain t' n where *: "store q' a = Some t'" "count_list (map fst tr) a = n" "n \<le> 1"
    "m_repeatCount t \<noteq> 0 \<longrightarrow> m_repeatCount t' = m_repeatCount t - int n \<and> (a \<in> queued q' \<longleftrightarrow> m_repeatCount t' \<noteq> 0)"
    "m_repeatCount t = 0 \<longrightarrow> m_repeatCount t' = 0 \<and> (a \<in> queued q' \<longrightarrow> n = 0)"
    using doTimer_account [OF inv run True t(1)] by blast
  show ?thesis
  proof (cases "m_repeatCount t = 0")
    case True
    then show ?thesis using * t by (auto simp: balanced_def)
  next
    case False
    then show ?thesis using * t by (cases "a \<in> queued q'") (auto simp: balanced_def)
  qed
qed

lemma timer_history_inv: "timer_history q g \<Longrightarrow> TimerQueue_inv q \<and> (\<forall>a. balanced q g a)"
proof (induction rule: timer_history.induct)
  case (th_empty n)
  then show ?case by (simp add: TimerQueue_inv_def balanced_def queued_def)
next
  case (th_add q g addr cb w i r p q')
  then show ?case by (auto simp: addTimer_eq Timer_new_def intro: inv_intros balanced_add)
next
  case (th_add_forever q g addr cb w i p q')
  then show ?case by (auto simp: addTimer_forever_eq Timer_new_forever_def intro: inv_intros balanced_add)
next
  case (th_remove q g a)
  have "balanced (removeTimer a q) (if a \<in> queued q then g\<lparr>removed := insert a (removed g)\<rparr> else g) b" for b
  proof -
    have st: "store (removeTimer a q) = store q" by (simp add: removeTimer_def)
    have "balanced q g b" and qd: "queued (removeTimer a q) = queued q - {a}" using th_remove by (simp_all add: queued_remove)
    then show ?thesis unfolding balanced_def st qd
      by (cases "b = a"; cases "a \<in> queued q"; cases "b \<in> queued q") (simp_all, fastforce+)
  qed
  with th_remove show ?case by (simp add: removeTimer_inv)
next
  case (th_cancel q g a off)
  have "balanced (TimerQueue_cancel q a off) g b" for b
  proof -
    have b: "balanced q g b" and inv: "TimerQueue_inv q" using th_cancel by simp_all
    have qd: "queued (TimerQueue_cancel q a off) = queued q" unfolding cancel_eq [OF inv] by (simp add: queued_def)
    show ?thesis
    proof (cases "b = a \<and> a \<in> queued q")
      case True
      then show ?thesis using b unfolding balanced_def qd by (auto simp: cancel_eq [OF inv] Control_def)
    next
      case False
      then have "store (TimerQueue_cancel q a off) b = store q b" by (auto simp: cancel_eq [OF inv])
      then show ?thesis using b unfolding balanced_def qd by (simp split: if_splits)
    qed
  qed
  with th_cancel show ?case by (simp add: cancel_inv)
next
  case (th_do q g now q' tr)
  then show ?case using doTimer_inv balanced_do by blast
qed

text \<open>Concrete queues: a periodic timer inserted first, and a later one.\<close>

definition demo_timer :: "nat \<Rightarrow> int \<Rightarrow> int \<Rightarrow> int \<Rightarrow> nat Timer" where
  "demo_timer cb e i r = \<lparr>m_callback = cb, m_expiration = Timestamp e, m_interval = i,
     m_repeatCount = r, m_sequcence = 1, m_cancled = False\<rparr>"

definition demo_queue :: "nat TimerQueue" where
  "demo_queue = \<lparr>store = [1 \<mapsto> demo_timer 7 10 100 2, 2 \<mapsto> demo_timer 8 60 50 1],
     m_timers = [(Timestamp 10, 1), (Timestamp 60, 2)], m_numberCreate = 2\<rparr>"

lemma demo_queue_inv: "TimerQueue_inv demo_queue"
  by (simp add: TimerQueue_inv_def demo_queue_def)

lemma exprivation_demo: "exprivation (demo_timer cb e i r) = Timestamp e"
    "GetRepeatCount (demo_timer cb e i r) = r"
  by (simp_all add: exprivation_def GetRepeatCount_def demo_timer_def)

lemma run_demo_timer:
  "Timer_Run (demo_timer cb e i r) = (if r = 0 then
     bind_r (int64_result (e + i)) (\<lambda>e'. Inr (demo_timer cb e' i r, [cb]))
   else bind_r (int64_result (r - 1)) (\<lambda>r'. if r' = 0 then Inr (demo_timer cb e i 0, [cb])
     else bind_r (int64_result (e + i)) (\<lambda>e'. Inr (demo_timer cb e' i r', [cb]))))"
  by (cases "int64_ok (e + i)"; cases "int64_ok (r - 1)")
     (simp_all add: Timer_Run_def Timer_advance_def demo_timer_def Let_def int64_result_def
      Timestamp_plus_assign_int_def)

text \<open>A due timer is not run while a periodic timer with an older key waits for its next turn.\<close>

lemma doTimer_starves:
  "\<exists>q. doTimers [Timestamp 20, Timestamp 70] demo_queue = Inr (q, [(1, 7)]) \<and> 2 \<in> queued q"
  by (simp add: demo_queue_def doTimer_def run_demo_timer exprivation_demo int64_ok_def queued_def
      int64_result_def)

lemma demo_runs:
  "doTimer (Timestamp 20) demo_queue =
     Inr (demo_queue\<lparr>store := [1 \<mapsto> demo_timer 7 110 100 1, 2 \<mapsto> demo_timer 8 60 50 1]\<rparr>, [(1, 7)])"
  by (auto simp: demo_queue_def doTimer_def run_demo_timer exprivation_demo int64_ok_def
      int64_result_def fun_eq_iff)

lemma demo_history: "timer_history
    \<lparr>store = [3 \<mapsto> demo_timer 7 110 100 1], m_timers = [(Timestamp 10, 3)], m_numberCreate = 1\<rparr>
    \<lparr>asked = (\<lambda>_. 0)(3 := 2), fired = (\<lambda>_. 0)(3 := 1), removed = {}\<rparr>"
proof -
  have "timer_history \<lparr>store = [3 \<mapsto> demo_timer 7 10 100 2], m_timers = [(Timestamp 10, 3)], m_numberCreate = 1\<rparr>
      \<lparr>asked = (\<lambda>_. 0)(3 := 2), fired = (\<lambda>_. 0)(3 := 0), removed = {}\<rparr>"
    using th_add [OF th_empty [of 0], of 3 7 "Timestamp 10" 100 2]
    by (simp add: addTimer_eq Timer_new_def add_to_queue_def demo_timer_def account_add_def queued_def)
  from th_do [OF this, of "Timestamp 20" _ "[(3, 7)]"] show ?thesis
    by (simp add: doTimer_def run_demo_timer exprivation_demo int64_ok_def int64_result_def fun_upd_def if_distrib cong: if_cong)
qed

section \<open>Properties\<close>

text \<open>C6. A timer added with repeat count n > 0 fires n times in all. However the calls of \<open>doTimer\<close>
  fall, after any number of them its remaining count plus the number of times its callback ran is
  n, it is still queued exactly when the remaining count is positive, and once it has left the
  queue it never fires again.\<close>

theorem timer_fires_exactly:
  assumes "TimerQueue_inv q" and "a \<in> queued q" and "store q a = Some t" and "0 < m_repeatCount t"
    and "doTimers nows q = Inr (q', tr)"
  shows "if a \<in> queued q'
    then \<exists>t'. store q' a = Some t' \<and> 0 < m_repeatCount t' \<and>
      m_repeatCount t' + int (count_list (map fst tr) a) = m_repeatCount t
    else int (count_list (map fst tr) a) = m_repeatCount t"
  using assms
proof (induction nows arbitrary: q t tr)
  case Nil
  then show ?case by auto
next
  case (Cons now nows)
  obtain q1 tr1 tr2 where 1: "doTimer now q = Inr (q1, tr1)"
    and 2: "doTimers nows q1 = Inr (q', tr2)" and tr: "tr = tr1 @ tr2"
    using Cons.prems(5) by (auto simp: bind_r_eq_Inr)
  note inv1 = doTimer_inv [OF Cons.prems(1) 1]
  obtain t1 where t1: "store q1 a = Some t1"
    "m_repeatCount t1 = m_repeatCount t - int (count_list (map fst tr1) a)" "0 \<le> m_repeatCount t1"
    "a \<in> queued q1 \<longleftrightarrow> m_repeatCount t1 \<noteq> 0"
    using doTimer_repeat [OF Cons.prems(1) 1 Cons.prems(2,3,4)] by auto
  show ?case
  proof (cases "a \<in> queued q1")
    case True
    then show ?thesis using Cons.IH [OF inv1 True t1(1) _ 2] t1 tr by (auto split: if_splits)
  next
    case False
    then show ?thesis using doTimers_gone [OF inv1 False 2] t1 tr by auto
  qed
qed

theorem timer_fires_exactly_witness:
  "doTimers [Timestamp 20] demo_queue =
     Inr (demo_queue\<lparr>store := [1 \<mapsto> demo_timer 7 110 100 1, 2 \<mapsto> demo_timer 8 60 50 1]\<rparr>, [(1, 7)]) \<and>
   1 + int (count_list (map fst [(1 :: nat, 7 :: nat)]) 1) = 2"
proof -
  have "doTimers [Timestamp 20] demo_queue =
     Inr (demo_queue\<lparr>store := [1 \<mapsto> demo_timer 7 110 100 1, 2 \<mapsto> demo_timer 8 60 50 1]\<rparr>, [(1, 7)])"
    by (simp add: demo_runs)
  with timer_fires_exactly [OF demo_queue_inv _ _ _ this, of 1 "demo_timer 7 10 100 2"] show ?thesis
    by (simp add: demo_queue_def queued_def demo_timer_def)
qed

text \<open>C27. One call of \<open>doTimer\<close> runs, in key order, the timers of the longest prefix of the queue
  that is due, skips the cancelled ones, and looks at nothing behind the first timer that is not
  due. When every key is the current expiration of its timer, those are all the due timers; after
  a periodic timer has run its key is stale, and due timers behind it wait for it.\<close>

theorem doTimer_runs_due_prefix:
  assumes "TimerQueue_inv q" and "doTimer now q = Inr (q', tr)"
  shows "TimerQueue_inv q' \<and>
    tr = concat (map (fires (store q)) (takeWhile (due now (store q)) (m_timers q))) \<and>
    ((\<forall>e \<in> set (m_timers q). \<forall>t. store q (snd e) = Some t \<longrightarrow> exprivation t = fst e) \<longrightarrow>
       tr = concat (map (fires (store q)) (filter (due now (store q)) (m_timers q))))"
proof -
  have "takeWhile (due now (store q)) (m_timers q) = filter (due now (store q)) (m_timers q)"
    if keys: "\<forall>e \<in> set (m_timers q). \<forall>t. store q (snd e) = Some t \<longrightarrow> exprivation t = fst e"
  proof -
    have "due now (store q) e \<longleftrightarrow> fst e \<le> now" if "e \<in> set (m_timers q)" for e
      using keys assms(1) that by (fastforce simp: due_def TimerQueue_inv_def)
    moreover have "takeWhile (\<lambda>e. fst e \<le> now) es = filter (\<lambda>e. fst e \<le> now) es"
      if "sorted_wrt (<) es" for es :: "entry list"
      using that
    proof (induction es)
      case Nil
      then show ?case by simp
    next
      case (Cons e es)
      have "\<not> fst e \<le> now \<Longrightarrow> \<forall>x \<in> set es. \<not> fst x \<le> now"
        using Cons.prems by (auto simp: less_prod_def)
      with Cons show ?case by auto
    qed
    ultimately show ?thesis
      using assms(1) by (simp add: TimerQueue_inv_def cong: takeWhile_cong filter_cong)
  qed
  then show ?thesis
    using doTimer_inv [OF assms] doTimer_spec(1) [OF assms] by auto
qed

theorem doTimer_runs_due_prefix_witness:
  "[(1, 7)] = concat (map (fires (store demo_queue))
     (filter (due (Timestamp 20) (store demo_queue)) (m_timers demo_queue)))"
proof -
  have "\<forall>e \<in> set (m_timers demo_queue). \<forall>t. store demo_queue (snd e) = Some t \<longrightarrow> exprivation t = fst e"
    by (simp add: demo_queue_def exprivation_demo)
  with doTimer_runs_due_prefix [OF demo_queue_inv demo_runs] show ?thesis by blast
qed

text \<open>C25. The account of the timers balances after every history of a queue: timers are added, also at the
  address of one that has gone, removed and switched off and on, and passes run, in any order. A timer
  asked to fire n > 0 times has fired at most n times; while it is queued the times it fired and its
  remaining count make n, and some remain; and when it is not queued it has fired n times unless it was
  removed. A timer without an end leaves the queue only when it is removed, and one with count 0 fires
  at most once.\<close>

theorem timers_are_accounted_for:
  assumes "timer_history q g"
  shows "(\<forall>a. 0 < asked g a \<longrightarrow> int (fired g a) \<le> asked g a \<and>
      (if a \<in> queued q
       then \<exists>t. store q a = Some t \<and> 0 < m_repeatCount t \<and> int (fired g a) + m_repeatCount t = asked g a
       else a \<in> removed g \<or> int (fired g a) = asked g a)) \<and>
    (\<forall>a. asked g a < 0 \<longrightarrow> a \<in> queued q \<or> a \<in> removed g) \<and> (\<forall>a. asked g a = 0 \<longrightarrow> fired g a \<le> 1)"
proof -
  have b: "balanced q g a" for a using timer_history_inv [OF assms] by simp
  have 1: "int (fired g a) \<le> asked g a \<and>
      (if a \<in> queued q
       then \<exists>t. store q a = Some t \<and> 0 < m_repeatCount t \<and> int (fired g a) + m_repeatCount t = asked g a
       else a \<in> removed g \<or> int (fired g a) = asked g a)" if "0 < asked g a" for a
    using b [of a] that by (auto simp: balanced_def split: if_splits)
  have 2: "a \<in> queued q \<or> a \<in> removed g" if "asked g a < 0" for a
    using b [of a] that by (cases "a \<in> queued q") (simp_all add: balanced_def)
  have 3: "fired g a \<le> 1" if "asked g a = 0" for a
    using b [of a] that by (auto simp: balanced_def split: if_splits)
  show ?thesis using 1 2 3 by blast
qed

theorem timers_are_accounted_for_witness:
  "\<exists>g q :: nat TimerQueue. timer_history q g \<and> asked g 3 = 2 \<and> fired g 3 = 1 \<and> 3 \<in> queued q \<and>
     (\<exists>t. store q 3 = Some t \<and> int (fired g 3) + m_repeatCount t = asked g 3)"
proof -
  let ?q = "\<lparr>store = [3 \<mapsto> demo_timer 7 110 100 1], m_timers = [(Timestamp 10, 3)], m_numberCreate = 1\<rparr>"
  let ?g = "\<lparr>asked = (\<lambda>_. 0)(3 := 2), fired = (\<lambda>_. 0)(3 := 1), removed = {}\<rparr>"
  have "0 < asked ?g 3" "asked ?g 3 = 2" "fired ?g 3 = 1" "3 \<in> queued ?q" by (simp_all add: queued_def)
  with timers_are_accounted_for [OF demo_history] demo_history show ?thesis by (metis (no_types, lifting))
qed

end
