(* ===== verification/Pollers.thy ===== *)
theory Pollers
  imports Timestamps
begin

text \<open>
  \<open>src/Net/KaChannel.h\<close>, \<open>KaChannel.cpp\<close>, \<open>KaPoller.h\<close>, \<open>KaPoller.cpp\<close> and the channel operations of
  \<open>EventLoop.cpp\<close>: a channel is a descriptor with the events it wants, a poller keeps a map from
  descriptors to channels beside the interest list of \<open>epoll\<close>. Channels live in a store, a
  \<open>KaChannel*\<close> is an address in it. The kernel is a parameter: \<open>ctl\<close> is \<open>epoll_ctl\<close>, what
  \<open>epoll_wait\<close> reports is an argument of \<open>poll\<close>.
\<close>

section \<open>Channels\<close>

definition EPOLLIN :: u32 where "EPOLLIN = 1"
definition EPOLLPRI :: u32 where "EPOLLPRI = 2"
definition EPOLLOUT :: u32 where "EPOLLOUT = 4"

definition NoneEvent :: u32 where
  "NoneEvent = 0"

definition ReadEvent :: u32 where
  "ReadEvent = EPOLLIN OR EPOLLPRI"

definition WriteEvent :: u32 where
  "WriteEvent = EPOLLOUT"

definition KNew :: int where
  "KNew = -1"

definition KAdded :: int where
  "KAdded = 1"

definition KDeleted :: int where
  "KDeleted = 2"

record 'cb KaChannel =
  ch_loop :: nat
  m_fd :: fd
  m_events :: u32
  m_revents :: u32
  m_index :: int
  m_logHup :: bool
  m_tie :: "nat option"
  m_tied :: bool
  m_readCallback :: "'cb option"
  m_writeCallback :: "'cb option"
  m_closeCallback :: "'cb option"
  m_errorCallback :: "'cb option"

definition KaChannel_new :: "nat \<Rightarrow> fd \<Rightarrow> 'cb KaChannel" where
  "KaChannel_new loop fd =
     \<lparr>ch_loop = loop, m_fd = fd, m_events = 0, m_revents = 0, m_index = KAdded, m_logHup = True,
      m_tie = None, m_tied = False, m_readCallback = None, m_writeCallback = None,
      m_closeCallback = None, m_errorCallback = None\<rparr>"

definition setReadCallback :: "'cb \<Rightarrow> 'cb KaChannel \<Rightarrow> 'cb KaChannel" where
  "setReadCallback cb c = c\<lparr>m_readCallback := Some cb\<rparr>"

definition setWriteCallback :: "'cb \<Rightarrow> 'cb KaChannel \<Rightarrow> 'cb KaChannel" where
  "setWriteCallback cb c = c\<lparr>m_writeCallback := Some cb\<rparr>"

definition setCloseCallback :: "'cb \<Rightarrow> 'cb KaChannel \<Rightarrow> 'cb KaChannel" where
  "setCloseCallback cb c = c\<lparr>m_closeCallback := Some cb\<rparr>"

definition setErrorCallback :: "'cb \<Rightarrow> 'cb KaChannel \<Rightarrow> 'cb KaChannel" where
  "setErrorCallback cb c = c\<lparr>m_errorCallback := Some cb\<rparr>"

definition set_revent :: "u32 \<Rightarrow> 'cb KaChannel \<Rightarrow> 'cb KaChannel" where
  "set_revent revent c = c\<lparr>m_revents := revent\<rparr>"

definition add_revent :: "u32 \<Rightarrow> 'cb KaChannel \<Rightarrow> 'cb KaChannel" where
  "add_revent revent c = c\<lparr>m_revents := m_revents c OR revent\<rparr>"

definition isNonEvent :: "'cb KaChannel \<Rightarrow> bool" where
  "isNonEvent c \<longleftrightarrow> m_events c = NoneEvent"

definition isWriting :: "'cb KaChannel \<Rightarrow> bool" where
  "isWriting c \<longleftrightarrow> m_events c AND WriteEvent \<noteq> 0"

definition setIndex :: "int \<Rightarrow> 'cb KaChannel \<Rightarrow> 'cb KaChannel" where
  "setIndex index c = c\<lparr>m_index := index\<rparr>"

definition KaChannel_tie :: "nat \<Rightarrow> 'cb KaChannel \<Rightarrow> 'cb KaChannel" where
  "KaChannel_tie obj c = c\<lparr>m_tie := Some obj, m_tied := True\<rparr>"

text \<open>\<open>remove\<close> has no effect on either path. \<open>handleEventWithGuard\<close> has an empty body: the list of
  callbacks it invokes is empty. \<open>alive\<close> tells whether the object behind a weak pointer still exists.\<close>

definition KaChannel_remove :: "'cb KaChannel \<Rightarrow> 'cb KaChannel" where
  "KaChannel_remove c = (if \<not> isNonEvent c then c else c)"

definition handleEventWithGuard :: "Timestamp \<Rightarrow> 'cb KaChannel \<Rightarrow> 'cb list" where
  "handleEventWithGuard receiveTime c = []"

definition handleEvent :: "(nat \<Rightarrow> bool) \<Rightarrow> Timestamp \<Rightarrow> 'cb KaChannel \<Rightarrow> 'cb list" where
  "handleEvent alive receiveTime c =
     (if m_tied c then
        (case m_tie c of
           None \<Rightarrow> []
         | Some obj \<Rightarrow> if alive obj then handleEventWithGuard receiveTime c else [])
      else handleEventWithGuard receiveTime c)"

section \<open>The poller\<close>

datatype epoll_op = EPOLL_CTL_ADD | EPOLL_CTL_MOD | EPOLL_CTL_DEL

type_synonym epoll_event = "u32 \<times> nat"

text \<open>\<open>epoll_ctl\<close> on the poller's descriptor: whether it succeeded, and the kernel after it.\<close>

type_synonym 'k epoll_ctl = "'k \<Rightarrow> epoll_op \<Rightarrow> fd \<Rightarrow> epoll_event \<Rightarrow> bool \<times> 'k"

definition InitEventList :: nat where
  "InitEventList = 16"

record ('k, 'cb) KaPoller =
  m_ownerLoop :: nat
  m_eventList :: "epoll_event list"
  m_channels :: "fd \<Rightarrow> nat option"
  kernel :: 'k
  chans :: "nat \<Rightarrow> 'cb KaChannel option"

definition KaPoller_new :: "nat \<Rightarrow> 'k \<Rightarrow> (nat \<Rightarrow> 'cb KaChannel option) \<Rightarrow> ('k, 'cb) KaPoller" where
  "KaPoller_new loop k cs =
     \<lparr>m_ownerLoop = loop, m_eventList = replicate InitEventList (0, 0), m_channels = Map.empty,
      kernel = k, chans = cs\<rparr>"

definition channel_fd :: "'cb KaChannel \<Rightarrow> fd" where
  "channel_fd c = m_fd c"

definition channel_events :: "'cb KaChannel \<Rightarrow> u32" where
  "channel_events c = m_events c"

definition channel_index :: "'cb KaChannel \<Rightarrow> int" where
  "channel_index c = m_index c"

definition channel_GetLoop :: "'cb KaChannel \<Rightarrow> nat" where
  "channel_GetLoop c = ch_loop c"

text \<open>Operations on a channel pointer: dereferencing an address with no channel is undefined.\<close>

definition with_chan :: "('k, 'cb) KaPoller \<Rightarrow> nat \<Rightarrow> ('cb KaChannel \<Rightarrow> cxx_error + 'a) \<Rightarrow> cxx_error + 'a" where
  "with_chan s p f = (case chans s p of None \<Rightarrow> Inl Undefined_Behaviour | Some c \<Rightarrow> f c)"

definition put_chan :: "nat \<Rightarrow> 'cb KaChannel \<Rightarrow> ('k, 'cb) KaPoller \<Rightarrow> ('k, 'cb) KaPoller" where
  "put_chan p c s = s\<lparr>chans := (chans s)(p \<mapsto> c)\<rparr>"

definition KaPoller_hasChannel :: "('k, 'cb) KaPoller \<Rightarrow> nat \<Rightarrow> cxx_error + bool" where
  "KaPoller_hasChannel s p = with_chan s p (\<lambda>c. Inr (m_channels s (m_fd c) = Some p))"

definition KaPoller_update :: "'k epoll_ctl \<Rightarrow> epoll_op \<Rightarrow> nat \<Rightarrow> ('k, 'cb) KaPoller \<Rightarrow>
    cxx_error + (bool \<times> ('k, 'cb) KaPoller)" where
  "KaPoller_update ctl operation p s =
     with_chan s p (\<lambda>c.
       (let (ok, k) = ctl (kernel s) operation (m_fd c) (m_events c, p) in Inr (ok, s\<lparr>kernel := k\<rparr>)))"

definition KaPoller_updateChannel :: "'k epoll_ctl \<Rightarrow> nat \<Rightarrow> ('k, 'cb) KaPoller \<Rightarrow>
    cxx_error + (bool \<times> ('k, 'cb) KaPoller)" where
  "KaPoller_updateChannel ctl p s =
     with_chan s p (\<lambda>c.
       if m_index c = KNew \<or> m_index c = KDeleted then
         (if m_index c = KNew then
            (if m_channels s (m_fd c) \<noteq> None then Inr (False, s)
             else KaPoller_update ctl EPOLL_CTL_ADD p
                    (put_chan p (setIndex KAdded c) (s\<lparr>m_channels := (m_channels s)(m_fd c \<mapsto> p)\<rparr>)))
          else if m_channels s (m_fd c) = None then Inr (False, s)
          else if m_channels s (m_fd c) \<noteq> Some p then Inr (False, s)
          else KaPoller_update ctl EPOLL_CTL_ADD p (put_chan p (setIndex KAdded c) s))
       else if m_channels s (m_fd c) = None \<or> m_channels s (m_fd c) \<noteq> Some p \<or> m_index c \<noteq> KAdded then
         Inr (False, s)
       else if isNonEvent c then
         bind_r (KaPoller_update ctl EPOLL_CTL_DEL p s) (\<lambda>(ok, s1).
           if ok then Inr (True, put_chan p (setIndex KDeleted c) s1) else Inr (False, s1))
       else KaPoller_update ctl EPOLL_CTL_MOD p s)"

definition KaPoller_removeChannel :: "'k epoll_ctl \<Rightarrow> nat \<Rightarrow> ('k, 'cb) KaPoller \<Rightarrow>
    cxx_error + ('k, 'cb) KaPoller" where
  "KaPoller_removeChannel ctl p s =
     with_chan s p (\<lambda>c.
       if m_channels s (m_fd c) = None \<or> m_channels s (m_fd c) \<noteq> Some p \<or> \<not> isNonEvent c then Inr s
       else if m_index c \<noteq> KAdded \<and> m_index c \<noteq> KDeleted then Inr s
       else
         (let s1 = s\<lparr>m_channels := (m_channels s)(m_fd c := None)\<rparr> in
          bind_r (if m_index c = KAdded then KaPoller_update ctl EPOLL_CTL_DEL p s1 else Inr (True, s1))
            (\<lambda>(_, s2). Inr (put_chan p (setIndex KNew c) s2))))"

text \<open>\<open>fillActiveChannel\<close> over the reported events: it returns at the first one whose channel is not
  the registered one.\<close>

primrec fillActiveChannel :: "epoll_event list \<Rightarrow> ('k, 'cb) KaPoller \<Rightarrow> cxx_error + (nat list \<times> ('k, 'cb) KaPoller)" where
  "fillActiveChannel [] s = Inr ([], s)"
| "fillActiveChannel (e # es) s =
     with_chan s (snd e) (\<lambda>c.
       if m_channels s (m_fd c) = None \<or> m_channels s (m_fd c) \<noteq> Some (snd e) then Inr ([], s)
       else bind_r (fillActiveChannel es (put_chan (snd e) (set_revent (fst e) c) s))
              (\<lambda>(active, s'). Inr (snd e # active, s')))"

text \<open>What \<open>epoll_wait\<close> returned: the events it stored, or -1 with \<open>errno\<close>. Storing more events than
  it was given room for would be undefined. The third component of the result is the value the
  call puts back into \<open>errno\<close>, if any.\<close>

datatype epoll_wait_result = Wait_Events "epoll_event list" | Wait_Error int

definition EINTR :: int where
  "EINTR = 4"

definition KaPoller_poll :: "epoll_wait_result \<Rightarrow> Timestamp \<Rightarrow> ('k, 'cb) KaPoller \<Rightarrow>
    cxx_error + (Timestamp \<times> nat list \<times> int option \<times> ('k, 'cb) KaPoller)" where
  "KaPoller_poll r now s =
     (case r of
        Wait_Error e \<Rightarrow> Inr (now, [], if e \<noteq> EINTR then Some e else None, s)
      | Wait_Events evs \<Rightarrow>
          if length (m_eventList s) < length evs then Inl Undefined_Behaviour
          else if evs = [] then Inr (now, [], None, s)
          else
            bind_r (fillActiveChannel evs (s\<lparr>m_eventList := splice_at 0 evs (m_eventList s)\<rparr>)) (\<lambda>(active, s1).
              Inr (now, active, None,
                if length evs = length (m_eventList s1)
                then s1\<lparr>m_eventList := m_eventList s1 @ replicate (length (m_eventList s1)) (0, 0)\<rparr>
                else s1)))"

section \<open>The loop's channel operations\<close>

text \<open>The loop with address \<open>m_ownerLoop\<close> checks that the channel is its own.\<close>

definition EventLoop_updateChannel :: "'k epoll_ctl \<Rightarrow> nat \<Rightarrow> ('k, 'cb) KaPoller \<Rightarrow>
    cxx_error + (bool \<times> ('k, 'cb) KaPoller)" where
  "EventLoop_updateChannel ctl p s =
     with_chan s p (\<lambda>c.
       if ch_loop c \<noteq> m_ownerLoop s then Inr (False, s) else KaPoller_updateChannel ctl p s)"

definition EventLoop_removeChannel :: "'k epoll_ctl \<Rightarrow> nat \<Rightarrow> ('k, 'cb) KaPoller \<Rightarrow>
    cxx_error + ('k, 'cb) KaPoller" where
  "EventLoop_removeChannel ctl p s =
     with_chan s p (\<lambda>c.
       if ch_loop c \<noteq> m_ownerLoop s then Inr s else KaPoller_removeChannel ctl p s)"

definition EventLoop_hasChannel :: "('k, 'cb) KaPoller \<Rightarrow> nat \<Rightarrow> cxx_error + bool" where
  "EventLoop_hasChannel s p =
     with_chan s p (\<lambda>c. if ch_loop c \<noteq> m_ownerLoop s then Inr False else KaPoller_hasChannel s p)"

text \<open>The operations of a channel that change its events and call \<open>update\<close>.\<close>

definition set_events :: "'k epoll_ctl \<Rightarrow> (u32 \<Rightarrow> u32) \<Rightarrow> nat \<Rightarrow> ('k, 'cb) KaPoller \<Rightarrow>
    cxx_error + (bool \<times> ('k, 'cb) KaPoller)" where
  "set_events ctl f p s =
     with_chan s p (\<lambda>c. EventLoop_updateChannel ctl p (put_chan p (c\<lparr>m_events := f (m_events c)\<rparr>) s))"

definition enableReading :: "'k epoll_ctl \<Rightarrow> nat \<Rightarrow> ('k, 'cb) KaPoller \<Rightarrow> cxx_error + (bool \<times> ('k, 'cb) KaPoller)" where
  "enableReading ctl p s = set_events ctl (\<lambda>e. e OR ReadEvent) p s"

definition disableReading :: "'k epoll_ctl \<Rightarrow> nat \<Rightarrow> ('k, 'cb) KaPoller \<Rightarrow> cxx_error + (bool \<times> ('k, 'cb) KaPoller)" where
  "disableReading ctl p s = set_events ctl (\<lambda>e. e AND NOT ReadEvent) p s"

definition enableWriting :: "'k epoll_ctl \<Rightarrow> nat \<Rightarrow> ('k, 'cb) KaPoller \<Rightarrow> cxx_error + (bool \<times> ('k, 'cb) KaPoller)" where
  "enableWriting ctl p s = set_events ctl (\<lambda>e. e OR WriteEvent) p s"

definition disableWriting :: "'k epoll_ctl \<Rightarrow> nat \<Rightarrow> ('k, 'cb) KaPoller \<Rightarrow> cxx_error + (bool \<times> ('k, 'cb) KaPoller)" where
  "disableWriting ctl p s = set_events ctl (\<lambda>e. e AND NOT WriteEvent) p s"

definition disableAll :: "'k epoll_ctl \<Rightarrow> nat \<Rightarrow> ('k, 'cb) KaPoller \<Rightarrow> cxx_error + (bool \<times> ('k, 'cb) KaPoller)" where
  "disableAll ctl p s = set_events ctl (\<lambda>e. NoneEvent) p s"

lemmas channel_op_defs = enableReading_def disableReading_def enableWriting_def disableWriting_def
  disableAll_def

lemma with_chan_Some [simp]: "chans s p = Some c \<Longrightarrow> with_chan s p f = f c"
  by (simp add: with_chan_def)

lemma with_chan_Inr: "with_chan s p f = Inr x \<longleftrightarrow> (\<exists>c. chans s p = Some c \<and> f c = Inr x)"
  by (simp add: with_chan_def split: option.split)

lemma put_chan_simps [simp]:
  "chans (put_chan p c s) = (chans s)(p \<mapsto> c)" "m_channels (put_chan p c s) = m_channels s"
  "kernel (put_chan p c s) = kernel s" "m_ownerLoop (put_chan p c s) = m_ownerLoop s"
  "m_eventList (put_chan p c s) = m_eventList s"
  by (simp_all add: put_chan_def)

lemma setIndex_simps [simp]:
  "m_fd (setIndex i c) = m_fd c" "m_index (setIndex i c) = i" "m_events (setIndex i c) = m_events c"
  "ch_loop (setIndex i c) = ch_loop c"
  by (simp_all add: setIndex_def)

lemma index_distinct [simp]: "KNew \<noteq> KAdded" "KAdded \<noteq> KNew" "KNew \<noteq> KDeleted" "KDeleted \<noteq> KNew"
  "KAdded \<noteq> KDeleted" "KDeleted \<noteq> KAdded"
  by (simp_all add: KNew_def KAdded_def KDeleted_def)

lemma KaPoller_update_eq: "chans s p = Some c \<Longrightarrow> KaPoller_update ctl operation p s =
    Inr (fst (ctl (kernel s) operation (m_fd c) (m_events c, p)),
         s\<lparr>kernel := snd (ctl (kernel s) operation (m_fd c) (m_events c, p))\<rparr>)"
  by (simp add: KaPoller_update_def split: prod.split)


lemma set_events_returns: "chans s p = Some c \<Longrightarrow> \<exists>ok s'. set_events ctl f p s = Inr (ok, s')"
  by (auto simp: set_events_def EventLoop_updateChannel_def KaPoller_updateChannel_def KaPoller_update_def put_chan_def
      bind_r_def with_chan_def split: prod.splits)

section \<open>What is registered\<close>

text \<open>The documented behaviour of \<open>epoll_ctl\<close>, over the interest list \<open>interest\<close> of the kernel: a
  call that succeeds found the descriptor absent (\<open>ADD\<close>) or present and sets its entry, one that
  fails changes nothing, and \<open>DEL\<close> of a present descriptor succeeds.\<close>

definition epoll_contract :: "'k epoll_ctl \<Rightarrow> ('k \<Rightarrow> fd \<Rightarrow> epoll_event option) \<Rightarrow> bool" where
  "epoll_contract ctl interest \<longleftrightarrow> (\<forall>k operation fd ev.
     (if fst (ctl k operation fd ev)
      then (interest k fd = None \<longleftrightarrow> operation = EPOLL_CTL_ADD) \<and>
        interest (snd (ctl k operation fd ev)) =
          (interest k)(fd := if operation = EPOLL_CTL_DEL then None else Some ev)
      else interest (snd (ctl k operation fd ev)) = interest k \<and>
        (operation = EPOLL_CTL_DEL \<longrightarrow> interest k fd = None)))"

lemma epoll_contract_okD:
  assumes "epoll_contract ctl interest" and "fst (ctl k operation fd ev)"
  shows "interest (snd (ctl k operation fd ev)) =
      (interest k)(fd := if operation = EPOLL_CTL_DEL then None else Some ev)"
  using assms unfolding epoll_contract_def by metis

lemma epoll_contract_failD:
  assumes "epoll_contract ctl interest" and "\<not> fst (ctl k operation fd ev)"
  shows "interest (snd (ctl k operation fd ev)) = interest k"
    and "operation = EPOLL_CTL_DEL \<Longrightarrow> interest k fd = None"
  using assms unfolding epoll_contract_def by metis+

text \<open>Every descriptor in the map belongs to its channel, which is added or deleted; the kernel
  holds no pointer but that of an added channel registered for the descriptor.\<close>

definition poller_inv :: "('k \<Rightarrow> fd \<Rightarrow> epoll_event option) \<Rightarrow> ('k, 'cb) KaPoller \<Rightarrow> bool" where
  "poller_inv interest s \<longleftrightarrow>
     (\<forall>fd p. m_channels s fd = Some p \<longrightarrow>
        (\<exists>c. chans s p = Some c \<and> m_fd c = fd \<and> (m_index c = KAdded \<or> m_index c = KDeleted))) \<and>
     (\<forall>fd ev p. interest (kernel s) fd = Some (ev, p) \<longrightarrow>
        m_channels s fd = Some p \<and> (\<exists>c. chans s p = Some c \<and> m_index c = KAdded))"

lemma poller_inv_channels:
  "poller_inv interest s \<Longrightarrow> m_channels s fd = Some p \<Longrightarrow>
   \<exists>c. chans s p = Some c \<and> m_fd c = fd \<and> (m_index c = KAdded \<or> m_index c = KDeleted)"
  by (simp add: poller_inv_def)

lemma poller_inv_interest:
  "poller_inv interest s \<Longrightarrow> interest (kernel s) fd = Some (ev, p) \<Longrightarrow>
   m_channels s fd = Some p \<and> (\<exists>c. chans s p = Some c \<and> m_fd c = fd \<and> m_index c = KAdded)"
  unfolding poller_inv_def by (metis option.inject)

lemma poller_invI:
  assumes "\<And>fd p. m_channels s fd = Some p \<Longrightarrow>
      \<exists>c. chans s p = Some c \<and> m_fd c = fd \<and> (m_index c = KAdded \<or> m_index c = KDeleted)"
    and "\<And>fd ev p. interest (kernel s) fd = Some (ev, p) \<Longrightarrow>
      m_channels s fd = Some p \<and> (\<exists>c. chans s p = Some c \<and> m_index c = KAdded)"
  shows "poller_inv interest s"
  using assms by (simp add: poller_inv_def)

text \<open>Replacing the entry of a descriptor whose channel is \<open>p\<close>.\<close>

lemma poller_inv_entry:
  assumes inv: "poller_inv interest s" and c: "chans s p = Some c"
    and map: "m_channels s (m_fd c) = Some p \<or> m_channels s (m_fd c) = None"
    and s': "chans s' = (chans s)(p \<mapsto> c')" "m_channels s' = (m_channels s)(m_fd c \<mapsto> p)"
      "interest (kernel s') = (interest (kernel s))(m_fd c := e)"
    and c': "m_fd c' = m_fd c" "m_index c' = KAdded \<or> m_index c' = KDeleted"
    and e: "\<And>ev q. e = Some (ev, q) \<Longrightarrow> q = p \<and> m_index c' = KAdded"
  shows "poller_inv interest s'"
proof (rule poller_invI)
  have other: "m_channels s fd = Some p \<Longrightarrow> fd = m_fd c" for fd
    using poller_inv_channels [OF inv, of fd p] c by auto
  fix fd q
  assume q: "m_channels s' fd = Some q"
  show "\<exists>d. chans s' q = Some d \<and> m_fd d = fd \<and> (m_index d = KAdded \<or> m_index d = KDeleted)"
  proof (cases "fd = m_fd c")
    case True
    with q have "q = p" by (simp add: s')
    with True c' show ?thesis by (simp add: s')
  next
    case False
    with q have q': "m_channels s fd = Some q" by (simp add: s')
    with False other have "q \<noteq> p" by blast
    with poller_inv_channels [OF inv q'] show ?thesis by (simp add: s')
  qed
next
  fix fd ev q
  assume i: "interest (kernel s') fd = Some (ev, q)"
  show "m_channels s' fd = Some q \<and> (\<exists>d. chans s' q = Some d \<and> m_index d = KAdded)"
  proof (cases "fd = m_fd c")
    case True
    then show ?thesis using e [of ev q] i by (simp add: s')
  next
    case False
    with i have "interest (kernel s) fd = Some (ev, q)" by (simp add: s')
    from poller_inv_interest [OF inv this] False c show ?thesis by (auto simp: s')
  qed
qed

lemma fd_of_registered:
  "poller_inv interest s \<Longrightarrow> interest (kernel s) fd = None \<or> (\<exists>ev p. interest (kernel s) fd = Some (ev, p) \<and> m_channels s fd = Some p)"
  using poller_inv_interest by (metis option.exhaust surj_pair)

text \<open>\<open>updateChannel\<close>: the outcome on each path.\<close>

lemma updateChannel_spec:
  assumes con: "epoll_contract ctl interest" and inv: "poller_inv interest s"
    and c: "chans s p = Some c" and upd: "KaPoller_updateChannel ctl p s = Inr (ok, s')"
  shows "poller_inv interest s' \<and>
    (ok \<longrightarrow> m_channels s' = (m_channels s)(m_fd c \<mapsto> p) \<and> interest (kernel s') = (interest (kernel s))(m_fd c :=
        if m_index c = KAdded \<and> isNonEvent c then None else Some (m_events c, p))) \<and>
    (\<not> ok \<longrightarrow> interest (kernel s') = interest (kernel s))"
proof -
  let ?fd = "m_fd c" and ?ev = "(m_events c, p)"
  consider (new) "m_index c = KNew" "m_channels s ?fd = None"
    | (deleted) "m_index c = KDeleted" "m_channels s ?fd = Some p"
    | (del) "m_index c = KAdded" "m_channels s ?fd = Some p" "isNonEvent c"
    | (modify) "m_index c = KAdded" "m_channels s ?fd = Some p" "\<not> isNonEvent c"
    | (refused) "ok = False" "s' = s"
    using upd c by (auto simp: KaPoller_updateChannel_def split: if_splits)
  then show ?thesis
  proof cases
    case new
    let ?s1 = "put_chan p (setIndex KAdded c) (s\<lparr>m_channels := (m_channels s)(?fd \<mapsto> p)\<rparr>)"
    have upd': "ok = fst (ctl (kernel s) EPOLL_CTL_ADD ?fd ?ev)"
        "s' = ?s1\<lparr>kernel := snd (ctl (kernel s) EPOLL_CTL_ADD ?fd ?ev)\<rparr>"
      using upd c new by (auto simp: KaPoller_updateChannel_def KaPoller_update_eq)
    have none: "interest (kernel s) ?fd = None" using fd_of_registered [OF inv, of ?fd] new by simp
    define e where "e = interest (kernel s') ?fd"
    have k: "interest (kernel s') = (interest (kernel s))(?fd := if ok then Some ?ev else None)"
      using epoll_contract_okD [OF con, of "kernel s" EPOLL_CTL_ADD ?fd ?ev] none
        epoll_contract_failD(1) [OF con, of "kernel s" EPOLL_CTL_ADD ?fd ?ev]
      by (cases ok) (auto simp: upd')
    have "poller_inv interest s'"
      by (rule poller_inv_entry [OF inv c _ _ _ k, of "setIndex KAdded c"])
         (use new in \<open>auto simp: upd'(2) split: if_splits\<close>)
    with k new none show ?thesis by (auto simp: upd'(2))
  next
    case deleted
    let ?s1 = "put_chan p (setIndex KAdded c) s"
    have upd': "ok = fst (ctl (kernel s) EPOLL_CTL_ADD ?fd ?ev)"
        "s' = ?s1\<lparr>kernel := snd (ctl (kernel s) EPOLL_CTL_ADD ?fd ?ev)\<rparr>"
      using upd c deleted by (auto simp: KaPoller_updateChannel_def KaPoller_update_eq)
    have none: "interest (kernel s) ?fd = None"
      using poller_inv_interest [OF inv, of ?fd] deleted c by (cases "interest (kernel s) ?fd") auto
    have k: "interest (kernel s') = (interest (kernel s))(?fd := if ok then Some ?ev else None)"
      using epoll_contract_okD [OF con, of "kernel s" EPOLL_CTL_ADD ?fd ?ev] none
        epoll_contract_failD(1) [OF con, of "kernel s" EPOLL_CTL_ADD ?fd ?ev]
      by (cases ok) (auto simp: upd')
    have "poller_inv interest s'"
      by (rule poller_inv_entry [OF inv c _ _ _ k, of "setIndex KAdded c"])
         (use deleted in \<open>auto simp: upd'(2) split: if_splits\<close>)
    with k deleted none show ?thesis by (auto simp: upd'(2))
  next
    case del
    have upd': "ok = fst (ctl (kernel s) EPOLL_CTL_DEL ?fd ?ev)"
        "s' = (if ok then put_chan p (setIndex KDeleted c)
                 (s\<lparr>kernel := snd (ctl (kernel s) EPOLL_CTL_DEL ?fd ?ev)\<rparr>)
               else s\<lparr>kernel := snd (ctl (kernel s) EPOLL_CTL_DEL ?fd ?ev)\<rparr>)"
      using upd c del by (auto simp: KaPoller_updateChannel_def KaPoller_update_eq split: if_splits)
    show ?thesis
    proof (cases ok)
      case True
      then have k: "interest (kernel s') = (interest (kernel s))(?fd := None)"
        using epoll_contract_okD [OF con, of "kernel s" EPOLL_CTL_DEL ?fd ?ev] upd' by simp
      have "poller_inv interest s'"
        by (rule poller_inv_entry [OF inv c _ _ _ k, of "setIndex KDeleted c"])
           (use del True in \<open>auto simp: upd'(2) fun_upd_idem\<close>)
      with k del True show ?thesis by (auto simp: upd'(2) fun_upd_idem)
    next
      case False
      then have k: "interest (kernel s') = interest (kernel s)"
        using epoll_contract_failD(1) [OF con, of "kernel s" EPOLL_CTL_DEL ?fd ?ev] upd' by simp
      then have "poller_inv interest s'" using inv False by (simp add: upd'(2) poller_inv_def)
      with k False show ?thesis by simp
    qed
  next
    case modify
    have upd': "ok = fst (ctl (kernel s) EPOLL_CTL_MOD ?fd ?ev)"
        "s' = s\<lparr>kernel := snd (ctl (kernel s) EPOLL_CTL_MOD ?fd ?ev)\<rparr>"
      using upd c modify by (auto simp: KaPoller_updateChannel_def KaPoller_update_eq)
    show ?thesis
    proof (cases ok)
      case True
      then have k: "interest (kernel s') = (interest (kernel s))(?fd := Some ?ev)"
        using epoll_contract_okD [OF con, of "kernel s" EPOLL_CTL_MOD ?fd ?ev] upd' by simp
      have "poller_inv interest s'"
        by (rule poller_inv_entry [OF inv c _ _ _ k, of c])
           (use modify c in \<open>auto simp: upd'(2) fun_upd_idem\<close>)
      with k modify True show ?thesis by (auto simp: upd'(2) fun_upd_idem)
    next
      case False
      then have k: "interest (kernel s') = interest (kernel s)"
        using epoll_contract_failD(1) [OF con, of "kernel s" EPOLL_CTL_MOD ?fd ?ev] upd' by simp
      then have "poller_inv interest s'" using inv False by (simp add: upd'(2) poller_inv_def)
      with k False show ?thesis by simp
    qed
  next
    case refused
    with inv show ?thesis by simp
  qed
qed


lemma poller_inv_same_index:
  assumes "poller_inv interest s" and "chans s p = Some c"
    and "m_fd c' = m_fd c" and "m_index c' = m_index c"
  shows "poller_inv interest (put_chan p c' s)"
proof (rule poller_invI)
  fix fd q
  assume "m_channels (put_chan p c' s) fd = Some q"
  then show "\<exists>d. chans (put_chan p c' s) q = Some d \<and> m_fd d = fd \<and>
      (m_index d = KAdded \<or> m_index d = KDeleted)"
    using poller_inv_channels [OF assms(1), of fd q] assms by (cases "q = p") simp_all
next
  fix fd ev q
  assume "interest (kernel (put_chan p c' s)) fd = Some (ev, q)"
  then show "m_channels (put_chan p c' s) fd = Some q \<and>
      (\<exists>d. chans (put_chan p c' s) q = Some d \<and> m_index d = KAdded)"
    using poller_inv_interest [OF assms(1), of fd ev q] assms by (cases "q = p") auto
qed

lemma set_events_spec:
  assumes con: "epoll_contract ctl interest" and inv: "poller_inv interest s"
    and c: "chans s p = Some c" and upd: "set_events ctl f p s = Inr (ok, s')"
  shows "poller_inv interest s' \<and>
    (ok \<longrightarrow> m_channels s' = (m_channels s)(m_fd c \<mapsto> p) \<and> interest (kernel s') = (interest (kernel s))(m_fd c :=
        if m_index c = KAdded \<and> f (m_events c) = NoneEvent then None else Some (f (m_events c), p))) \<and>
    (\<not> ok \<longrightarrow> interest (kernel s') = interest (kernel s))"
proof -
  let ?c = "c\<lparr>m_events := f (m_events c)\<rparr>" and ?s = "put_chan p (c\<lparr>m_events := f (m_events c)\<rparr>) s"
  have inv': "poller_inv interest ?s" by (rule poller_inv_same_index [OF inv c]) simp_all
  have c': "chans ?s p = Some ?c" by simp
  show ?thesis
  proof (cases "ch_loop c = m_ownerLoop s")
    case True
    then have "KaPoller_updateChannel ctl p ?s = Inr (ok, s')"
      using upd c by (simp add: set_events_def EventLoop_updateChannel_def)
    from updateChannel_spec [OF con inv' c' this] show ?thesis
      by (simp add: isNonEvent_def)
  next
    case False
    then show ?thesis using upd c inv' by (auto simp: set_events_def EventLoop_updateChannel_def)
  qed
qed

lemma removeChannel_spec:
  assumes con: "epoll_contract ctl interest" and inv: "poller_inv interest s"
    and c: "chans s p = Some c" and rem: "KaPoller_removeChannel ctl p s = Inr s'"
  shows "poller_inv interest s' \<and>
    (if m_channels s (m_fd c) = Some p \<and> isNonEvent c
     then m_channels s' = (m_channels s)(m_fd c := None) \<and>
       interest (kernel s') = (interest (kernel s))(m_fd c := None) \<and>
       chans s' = (chans s)(p \<mapsto> setIndex KNew c)
     else s' = s)"
proof (cases "m_channels s (m_fd c) = Some p \<and> isNonEvent c")
  case False
  then show ?thesis using rem c inv by (auto simp: KaPoller_removeChannel_def split: if_splits)
next
  case True
  let ?fd = "m_fd c" and ?ev = "(m_events c, p)"
  have idx: "m_index c = KAdded \<or> m_index c = KDeleted"
    using poller_inv_channels [OF inv, of ?fd p] True c by auto
  have none: "m_index c = KDeleted \<Longrightarrow> interest (kernel s) ?fd = None"
    using poller_inv_interest [OF inv, of ?fd] True c by (cases "interest (kernel s) ?fd") auto
  have eqs: "m_channels s' = (m_channels s)(?fd := None)" "chans s' = (chans s)(p \<mapsto> setIndex KNew c)"
      "kernel s' = (if m_index c = KAdded then snd (ctl (kernel s) EPOLL_CTL_DEL ?fd ?ev) else kernel s)"
    using rem c True idx by (auto simp: KaPoller_removeChannel_def KaPoller_update_eq Let_def)
  have k: "interest (kernel s') = (interest (kernel s))(?fd := None)"
    using epoll_contract_okD [OF con, of "kernel s" EPOLL_CTL_DEL ?fd ?ev]
      epoll_contract_failD [OF con, of "kernel s" EPOLL_CTL_DEL ?fd ?ev] none idx
    by (cases "fst (ctl (kernel s) EPOLL_CTL_DEL ?fd ?ev)") (auto simp: eqs fun_upd_idem)
  have "poller_inv interest s'"
  proof (rule poller_invI)
    fix fd q
    assume "m_channels s' fd = Some q"
    then have q: "m_channels s fd = Some q" "fd \<noteq> ?fd" by (auto simp: eqs split: if_splits)
    with poller_inv_channels [OF inv q(1)] c
    show "\<exists>d. chans s' q = Some d \<and> m_fd d = fd \<and> (m_index d = KAdded \<or> m_index d = KDeleted)"
      by (auto simp: eqs)
  next
    fix fd ev q
    assume "interest (kernel s') fd = Some (ev, q)"
    then have q: "interest (kernel s) fd = Some (ev, q)" "fd \<noteq> ?fd" by (auto simp: k split: if_splits)
    with poller_inv_interest [OF inv q(1)] c
    show "m_channels s' fd = Some q \<and> (\<exists>d. chans s' q = Some d \<and> m_index d = KAdded)"
      by (auto simp: eqs)
  qed
  with k eqs True show ?thesis by simp
qed

subsection \<open>Delivering events\<close>

text \<open>The store after setting the reported events of a list of reports.\<close>

definition set_revents :: "epoll_event list \<Rightarrow> ('k, 'cb) KaPoller \<Rightarrow> ('k, 'cb) KaPoller" where
  "set_revents evs s = foldl (\<lambda>s e. case chans s (snd e) of None \<Rightarrow> s
     | Some c \<Rightarrow> put_chan (snd e) (set_revent (fst e) c) s) s evs"

definition registered :: "('k, 'cb) KaPoller \<Rightarrow> nat \<Rightarrow> bool" where
  "registered s p \<longleftrightarrow> (case chans s p of None \<Rightarrow> False | Some c \<Rightarrow> m_channels s (m_fd c) = Some p)"

lemma registered_set_revent [simp]:
  "chans s p = Some c \<Longrightarrow> registered (put_chan p (set_revent r c) s) q = registered s q"
  by (auto simp: registered_def set_revent_def split: option.split)

lemma fillActive_registered:
  "\<forall>e \<in> set evs. registered s (snd e) \<Longrightarrow> fillActiveChannel evs s = Inr (map snd evs, set_revents evs s)"
proof (induction evs arbitrary: s)
  case Nil
  then show ?case by (simp add: set_revents_def)
next
  case (Cons e evs)
  then obtain c where c: "chans s (snd e) = Some c" "m_channels s (m_fd c) = Some (snd e)"
    by (auto simp: registered_def split: option.splits)
  then have "fillActiveChannel evs (put_chan (snd e) (set_revent (fst e) c) s)
      = Inr (map snd evs, set_revents evs (put_chan (snd e) (set_revent (fst e) c) s))"
    using Cons by simp
  with c show ?case by (simp add: set_revents_def)
qed

text \<open>One unregistered channel ends the delivery: the events reported after it are dropped.\<close>

lemma fillActive_stops:
  assumes "\<forall>e \<in> set evs. registered s (snd e)" and "chans s (snd e) = Some c" and "\<not> registered s (snd e)"
  shows "\<exists>s'. fillActiveChannel (evs @ e # es) s = Inr (map snd evs, s')"
  using assms
proof (induction evs arbitrary: s c)
  case Nil
  then show ?case by (simp add: registered_def)
next
  case (Cons d evs)
  then obtain c' where c': "chans s (snd d) = Some c'" "m_channels s (m_fd c') = Some (snd d)"
    by (auto simp: registered_def split: option.splits)
  let ?s = "put_chan (snd d) (set_revent (fst d) c') s"
  have "snd e \<noteq> snd d" using Cons.prems by auto
  then obtain s' where "fillActiveChannel (evs @ e # es) ?s = Inr (map snd evs, s')"
    using Cons.IH [of ?s c] Cons.prems c' by auto
  with c' show ?case by simp
qed

lemma set_revents_simps [simp]:
  "m_channels (set_revents evs s) = m_channels s" "kernel (set_revents evs s) = kernel s"
  "m_eventList (set_revents evs s) = m_eventList s" "m_ownerLoop (set_revents evs s) = m_ownerLoop s"
  by (induction evs arbitrary: s) (auto simp: set_revents_def split: option.splits)

lemma interest_registered:
  "poller_inv interest s \<Longrightarrow> interest (kernel s) fd = Some (ev, p) \<Longrightarrow> registered s p"
  using poller_inv_interest by (fastforce simp: registered_def)


section \<open>Programs that use channels\<close>

text \<open>The pollers of one loop that the code can reach: channels are constructed at unused
  addresses, change their events and their other fields, are removed, polled and destroyed.\<close>

inductive poller_reach :: "'k epoll_ctl \<Rightarrow> nat \<Rightarrow> 'k \<Rightarrow> ('k, 'cb) KaPoller \<Rightarrow> bool" for ctl loop k0 where
  pr_new: "poller_reach ctl loop k0 (KaPoller_new loop k0 Map.empty)"
| pr_channel: "poller_reach ctl loop k0 s \<Longrightarrow> chans s p = None \<Longrightarrow>
    poller_reach ctl loop k0 (put_chan p (KaChannel_new loop fd) s)"
| pr_field: "poller_reach ctl loop k0 s \<Longrightarrow> chans s p = Some c \<Longrightarrow>
    c' \<in> {setReadCallback cb c, setWriteCallback cb c, setCloseCallback cb c, setErrorCallback cb c,
      set_revent r c, add_revent r c, KaChannel_tie obj c, KaChannel_remove c} \<Longrightarrow>
    poller_reach ctl loop k0 (put_chan p c' s)"
| pr_enableReading: "poller_reach ctl loop k0 s \<Longrightarrow> enableReading ctl p s = Inr (ok, s') \<Longrightarrow> poller_reach ctl loop k0 s'"
| pr_disableReading: "poller_reach ctl loop k0 s \<Longrightarrow> disableReading ctl p s = Inr (ok, s') \<Longrightarrow> poller_reach ctl loop k0 s'"
| pr_enableWriting: "poller_reach ctl loop k0 s \<Longrightarrow> enableWriting ctl p s = Inr (ok, s') \<Longrightarrow> poller_reach ctl loop k0 s'"
| pr_disableWriting: "poller_reach ctl loop k0 s \<Longrightarrow> disableWriting ctl p s = Inr (ok, s') \<Longrightarrow> poller_reach ctl loop k0 s'"
| pr_disableAll: "poller_reach ctl loop k0 s \<Longrightarrow> disableAll ctl p s = Inr (ok, s') \<Longrightarrow> poller_reach ctl loop k0 s'"
| pr_update: "poller_reach ctl loop k0 s \<Longrightarrow> EventLoop_updateChannel ctl p s = Inr (ok, s') \<Longrightarrow> poller_reach ctl loop k0 s'"
| pr_remove: "poller_reach ctl loop k0 s \<Longrightarrow> EventLoop_removeChannel ctl p s = Inr s' \<Longrightarrow> poller_reach ctl loop k0 s'"
| pr_poll: "poller_reach ctl loop k0 s \<Longrightarrow> KaPoller_poll r now s = Inr (t, active, e, s') \<Longrightarrow> poller_reach ctl loop k0 s'"
| pr_destroy: "poller_reach ctl loop k0 s \<Longrightarrow> poller_reach ctl loop k0 (s\<lparr>chans := (chans s)(p := None)\<rparr>)"

text \<open>The constructor gives a channel the index of an added one, which \<open>updateChannel\<close> then looks for
  in the map in vain: a poller whose channels all came from it never registers any.\<close>

definition unregistered :: "'k \<Rightarrow> ('k, 'cb) KaPoller \<Rightarrow> bool" where
  "unregistered k0 s \<longleftrightarrow> m_channels s = Map.empty \<and> kernel s = k0 \<and>
     (\<forall>p c. chans s p = Some c \<longrightarrow> m_index c = KAdded)"

lemma unregistered_put: "unregistered k0 s \<Longrightarrow> m_index c = KAdded \<Longrightarrow> unregistered k0 (put_chan p c s)"
  by (simp add: unregistered_def)

lemma unregistered_update:
  "unregistered k0 s \<Longrightarrow> EventLoop_updateChannel ctl p s = Inr (ok, s') \<Longrightarrow> \<not> ok \<and> s' = s"
  by (auto simp: unregistered_def EventLoop_updateChannel_def KaPoller_updateChannel_def with_chan_Inr
      split: if_splits)

lemma unregistered_set_events:
  assumes "unregistered k0 s" and "set_events ctl f p s = Inr (ok, s')"
  shows "\<not> ok \<and> unregistered k0 s'"
proof -
  obtain c where c: "chans s p = Some c" using assms(2) by (auto simp: set_events_def with_chan_Inr)
  let ?s = "put_chan p (c\<lparr>m_events := f (m_events c)\<rparr>) s"
  have "unregistered k0 ?s"
    by (rule unregistered_put [OF assms(1)]) (use assms(1) c in \<open>simp add: unregistered_def\<close>)
  with unregistered_update [of k0 ?s ctl p ok s'] assms(2) c show ?thesis
    by (auto simp: set_events_def)
qed

lemma unregistered_refuses:
  assumes "unregistered k0 q" and "chans q p = Some d"
  shows "\<exists>q'. set_events ctl h p q = Inr (False, q') \<and> unregistered k0 q' \<and> (\<exists>d'. chans q' p = Some d')"
proof -
  have "set_events ctl h p q = Inr (False, put_chan p (d\<lparr>m_events := h (m_events d)\<rparr>) q)"
    using assms by (auto simp: set_events_def EventLoop_updateChannel_def KaPoller_updateChannel_def unregistered_def)
  then show ?thesis using unregistered_set_events [OF assms(1)] by auto
qed

lemma unregistered_remove:
  "unregistered k0 s \<Longrightarrow> EventLoop_removeChannel ctl p s = Inr s' \<Longrightarrow> s' = s"
  by (auto simp: unregistered_def EventLoop_removeChannel_def KaPoller_removeChannel_def with_chan_Inr
      split: if_splits)

lemma unregistered_poll:
  assumes un: "unregistered k0 s" and "KaPoller_poll r now s = Inr (t, active, e, s')"
  shows "unregistered k0 s' \<and> active = []"
proof (cases r)
  case (Wait_Error x)
  with assms show ?thesis by (auto simp: KaPoller_poll_def)
next
  case (Wait_Events evs)
  show ?thesis
  proof (cases evs)
    case Nil
    with assms Wait_Events show ?thesis by (auto simp: KaPoller_poll_def split: if_splits)
  next
    case (Cons x xs)
    let ?s = "s\<lparr>m_eventList := splice_at 0 evs (m_eventList s)\<rparr>"
    have fill: "fillActiveChannel evs ?s = Inr (a, s1) \<Longrightarrow> a = [] \<and> s1 = ?s" for a s1
      using un Cons by (auto simp: with_chan_Inr unregistered_def split: if_splits)
    then show ?thesis
      using assms Wait_Events Cons
      by (auto simp: KaPoller_poll_def unregistered_def bind_r_eq_Inr split: if_splits dest!: fill)
  qed
qed

lemma poller_reach_unregistered: "poller_reach ctl loop k0 s \<Longrightarrow> unregistered k0 s"
proof (induction rule: poller_reach.induct)
  case pr_new
  then show ?case by (simp add: unregistered_def KaPoller_new_def)
next
  case (pr_channel s p fd)
  then show ?case by (simp add: unregistered_put KaChannel_new_def)
next
  case (pr_field s p c c' cb r obj)
  then have "m_index c' = m_index c"
    by (auto simp: setReadCallback_def setWriteCallback_def setCloseCallback_def setErrorCallback_def
        set_revent_def add_revent_def KaChannel_tie_def KaChannel_remove_def)
  with pr_field show ?case by (intro unregistered_put) (simp_all add: unregistered_def)
next
  case (pr_update s p ok s')
  then show ?case using unregistered_update by metis
next
  case (pr_remove s p s')
  then show ?case using unregistered_remove by metis
next
  case (pr_poll s r now t active e s')
  then show ?case using unregistered_poll by metis
next
  case (pr_destroy s p)
  then show ?case by (simp add: unregistered_def)
qed (auto simp: channel_op_defs dest: unregistered_set_events)


text \<open>A kernel that is just its interest list and refuses only illegal calls.\<close>

definition map_ctl :: "(fd \<Rightarrow> epoll_event option) epoll_ctl" where
  "map_ctl k operation fd ev =
     (if (k fd = None) = (operation = EPOLL_CTL_ADD)
      then (True, k(fd := if operation = EPOLL_CTL_DEL then None else Some ev))
      else (False, k))"

lemma map_ctl_contract: "epoll_contract map_ctl (\<lambda>k. k)"
  by (auto simp: epoll_contract_def map_ctl_def)

definition demo_poller :: "int \<Rightarrow> (fd \<Rightarrow> epoll_event option, nat) KaPoller" where
  "demo_poller index = put_chan 7 (setIndex index (KaChannel_new 1 5)) (KaPoller_new 1 Map.empty Map.empty)"

lemma demo_poller_inv: "poller_inv (\<lambda>k. k) (demo_poller index)"
  by (simp add: poller_inv_def demo_poller_def KaPoller_new_def)

lemma demo_poller_chan: "chans (demo_poller index) 7 = Some (setIndex index (KaChannel_new 1 5))"
  by (simp add: demo_poller_def)

lemma demo_poller_reached: "poller_reach map_ctl 1 Map.empty (demo_poller KAdded)"
  using pr_channel [OF pr_new [of map_ctl 1 Map.empty], of 7 5]
  by (simp add: demo_poller_def KaPoller_new_def setIndex_def KaChannel_new_def)

definition registered_poller :: "(fd \<Rightarrow> epoll_event option, nat) KaPoller" where
  "registered_poller = put_chan 7 (KaChannel_new 1 5)
     (KaPoller_new 1 [5 \<mapsto> (3, 7)] Map.empty\<lparr>m_channels := [5 \<mapsto> 7]\<rparr>)"

lemma registered_poller_inv: "poller_inv (\<lambda>k. k) registered_poller"
  by (rule poller_invI)
    (auto simp: registered_poller_def KaPoller_new_def KaChannel_new_def split: if_splits)

section \<open>Properties\<close>

text \<open>No channel is ever registered. The constructor initialises the index to \<open>KAdded\<close>, and
  \<open>updateChannel\<close> treats such a channel as one it must already know, so whatever a program does
  with its channels the poller's map and the kernel's interest list stay as they were created,
  every enabling of events is refused, and no call of \<open>poll\<close> returns an active channel.\<close>

theorem no_channel_is_ever_registered:
  assumes "poller_reach ctl loop k0 s"
  shows "m_channels s = Map.empty \<and> kernel s = k0 \<and>
    (\<forall>p ok s'. enableReading ctl p s = Inr (ok, s') \<or> enableWriting ctl p s = Inr (ok, s') \<longrightarrow> \<not> ok) \<and>
    (\<forall>r now t active e s'. KaPoller_poll r now s = Inr (t, active, e, s') \<longrightarrow> active = [])"
proof -
  have un: "unregistered k0 s" using assms by (rule poller_reach_unregistered)
  have "\<not> ok" if "enableReading ctl p s = Inr (ok, s') \<or> enableWriting ctl p s = Inr (ok, s')" for p ok s'
    using that unregistered_set_events [OF un, of ctl _ p ok s'] unfolding channel_op_defs by blast
  moreover have "active = []" if "KaPoller_poll r now s = Inr (t, active, e, s')" for r now t active e s'
    using unregistered_poll [OF un that] by simp
  ultimately show ?thesis using un unfolding unregistered_def by blast
qed

theorem no_channel_is_ever_registered_witness:
  "m_channels (demo_poller KAdded) = Map.empty \<and>
   (\<nexists>s'. enableReading map_ctl 7 (demo_poller KAdded) = Inr (True, s'))"
  using no_channel_is_ever_registered [OF demo_poller_reached] by blast

text \<open>C12. Whatever index its channels start from, a poller keeps its books: every descriptor in its
  map belongs to the channel it points to, and \<open>epoll\<close> holds only pointers to channels that are
  registered for that descriptor and marked added. A change of events that reports success makes
  the kernel's entry of that descriptor, and no other, the channel's events (or removes it when an
  added channel wants no events); one that reports failure leaves the kernel alone; removing a
  registered channel without events clears the map, the kernel and the index.\<close>

theorem poller_tracks_interest:
  assumes "epoll_contract ctl interest" and "poller_inv interest s" and "chans s p = Some c"
  shows "(\<forall>f ok s'. set_events ctl f p s = Inr (ok, s') \<longrightarrow> poller_inv interest s' \<and>
      (if ok then m_channels s' = (m_channels s)(m_fd c \<mapsto> p) \<and>
         interest (kernel s') = (interest (kernel s))(m_fd c :=
           if m_index c = KAdded \<and> f (m_events c) = NoneEvent then None else Some (f (m_events c), p))
       else interest (kernel s') = interest (kernel s))) \<and>
    (\<forall>s'. KaPoller_removeChannel ctl p s = Inr s' \<longrightarrow> poller_inv interest s' \<and>
      (if m_channels s (m_fd c) = Some p \<and> isNonEvent c
       then m_channels s' = (m_channels s)(m_fd c := None) \<and>
         interest (kernel s') = (interest (kernel s))(m_fd c := None) \<and>
         chans s' = (chans s)(p \<mapsto> setIndex KNew c)
       else s' = s))"
proof (intro conjI allI impI)
  fix s'
  assume rem: "KaPoller_removeChannel ctl p s = Inr s'"
  show "poller_inv interest s'" using removeChannel_spec [OF assms rem] ..
  show "if m_channels s (m_fd c) = Some p \<and> isNonEvent c
     then m_channels s' = (m_channels s)(m_fd c := None) \<and>
       interest (kernel s') = (interest (kernel s))(m_fd c := None) \<and>
       chans s' = (chans s)(p \<mapsto> setIndex KNew c)
     else s' = s"
    using removeChannel_spec [OF assms rem] ..
next
  fix f ok s'
  assume upd: "set_events ctl f p s = Inr (ok, s')"
  show "poller_inv interest s'" using set_events_spec [OF assms upd] ..
  show "if ok then m_channels s' = (m_channels s)(m_fd c \<mapsto> p) \<and>
         interest (kernel s') = (interest (kernel s))(m_fd c :=
           if m_index c = KAdded \<and> f (m_events c) = NoneEvent then None else Some (f (m_events c), p))
       else interest (kernel s') = interest (kernel s)"
    using set_events_spec [OF assms upd] by (cases ok) simp_all
qed

theorem poller_tracks_interest_witness:
  "\<exists>s'. enableReading map_ctl 7 (demo_poller KNew) = Inr (True, s') \<and> kernel s' 5 = Some (3, 7)"
proof -
  have "\<exists>s'. enableReading map_ctl 7 (demo_poller KNew) = Inr (True, s')"
    by (simp add: enableReading_def set_events_def EventLoop_updateChannel_def KaPoller_updateChannel_def
        KaPoller_update_def demo_poller_def KaPoller_new_def KaChannel_new_def setIndex_def map_ctl_def)
  then obtain s' where s': "enableReading map_ctl 7 (demo_poller KNew) = Inr (True, s')" ..
  then have "kernel s' = (kernel (demo_poller KNew))(5 \<mapsto> (3, 7))"
    using poller_tracks_interest [OF map_ctl_contract demo_poller_inv demo_poller_chan, of KNew]
    by (auto simp: enableReading_def KaChannel_new_def ReadEvent_def EPOLLIN_def EPOLLPRI_def)
  with s' show ?thesis by auto
qed

text \<open>C29. When \<open>epoll_wait\<close> reports entries of the interest list, at most as many as the event
  vector holds, \<open>poll\<close> hands all of them to the loop in order, and it doubles the vector exactly
  when the reports filled it, so that a burst larger than the vector is taken in full later.\<close>

theorem poll_delivers_reports:
  assumes "poller_inv interest s" and "length evs \<le> length (m_eventList s)" and "m_eventList s \<noteq> []"
    and "\<forall>e \<in> set evs. \<exists>fd ev. interest (kernel s) fd = Some (ev, snd e)"
  shows "\<exists>s'. KaPoller_poll (Wait_Events evs) now s = Inr (now, map snd evs, None, s') \<and>
    m_channels s' = m_channels s \<and> kernel s' = kernel s \<and>
    length (m_eventList s') =
      (if length evs = length (m_eventList s) then 2 * length (m_eventList s) else length (m_eventList s))"
proof -
  let ?s = "s\<lparr>m_eventList := splice_at 0 evs (m_eventList s)\<rparr>"
  have reg: "\<forall>e \<in> set evs. registered s (snd e)"
    using assms(4) interest_registered [OF assms(1)] by blast
  then have "\<forall>e \<in> set evs. registered ?s (snd e)" by (auto simp: registered_def split: option.splits)
  from fillActive_registered [OF this] show ?thesis
    using assms(2,3) by (auto simp: KaPoller_poll_def not_less)
qed

theorem poll_delivers_reports_witness:
  "\<exists>s'. KaPoller_poll (Wait_Events [(1, 7)]) (Timestamp 6) registered_poller = Inr (Timestamp 6, [7], None, s')"
proof -
  have "kernel registered_poller 5 = Some (3, 7)" "length (m_eventList registered_poller) = 16"
    by (simp_all add: registered_poller_def KaPoller_new_def InitEventList_def)
  then have "length [(1, 7) :: epoll_event] \<le> length (m_eventList registered_poller)" "m_eventList registered_poller \<noteq> []"
    "\<forall>e \<in> set [(1, 7) :: epoll_event]. \<exists>fd ev. kernel registered_poller fd = Some (ev, snd e)"
    by auto
  with poll_delivers_reports [where interest = "\<lambda>k. k" and s = registered_poller
      and evs = "[(1, 7)]" and now = "Timestamp 6"] registered_poller_inv
  have "\<exists>s'. KaPoller_poll (Wait_Events [(1, 7)]) (Timestamp 6) registered_poller
      = Inr (Timestamp 6, map snd [(1, 7) :: epoll_event], None, s')"
    by blast
  then show ?thesis by simp
qed

end
