(* ===== verification/EventLoops.thy ===== *)
theory EventLoops
  imports TimerQueues Pollers
begin

text \<open>
  \<open>src/Net/EventLoop.h\<close> and \<open>src/Net/EventLoop.cpp\<close>: the loop of a thread. A turn fires the due
  timers, polls, hands the events to the channels and calls the pending functors. What the system
  decides in a turn (the clock, the result of \<open>epoll_wait\<close>, which tied objects are alive, whether
  another thread calls \<open>quit\<close> meanwhile) is an argument of the turn. The list of turns given to
  \<open>loop\<close> is its fuel: the loop is asked to run that many turns.
\<close>

record ('k, 'cb) EventLoop =
  el_this :: nat
  m_looping :: bool
  m_quit :: bool
  m_eventHanding :: bool
  m_callingPendingFunctors :: bool
  m_threadId :: nat
  m_pollReturnTime :: Timestamp
  m_Poller :: "('k, 'cb) KaPoller"
  m_TimerQueue :: "'cb TimerQueue"
  m_interation :: int
  m_wakeupFd :: fd
  m_wakeUpChannel :: nat
  m_activeChannels :: "nat list"
  m_currentActiveChannel :: "nat option"
  m_pendingFunctors :: "'cb list"

datatype 'cb loop_event = Timer_Fired nat 'cb | Channel_Handled nat "'cb list" | Functor_Called 'cb

record turn =
  turn_clock :: Timestamp
  turn_wait :: epoll_wait_result
  turn_now :: Timestamp
  turn_alive :: "nat \<Rightarrow> bool"
  turn_quit :: bool

definition pollReturnTime :: "('k, 'cb) EventLoop \<Rightarrow> Timestamp" where
  "pollReturnTime l = m_pollReturnTime l"

definition iteration :: "('k, 'cb) EventLoop \<Rightarrow> int" where
  "iteration l = m_interation l"

definition eventhanding :: "('k, 'cb) EventLoop \<Rightarrow> bool" where
  "eventhanding l = m_eventHanding l"

definition getThreadID :: "('k, 'cb) EventLoop \<Rightarrow> nat" where
  "getThreadID l = m_threadId l"

section \<open>Construction and destruction\<close>

text \<open>\<open>createWakeUpFd\<close> with what \<open>eventfd\<close> returned, \<open>wakeUp\<close> and \<open>handleRead\<close> with the number of bytes
  \<open>write\<close> and \<open>read\<close> returned.\<close>

definition createWakeUpFd :: "int \<Rightarrow> fd \<times> bool" where
  "createWakeUpFd eventfd_ret = (eventfd_ret, \<not> eventfd_ret < 0)"

definition wakeUp :: "int \<Rightarrow> bool" where
  "wakeUp n = (if n \<noteq> 8 then False else True)"

definition wakeUp_handleRead :: "int \<Rightarrow> bool" where
  "wakeUp_handleRead n = (if n \<noteq> 8 then False else True)"

text \<open>The constructor of the loop at address \<open>this\<close>: the wake-up channel is at address \<open>wp\<close>, \<open>k\<close> is the
  kernel after \<open>epoll_create\<close>, \<open>cb\<close> the callback bound to \<open>handleRead\<close>, and \<open>cur\<close> the thread's
  \<open>t_loopThisThead\<close>. The result has the new value of \<open>t_loopThisThead\<close> and whether the message about
  another loop was printed.\<close>

definition EventLoop_new :: "'k epoll_ctl \<Rightarrow> nat \<Rightarrow> nat \<Rightarrow> nat \<Rightarrow> int \<Rightarrow> 'k \<Rightarrow> 'cb \<Rightarrow> nat option \<Rightarrow>
    cxx_error + (('k, 'cb) EventLoop \<times> nat option \<times> bool)" where
  "EventLoop_new ctl this thread wp eventfd_ret k cb cur =
     (let wfd = fst (createWakeUpFd eventfd_ret);
          p0 = put_chan wp (setReadCallback cb (KaChannel_new this wfd)) (KaPoller_new this k Map.empty)
      in bind_r (enableReading ctl wp p0) (\<lambda>(_, p1).
        Inr (\<lparr>el_this = this, m_looping = False, m_quit = False, m_eventHanding = False,
              m_callingPendingFunctors = False, m_threadId = thread, m_pollReturnTime = Timestamp_default,
              m_Poller = p1,
              m_TimerQueue = \<lparr>store = Map.empty, m_timers = [], m_numberCreate = 0\<rparr>,
              m_interation = 0, m_wakeupFd = wfd, m_wakeUpChannel = wp, m_activeChannels = [],
              m_currentActiveChannel = None, m_pendingFunctors = []\<rparr>,
             (if cur \<noteq> None then cur else Some this), cur \<noteq> None)))"

text \<open>The body of the destructor: the loop after it, the descriptor it closed, and the new \<open>t_loopThisThead\<close>.
  The destruction of the members that follows it is not part of it; there the poller is deleted through
  \<open>std::unique_ptr<Poller>\<close>, and the destructor of \<open>Poller\<close> is not virtual.\<close>

definition EventLoop_delete :: "'k epoll_ctl \<Rightarrow> ('k, 'cb) EventLoop \<Rightarrow>
    cxx_error + (('k, 'cb) EventLoop \<times> fd \<times> nat option)" where
  "EventLoop_delete ctl l =
     bind_r (disableAll ctl (m_wakeUpChannel l) (m_Poller l)) (\<lambda>(_, p1).
     with_chan p1 (m_wakeUpChannel l) (\<lambda>c.
       Inr (l\<lparr>m_Poller := put_chan (m_wakeUpChannel l) (KaChannel_remove c) p1\<rparr>, m_wakeupFd l, None)))"

definition isInLoopThread :: "('k, 'cb) EventLoop \<Rightarrow> nat \<Rightarrow> bool" where
  "isInLoopThread l this_thread \<longleftrightarrow> m_threadId l = this_thread"

section \<open>Running\<close>

definition EventLoop_quit :: "('k, 'cb) EventLoop \<Rightarrow> ('k, 'cb) EventLoop" where
  "EventLoop_quit l = l\<lparr>m_quit := False\<rparr>"

primrec handle_channels :: "(nat \<Rightarrow> bool) \<Rightarrow> Timestamp \<Rightarrow> ('k, 'cb) KaPoller \<Rightarrow> nat list \<Rightarrow>
    cxx_error + 'cb loop_event list" where
  "handle_channels alive t p [] = Inr []"
| "handle_channels alive t p (ch # chs) =
     with_chan p ch (\<lambda>c.
       bind_r (handle_channels alive t p chs) (\<lambda>tr. Inr (Channel_Handled ch (handleEvent alive t c) # tr)))"

definition doPendingFunctors :: "('k, 'cb) EventLoop \<Rightarrow> ('k, 'cb) EventLoop \<times> 'cb loop_event list" where
  "doPendingFunctors l =
     (let l1 = l\<lparr>m_callingPendingFunctors := True\<rparr>;
          tr = map Functor_Called (m_pendingFunctors l1);
          l2 = l1\<lparr>m_pendingFunctors := []\<rparr>
      in (l2\<lparr>m_callingPendingFunctors := False\<rparr>, tr))"

text \<open>The body of the \<open>while\<close> of \<open>loop\<close>.\<close>

definition loop_turn :: "turn \<Rightarrow> ('k, 'cb) EventLoop \<Rightarrow> cxx_error + (('k, 'cb) EventLoop \<times> 'cb loop_event list)" where
  "loop_turn e l =
     bind_r (doTimer (turn_clock e) (m_TimerQueue l)) (\<lambda>(tq, fired).
     bind_r (KaPoller_poll (turn_wait e) (turn_now e) (m_Poller l)) (\<lambda>(now, active, _, p).
     bind_r (int64_result (m_interation l + 1)) (\<lambda>it.
     bind_r (handle_channels (turn_alive e) now p active) (\<lambda>handled.
       (let l1 = l\<lparr>m_TimerQueue := tq, m_Poller := p, m_activeChannels := active, m_pollReturnTime := now,
                   m_interation := it, m_currentActiveChannel := None, m_eventHanding := False\<rparr>;
            l2 = (if turn_quit e then EventLoop_quit l1 else l1);
            (l3, called) = doPendingFunctors l2
        in Inr (l3, map (\<lambda>(a, cb). Timer_Fired a cb) fired @ handled @ called))))))"

primrec loop_while :: "turn list \<Rightarrow> ('k, 'cb) EventLoop \<Rightarrow>
    cxx_error + (bool \<times> ('k, 'cb) EventLoop \<times> 'cb loop_event list)" where
  "loop_while [] l = Inr (False, l, [])"
| "loop_while (e # es) l =
     (if m_quit l then Inr (True, l\<lparr>m_looping := False\<rparr>, [])
      else bind_r (loop_turn e l) (\<lambda>(l1, tr1).
           bind_r (loop_while es l1) (\<lambda>(ret, l2, tr2). Inr (ret, l2, tr1 @ tr2))))"

text \<open>\<open>loop\<close>: the flag of the result tells whether it returned within the given turns.\<close>

definition EventLoop_loop :: "turn list \<Rightarrow> ('k, 'cb) EventLoop \<Rightarrow>
    cxx_error + (bool \<times> ('k, 'cb) EventLoop \<times> 'cb loop_event list)" where
  "EventLoop_loop es l = loop_while es (l\<lparr>m_looping := True, m_quit := False\<rparr>)"

section \<open>Lemmas\<close>

lemma quit_simps [simp]:
  "m_quit (EventLoop_quit l) = False" "m_looping (EventLoop_quit l) = m_looping l"
  "m_interation (EventLoop_quit l) = m_interation l" "m_TimerQueue (EventLoop_quit l) = m_TimerQueue l"
  "m_Poller (EventLoop_quit l) = m_Poller l" "m_pendingFunctors (EventLoop_quit l) = m_pendingFunctors l"
  "m_eventHanding (EventLoop_quit l) = m_eventHanding l"
  "m_currentActiveChannel (EventLoop_quit l) = m_currentActiveChannel l"
  "m_activeChannels (EventLoop_quit l) = m_activeChannels l"
  by (simp_all add: EventLoop_quit_def)

text \<open>What a turn leaves behind.\<close>

lemma loop_turn_state:
  assumes "loop_turn e l = Inr (l', tr)"
  shows "(m_quit l' \<longrightarrow> m_quit l)" and "m_looping l' = m_looping l" and "m_interation l' = m_interation l + 1"
    and "m_pendingFunctors l' = []" and "\<not> m_eventHanding l'" and "m_currentActiveChannel l' = None"
  using assms
  by (auto simp: loop_turn_def bind_r_eq_Inr doPendingFunctors_def Let_def split: if_splits)

lemma poll_now: "KaPoller_poll r now p = Inr (t, active, err, p') \<Longrightarrow> t = now"
  by (auto simp: KaPoller_poll_def bind_r_eq_Inr split: epoll_wait_result.splits if_splits)

lemma loop_turn_trace:
  assumes "loop_turn e l = Inr (l', tr)"
  shows "\<exists>fired handled err.
    doTimer (turn_clock e) (m_TimerQueue l) = Inr (m_TimerQueue l', fired) \<and>
    KaPoller_poll (turn_wait e) (turn_now e) (m_Poller l)
      = Inr (turn_now e, m_activeChannels l', err, m_Poller l') \<and>
    handle_channels (turn_alive e) (turn_now e) (m_Poller l') (m_activeChannels l') = Inr handled \<and>
    tr = map (\<lambda>(a, cb). Timer_Fired a cb) fired @ handled @ map Functor_Called (m_pendingFunctors l)"
proof -
  obtain tq fired now active err p handled where
    1: "doTimer (turn_clock e) (m_TimerQueue l) = Inr (tq, fired)" and
    2: "KaPoller_poll (turn_wait e) (turn_now e) (m_Poller l) = Inr (now, active, err, p)" and
    3: "handle_channels (turn_alive e) now p active = Inr handled" and
    4: "m_TimerQueue l' = tq" "m_Poller l' = p" "m_activeChannels l' = active"
      "tr = map (\<lambda>(a, cb). Timer_Fired a cb) fired @ handled @ map Functor_Called (m_pendingFunctors l)"
    using assms by (auto simp: loop_turn_def bind_r_eq_Inr doPendingFunctors_def Let_def split: if_splits)
  with poll_now [OF 2] show ?thesis by blast
qed

lemma handle_channels_trace:
  "handle_channels alive t p chs = Inr tr \<Longrightarrow> tr = map (\<lambda>ch. Channel_Handled ch []) chs"
  by (induction chs arbitrary: tr)
     (auto simp: with_chan_Inr bind_r_eq_Inr handleEvent_def handleEventWithGuard_def split: option.splits)

lemma loop_while_state:
  "loop_while es l = Inr (ret, l', tr) \<Longrightarrow> \<not> m_quit l \<Longrightarrow>
   \<not> ret \<and> \<not> m_quit l' \<and> m_looping l' = m_looping l \<and> m_interation l' = m_interation l + int (length es)"
proof (induction es arbitrary: l tr)
  case Nil
  then show ?case by simp
next
  case (Cons e es)
  obtain l1 tr1 tr2 where 1: "loop_turn e l = Inr (l1, tr1)" and 2: "loop_while es l1 = Inr (ret, l', tr2)"
    using Cons.prems by (auto simp: bind_r_eq_Inr)
  note st = loop_turn_state [OF 1]
  have "\<not> m_quit l1" using st(1) Cons.prems(2) by blast
  from Cons.IH [OF 2 this] st show ?case by simp
qed

lemma EventLoop_new_unregistered:
  assumes "EventLoop_new ctl this thread wp eventfd_ret k cb cur = Inr (l, cur', msg)"
  shows "unregistered k (m_Poller l)"
proof -
  let ?p0 = "put_chan wp (setReadCallback cb (KaChannel_new this (fst (createWakeUpFd eventfd_ret))))
    (KaPoller_new this k Map.empty)"
  have "unregistered k ?p0"
    by (rule unregistered_put) (simp_all add: unregistered_def KaPoller_new_def setReadCallback_def KaChannel_new_def)
  moreover obtain ok where "enableReading ctl wp ?p0 = Inr (ok, m_Poller l)"
    using assms by (auto simp: EventLoop_new_def Let_def bind_r_eq_Inr)
  ultimately show ?thesis
    using unregistered_set_events [of k ?p0] by (simp add: channel_op_defs)
qed

section \<open>Properties\<close>

text \<open>A loop never ends. \<open>quit\<close> clears the flag it should set, so however many turns the loop
  runs, and whichever of them another thread or a callback calls \<open>quit\<close> in, \<open>loop\<close> has not returned:
  it has completed every turn it was given and is still looping.\<close>

theorem loop_never_returns:
  assumes "EventLoop_loop es l = Inr (ret, l', tr)"
  shows "\<not> ret \<and> m_looping l' \<and> m_interation l' = m_interation l + int (length es)"
  using loop_while_state [of es "l\<lparr>m_looping := True, m_quit := False\<rparr>" ret l' tr] assms
  by (simp add: EventLoop_loop_def)

definition quiet_turn :: turn where
  "quiet_turn = \<lparr>turn_clock = Timestamp 5, turn_wait = Wait_Events [], turn_now = Timestamp 6,
     turn_alive = (\<lambda>_. True), turn_quit = True\<rparr>"

definition demo_loop :: "(unit, nat) EventLoop" where
  "demo_loop = \<lparr>el_this = 1, m_looping = False, m_quit = False, m_eventHanding = False,
     m_callingPendingFunctors = False, m_threadId = 1, m_pollReturnTime = Timestamp 0,
     m_Poller = KaPoller_new 1 () Map.empty,
     m_TimerQueue = \<lparr>store = Map.empty, m_timers = [], m_numberCreate = 0\<rparr>,
     m_interation = 0, m_wakeupFd = 4, m_wakeUpChannel = 9, m_activeChannels = [],
     m_currentActiveChannel = None, m_pendingFunctors = [42]\<rparr>"


theorem loop_never_returns_witness:
  "\<exists>l' tr. EventLoop_loop [quiet_turn] demo_loop = Inr (False, l', tr) \<and> m_looping l'"
proof -
  obtain ret l' tr where r: "EventLoop_loop [quiet_turn] demo_loop = Inr (ret, l', tr)"
    by (simp add: EventLoop_loop_def loop_turn_def demo_loop_def quiet_turn_def doTimer_def KaPoller_poll_def
        KaPoller_new_def doPendingFunctors_def Let_def int64_result_ok int64_ok_def InitEventList_def) blast
  with loop_never_returns [OF r] show ?thesis by auto
qed

text \<open>The loop's own wake-up descriptor is not watched: after construction the poller has no
  channel and the kernel's interest list is as \<open>epoll_create\<close> made it, whatever \<open>epoll_ctl\<close> does, so a
  \<open>wakeUp\<close> written to it is never seen and every turn waits for its full timeout. The thread's loop
  pointer is set once; a second loop in the thread is only reported.\<close>

theorem wakeup_not_watched:
  assumes "EventLoop_new ctl this thread wp eventfd_ret k cb cur = Inr (l, cur', msg)"
  shows "m_channels (m_Poller l) = Map.empty \<and> kernel (m_Poller l) = k \<and>
    cur' = Some (case cur of None \<Rightarrow> this | Some other \<Rightarrow> other) \<and> (msg \<longleftrightarrow> cur \<noteq> None)"
  using EventLoop_new_unregistered [OF assms] assms
  by (auto simp: unregistered_def EventLoop_new_def Let_def bind_r_eq_Inr split: option.splits)

theorem wakeup_not_watched_witness:
  "\<exists>l. EventLoop_new map_ctl 1 1 9 4 Map.empty (3 :: nat) None = Inr (l, Some 1, False) \<and>
     kernel (m_Poller l) = Map.empty"
proof -
  obtain l cur' msg where r: "EventLoop_new map_ctl 1 1 9 4 Map.empty (3 :: nat) None = Inr (l, cur', msg)"
    by (simp add: EventLoop_new_def Let_def enableReading_def set_events_def EventLoop_updateChannel_def
        KaPoller_updateChannel_def createWakeUpFd_def KaPoller_new_def setReadCallback_def KaChannel_new_def) blast
  with wakeup_not_watched [OF r] show ?thesis by auto
qed

end
