(* ===== verification/LoopRuns.thy ===== *)
theory LoopRuns
  imports EventLoops
begin

text \<open>
  Histories of an \<open>EventLoop\<close> (\<open>src/Net/EventLoop.h\<close>, \<open>EventLoop.cpp\<close>) through its public interface and
  that of its channels: it is made, channels are made for it, changed, registered and removed, it turns, and
  any thread tells it to quit. Nothing in the interface adds a timer or a functor. What all its turns do.
\<close>

section \<open>The loops that are reached\<close>

text \<open>The flag tells whether somebody has called \<open>setIndex\<close> of a channel with another value than the one its
  constructor gives it. In the repository only the poller calls \<open>setIndex\<close>.\<close>

inductive loop_reach :: "'k epoll_ctl \<Rightarrow> 'k \<Rightarrow> bool \<Rightarrow> ('k, 'cb) EventLoop \<Rightarrow> bool" for ctl k where
  lr_new: "EventLoop_new ctl this thread wp eventfd_ret k cb cur = Inr (l, cur', msg) \<Longrightarrow> loop_reach ctl k False l"
| lr_channel: "loop_reach ctl k u l \<Longrightarrow> loop_reach ctl k u (l\<lparr>m_Poller := put_chan p (KaChannel_new loop fd) (m_Poller l)\<rparr>)"
| lr_field: "loop_reach ctl k u l \<Longrightarrow> chans (m_Poller l) p = Some c \<Longrightarrow>
    c' \<in> {setReadCallback f c, setWriteCallback f c, setCloseCallback f c, setErrorCallback f c, KaChannel_tie obj c,
      KaChannel_remove c, set_revent ev c, add_revent ev c} \<Longrightarrow>
    loop_reach ctl k u (l\<lparr>m_Poller := put_chan p c' (m_Poller l)\<rparr>)"
| lr_index: "loop_reach ctl k u l \<Longrightarrow> chans (m_Poller l) p = Some c \<Longrightarrow>
    loop_reach ctl k (u \<or> i \<noteq> KAdded) (l\<lparr>m_Poller := put_chan p (setIndex i c) (m_Poller l)\<rparr>)"
| lr_events: "loop_reach ctl k u l \<Longrightarrow>
    r \<in> {enableReading ctl p (m_Poller l), disableReading ctl p (m_Poller l), enableWriting ctl p (m_Poller l),
      disableWriting ctl p (m_Poller l), disableAll ctl p (m_Poller l), EventLoop_updateChannel ctl p (m_Poller l)} \<Longrightarrow>
    r = Inr (ok, q) \<Longrightarrow> loop_reach ctl k u (l\<lparr>m_Poller := q\<rparr>)"
| lr_remove: "loop_reach ctl k u l \<Longrightarrow> EventLoop_removeChannel ctl p (m_Poller l) = Inr q \<Longrightarrow> loop_reach ctl k u (l\<lparr>m_Poller := q\<rparr>)"
| lr_quit: "loop_reach ctl k u l \<Longrightarrow> loop_reach ctl k u (EventLoop_quit l)"
| lr_loop: "loop_reach ctl k u l \<Longrightarrow> EventLoop_loop es l = Inr (ret, l', tr) \<Longrightarrow> loop_reach ctl k u l'"

text \<open>No timer waits and no functor is pending; nothing is registered either.\<close>

definition bare_loop :: "('k, 'cb) EventLoop \<Rightarrow> bool" where
  "bare_loop l \<longleftrightarrow> m_timers (m_TimerQueue l) = [] \<and> m_pendingFunctors l = []"

definition idle_loop :: "'k \<Rightarrow> ('k, 'cb) EventLoop \<Rightarrow> bool" where
  "idle_loop k l \<longleftrightarrow> unregistered k (m_Poller l) \<and> bare_loop l"

text \<open>A turn that does nothing but look at channels.\<close>

definition looks_only :: "'cb loop_event list \<Rightarrow> bool" where
  "looks_only tr \<longleftrightarrow> (\<forall>x \<in> set tr. \<exists>ch. x = Channel_Handled ch [])"

section \<open>Lemmas\<close>

lemma bare_turn:
  assumes "bare_loop l" and "loop_turn e l = Inr (l', tr)"
  shows "bare_loop l' \<and> looks_only tr"
proof -
  from loop_turn_trace [OF assms(2)] obtain fired handled where
    t: "doTimer (turn_clock e) (m_TimerQueue l) = Inr (m_TimerQueue l', fired)"
    and h: "handle_channels (turn_alive e) (turn_now e) (m_Poller l') (m_activeChannels l') = Inr handled"
    and tr: "tr = map (\<lambda>(a, cb). Timer_Fired a cb) fired @ handled @ map Functor_Called (m_pendingFunctors l)" by blast
  have "fired = []" "m_TimerQueue l' = (m_TimerQueue l)\<lparr>m_timers := []\<rparr>"
    using t assms(1) by (auto simp: bare_loop_def doTimer_def)
  with tr handle_channels_trace [OF h] assms(1) loop_turn_state(4) [OF assms(2)] show ?thesis
    by (auto simp: bare_loop_def looks_only_def)
qed

lemma bare_while:
  "bare_loop l \<Longrightarrow> loop_while es l = Inr (ret, l', tr) \<Longrightarrow> bare_loop l' \<and> looks_only tr"
proof (induction es arbitrary: l tr)
  case Nil
  then show ?case by (simp add: looks_only_def)
next
  case (Cons e es)
  show ?case
  proof (cases "m_quit l")
    case True
    with Cons.prems show ?thesis by (auto simp: bare_loop_def looks_only_def)
  next
    case False
    with Cons.prems obtain l1 tr1 tr2 where 1: "loop_turn e l = Inr (l1, tr1)" "loop_while es l1 = Inr (ret, l', tr2)"
      "tr = tr1 @ tr2" by (auto simp: bind_r_eq_Inr)
    with bare_turn [OF Cons.prems(1) 1(1)] Cons.IH [of l1 tr2] show ?thesis by (auto simp: looks_only_def)
  qed
qed

lemma bare_simps [simp]:
  "bare_loop (EventLoop_quit l) = bare_loop l" "bare_loop (l\<lparr>m_Poller := q\<rparr>) = bare_loop l"
  "bare_loop (l\<lparr>m_looping := b, m_quit := b'\<rparr>) = bare_loop l"
  by (simp_all add: bare_loop_def)

lemma loop_reach_bare: "loop_reach ctl k u l \<Longrightarrow> bare_loop l"
proof (induction rule: loop_reach.induct)
  case (lr_new this thread wp eventfd_ret cb cur l cur' msg)
  then show ?case by (auto simp: bare_loop_def EventLoop_new_def Let_def bind_r_eq_Inr)
next
  case (lr_loop u l es ret l' tr)
  then show ?case using bare_while [of "l\<lparr>m_looping := True, m_quit := False\<rparr>" es ret l' tr] by (simp add: EventLoop_loop_def)
qed simp_all

lemma idle_turn:
  assumes "idle_loop k l" and "loop_turn e l = Inr (l', tr)"
  shows "idle_loop k l' \<and> tr = [] \<and> m_activeChannels l' = []"
proof -
  from loop_turn_trace [OF assms(2)] obtain fired handled err where
    t: "doTimer (turn_clock e) (m_TimerQueue l) = Inr (m_TimerQueue l', fired)"
    and p: "KaPoller_poll (turn_wait e) (turn_now e) (m_Poller l) = Inr (turn_now e, m_activeChannels l', err, m_Poller l')"
    and h: "handle_channels (turn_alive e) (turn_now e) (m_Poller l') (m_activeChannels l') = Inr handled"
    and tr: "tr = map (\<lambda>(a, cb). Timer_Fired a cb) fired @ handled @ map Functor_Called (m_pendingFunctors l)" by blast
  have "unregistered k (m_Poller l') \<and> m_activeChannels l' = []"
    using unregistered_poll [OF _ p] assms(1) by (auto simp: idle_loop_def bare_loop_def)
  moreover have "fired = []" "m_TimerQueue l' = (m_TimerQueue l)\<lparr>m_timers := []\<rparr>"
    using t assms(1) by (auto simp: idle_loop_def bare_loop_def doTimer_def)
  ultimately show ?thesis using h tr assms(1) loop_turn_state(4) [OF assms(2)] by (simp add: idle_loop_def bare_loop_def)
qed

lemma idle_while:
  "idle_loop k l \<Longrightarrow> loop_while es l = Inr (ret, l', tr) \<Longrightarrow> idle_loop k l' \<and> tr = []"
proof (induction es arbitrary: l tr)
  case Nil
  then show ?case by simp
next
  case (Cons e es)
  show ?case
  proof (cases "m_quit l")
    case True
    with Cons.prems show ?thesis by (auto simp: idle_loop_def bare_loop_def)
  next
    case False
    with Cons.prems obtain l1 tr1 tr2 where 1: "loop_turn e l = Inr (l1, tr1)" "loop_while es l1 = Inr (ret, l', tr2)"
      "tr = tr1 @ tr2" by (auto simp: bind_r_eq_Inr)
    with idle_turn [OF Cons.prems(1) 1(1)] Cons.IH [of l1 tr2] show ?thesis by auto
  qed
qed

lemma idle_poller: "bare_loop l \<Longrightarrow> unregistered k q \<Longrightarrow> idle_loop k (l\<lparr>m_Poller := q\<rparr>)"
  by (simp add: idle_loop_def)

lemma loop_reach_idle: "loop_reach ctl k u l \<Longrightarrow> \<not> u \<longrightarrow> idle_loop k l"
proof (induction rule: loop_reach.induct)
  case (lr_new this thread wp eventfd_ret cb cur l cur' msg)
  from EventLoop_new_unregistered [OF lr_new] loop_reach_bare [OF loop_reach.lr_new [OF lr_new]] show ?case
    by (simp add: idle_loop_def)
next
  case (lr_channel u l p loop fd)
  then show ?case by (auto simp: idle_loop_def KaChannel_new_def intro: unregistered_put)
next
  case (lr_field u l p c c' f obj ev)
  then have "m_index c' = m_index c"
    by (auto simp: setReadCallback_def setWriteCallback_def setCloseCallback_def setErrorCallback_def
        KaChannel_tie_def KaChannel_remove_def set_revent_def add_revent_def)
  with lr_field show ?case by (auto simp: idle_loop_def unregistered_def)
next
  case (lr_index u l p c i)
  then show ?case by (auto simp: idle_loop_def intro: unregistered_put)
next
  case (lr_events u l r p ok q)
  have "unregistered k q" if "\<not> u"
    using lr_events that unregistered_set_events [of k "m_Poller l" ctl _ p ok q] unregistered_update [of k "m_Poller l" ctl p ok q]
    by (auto simp: idle_loop_def channel_op_defs)
  with lr_events show ?case by (simp add: idle_loop_def)
next
  case (lr_remove u l p q)
  then show ?case using unregistered_remove [of k "m_Poller l" ctl p q] by (auto simp: idle_loop_def)
next
  case (lr_quit u l)
  then show ?case by (simp add: idle_loop_def)
next
  case (lr_loop u l es ret l' tr)
  then show ?case using idle_while [of k "l\<lparr>m_looping := True, m_quit := False\<rparr>" es ret l' tr]
    by (auto simp: EventLoop_loop_def idle_loop_def)
qed

text \<open>A kernel that watches nothing reports nothing; then every turn has a defined end.\<close>

definition quiet_wait :: "epoll_wait_result \<Rightarrow> bool" where
  "quiet_wait r \<longleftrightarrow> (case r of Wait_Error e \<Rightarrow> True | Wait_Events evs \<Rightarrow> evs = [])"

lemma idle_turn_ends:
  assumes "idle_loop k l" and "quiet_wait (turn_wait e)" and "- (2 ^ 63) \<le> m_interation l" and "m_interation l + 1 < 2 ^ 63"
  shows "\<exists>l'. loop_turn e l = Inr (l', [])"
proof -
  obtain err where "KaPoller_poll (turn_wait e) (turn_now e) (m_Poller l) = Inr (turn_now e, [], err, m_Poller l)"
    using assms(2) by (auto simp: KaPoller_poll_def quiet_wait_def split: epoll_wait_result.splits)
  moreover have "int64_ok (m_interation l + 1)" using assms(3,4) by (simp add: int64_ok_def)
  moreover have "doTimer (turn_clock e) (m_TimerQueue l) = Inr (m_TimerQueue l, [])"
    using assms(1) by (simp add: idle_loop_def bare_loop_def doTimer_def)
  ultimately show ?thesis using assms(1) by (simp add: loop_turn_def Let_def doPendingFunctors_def idle_loop_def bare_loop_def int64_result_ok)
qed

lemma idle_while_ends:
  "idle_loop k l \<Longrightarrow> \<not> m_quit l \<Longrightarrow> \<forall>e \<in> set es. quiet_wait (turn_wait e) \<Longrightarrow> - (2 ^ 63) \<le> m_interation l \<Longrightarrow>
   m_interation l + int (length es) < 2 ^ 63 \<Longrightarrow> \<exists>l'. loop_while es l = Inr (False, l', [])"
proof (induction es arbitrary: l)
  case Nil
  then show ?case by simp
next
  case (Cons e es)
  then obtain l1 where 1: "loop_turn e l = Inr (l1, [])" using idle_turn_ends [of k l e] by auto
  note st = loop_turn_state [OF 1]
  have "\<exists>l'. loop_while es l1 = Inr (False, l', [])"
    by (rule Cons.IH) (use idle_turn [OF Cons.prems(1) 1] st Cons.prems in auto)
  with 1 Cons.prems(2) show ?case by auto
qed

section \<open>Properties\<close>

text \<open>C8. A loop turns in vain. Whatever its users do through its interface and that of its channels, \<open>loop\<close>
  does not return, no turn fires a timer or calls a functor, and a channel that a turn handles runs none of its
  callbacks. As long as nobody has called \<open>setIndex\<close> to make the poller accept a channel that its
  constructor has marked as added, no turn handles a channel at all. And then the loop does turn: while the
  turn counter fits, any number of turns has a defined end, with a kernel that watches nothing and so
  reports nothing.\<close>

theorem loop_turns_in_vain:
  assumes "loop_reach ctl k u l" and "EventLoop_loop es l = Inr (ret, l', tr)"
  shows "\<not> ret \<and> m_looping l' \<and> (\<forall>x \<in> set tr. \<exists>ch. x = Channel_Handled ch []) \<and>
    (\<not> u \<longrightarrow> tr = [] \<and>
      (\<forall>es'. (\<forall>e \<in> set es'. quiet_wait (turn_wait e)) \<and> - (2 ^ 63) \<le> m_interation l' \<and> m_interation l' + int (length es') < 2 ^ 63 \<longrightarrow>
        (\<exists>l''. EventLoop_loop es' l' = Inr (False, l'', []))))"
proof -
  let ?l = "l\<lparr>m_looping := True, m_quit := False\<rparr>"
  have w: "loop_while es ?l = Inr (ret, l', tr)" using assms(2) by (simp add: EventLoop_loop_def)
  have "\<not> ret \<and> m_looping l'" using loop_while_state [of es ?l ret l' tr] w by simp
  moreover have "looks_only tr" using bare_while [OF _ w] loop_reach_bare [OF assms(1)] by simp
  moreover have "tr = []" if "\<not> u"
    using idle_while [OF _ w, of k] loop_reach_idle [OF assms(1)] that by (simp add: idle_loop_def)
  moreover have "\<exists>l''. EventLoop_loop es' l' = Inr (False, l'', [])"
    if "\<not> u" "(\<forall>e \<in> set es'. quiet_wait (turn_wait e)) \<and> - (2 ^ 63) \<le> m_interation l' \<and> m_interation l' + int (length es') < 2 ^ 63" for es'
  proof -
    have "idle_loop k (l'\<lparr>m_looping := True, m_quit := False\<rparr>)"
      using loop_reach_idle [OF lr_loop [OF assms]] that(1) by (simp add: idle_loop_def)
    with that(2) show ?thesis unfolding EventLoop_loop_def by (intro idle_while_ends) simp_all
  qed
  ultimately show ?thesis unfolding looks_only_def by blast
qed

text \<open>With \<open>setIndex\<close> a channel can be registered, and a turn handles it.\<close>

lemma touched_loop_handles:
  "\<exists>l e l'. loop_reach map_ctl Map.empty True (l :: (fd \<Rightarrow> epoll_event option, nat) EventLoop) \<and>
     EventLoop_loop [e] l = Inr (False, l', [Channel_Handled 7 []])"
proof -
  obtain l where new: "EventLoop_new map_ctl 1 1 9 4 Map.empty (3 :: nat) None = Inr (l, Some 1, False)"
    and l: "m_interation l = 0" "m_timers (m_TimerQueue l) = []" "m_pendingFunctors l = []" "m_channels (m_Poller l) = Map.empty"
      "kernel (m_Poller l) = Map.empty" "length (m_eventList (m_Poller l)) = 16" "m_ownerLoop (m_Poller l) = 1"
    by (simp add: EventLoop_new_def Let_def enableReading_def set_events_def EventLoop_updateChannel_def put_chan_def with_chan_def
        KaPoller_updateChannel_def createWakeUpFd_def KaPoller_new_def setReadCallback_def KaChannel_new_def InitEventList_def)
  let ?c = "KaChannel_new 1 5 :: nat KaChannel"
  define l1 where "l1 = l\<lparr>m_Poller := put_chan 7 ?c (m_Poller l)\<rparr>"
  define l2 where "l2 = l1\<lparr>m_Poller := put_chan 7 (setIndex KNew ?c) (m_Poller l1)\<rparr>"
  have "loop_reach map_ctl Map.empty False l1" unfolding l1_def by (rule lr_channel [OF lr_new [OF new]])
  moreover have "chans (m_Poller l1) 7 = Some ?c" by (simp add: l1_def put_chan_def)
  ultimately have "loop_reach map_ctl Map.empty (False \<or> KNew \<noteq> KAdded) l2" unfolding l2_def by (rule lr_index)
  then have r2: "loop_reach map_ctl Map.empty True l2" by (simp add: KNew_def KAdded_def)
  obtain q c where q: "enableReading map_ctl 7 (m_Poller l2) = Inr (True, q)" "m_channels q 5 = Some 7" "chans q 7 = Some c"
    "m_fd c = 5" "length (m_eventList q) = 16"
    using l by (simp add: l1_def l2_def enableReading_def set_events_def EventLoop_updateChannel_def KaPoller_updateChannel_def
        KaPoller_update_def map_ctl_def with_chan_def put_chan_def setIndex_def KaChannel_new_def KNew_def)
  define l3 where "l3 = l2\<lparr>m_Poller := q\<rparr>"
  have r3: "loop_reach map_ctl Map.empty True l3" unfolding l3_def by (rule lr_events [OF r2 _ q(1)]) blast
  let ?e = "quiet_turn\<lparr>turn_wait := Wait_Events [(1, 7)]\<rparr>"
  have "\<exists>p. KaPoller_poll (Wait_Events [(1, 7)]) t q = Inr (t, [7], None, p) \<and> chans p 7 = Some (set_revent 1 c)" for t
    using q by (simp add: KaPoller_poll_def with_chan_def put_chan_def set_revent_def)
  then obtain p where p: "KaPoller_poll (Wait_Events [(1, 7)]) (turn_now ?e) q = Inr (turn_now ?e, [7], None, p)" "chans p 7 = Some (set_revent 1 c)"
    by blast
  have "\<exists>l'. loop_turn ?e (l3\<lparr>m_looping := True, m_quit := False\<rparr>) = Inr (l', [Channel_Handled 7 []])"
    using p l by (simp add: loop_turn_def l3_def l2_def l1_def doTimer_def doPendingFunctors_def Let_def with_chan_def
        int64_result_ok int64_ok_def handleEvent_def handleEventWithGuard_def split: option.split)
  then have "\<exists>l'. EventLoop_loop [?e] l3 = Inr (False, l', [Channel_Handled 7 []])" by (auto simp: EventLoop_loop_def)
  with r3 show ?thesis by blast
qed

theorem loop_turns_in_vain_witness:
  "\<exists>l l'. EventLoop_new map_ctl 1 1 9 4 Map.empty (3 :: nat) None = Inr (l, Some 1, False) \<and>
     EventLoop_loop [quiet_turn, quiet_turn] l = Inr (False, l', [])"
proof -
  obtain l where new: "EventLoop_new map_ctl 1 1 9 4 Map.empty (3 :: nat) None = Inr (l, Some 1, False)" and it: "m_interation l = 0"
    by (simp add: EventLoop_new_def Let_def enableReading_def set_events_def EventLoop_updateChannel_def
        KaPoller_updateChannel_def createWakeUpFd_def KaPoller_new_def setReadCallback_def KaChannel_new_def)
  note r = lr_new [OF new]
  let ?l = "l\<lparr>m_looping := True, m_quit := False\<rparr>"
  have none: "EventLoop_loop [] l = Inr (False, ?l, [])" by (simp add: EventLoop_loop_def)
  have "\<forall>e \<in> set [quiet_turn, quiet_turn]. quiet_wait (turn_wait e)" by (simp add: quiet_turn_def quiet_wait_def)
  moreover have "- (2 ^ 63) \<le> m_interation ?l \<and> m_interation ?l + int (length [quiet_turn, quiet_turn]) < 2 ^ 63" by (simp add: it)
  moreover note loop_turns_in_vain [OF r none]
  ultimately obtain l' where "EventLoop_loop [quiet_turn, quiet_turn] ?l = Inr (False, l', [])" by blast
  then show ?thesis using new by (auto simp: EventLoop_loop_def)
qed

end
