(* ===== verification/LoopThreads.thy ===== *)
theory LoopThreads
  imports EventLoops
begin

text \<open>
  \<open>src/Net/EventLoopThread.h\<close> and \<open>EventLoopThread.cpp\<close>: the thread that runs a loop, and the
  handshake by which \<open>startLoop\<close> waits until the loop exists. The two threads are interleaved
  step by step: a step is a statement of \<open>startLoop\<close>, \<open>stopLoop\<close> or the destructor (the owner's
  side) or of \<open>threadFunc\<close>. Waiting on the condition variable releases the mutex and ends on a
  notification or spuriously.
\<close>

datatype owner_pc = S_Start | S_Lock | S_Check | S_Waiting | S_Return | S_Running | S_Joining | S_Joined
datatype thread_pc = T_None | T_Construct | T_Callback | T_Lock | T_Publish | T_Unlock | T_Enter | T_Loop | T_Done
datatype side = Owner | Worker

record ('k, 'cb) EventLoopThread =
  lt_loop :: "nat option"
  m_exiting :: bool
  lt_mutex :: "side option"
  lt_owner :: owner_pc
  lt_thread :: thread_pc
  lt_object :: "('k, 'cb) EventLoop option"
  lt_result :: "nat option"

text \<open>What the environment fixes for one such thread: the kernel, the addresses its loop and
  wake-up channel get, and the callback run before the loop starts.\<close>

record ('k, 'cb) thread_env =
  te_ctl :: "'k epoll_ctl"
  te_kernel :: 'k
  te_addr :: nat
  te_id :: nat
  te_wakeup :: nat
  te_eventfd :: int
  te_wakecb :: 'cb
  te_init :: "(('k, 'cb) EventLoop \<Rightarrow> ('k, 'cb) EventLoop) option"

definition EventLoopThread_new :: "('k, 'cb) EventLoopThread" where
  "EventLoopThread_new = \<lparr>lt_loop = None, m_exiting = False, lt_mutex = None, lt_owner = S_Start,
     lt_thread = T_None, lt_object = None, lt_result = None\<rparr>"

text \<open>The owner's side.\<close>

inductive owner_step :: "('k, 'cb) EventLoopThread \<Rightarrow> ('k, 'cb) EventLoopThread \<Rightarrow> bool" where
  o_create: "lt_owner s = S_Start \<Longrightarrow> owner_step s (s\<lparr>lt_owner := S_Lock, lt_thread := T_Construct\<rparr>)"
| o_lock: "lt_owner s = S_Lock \<Longrightarrow> lt_mutex s = None \<Longrightarrow>
    owner_step s (s\<lparr>lt_owner := S_Check, lt_mutex := Some Owner\<rparr>)"
| o_wait: "lt_owner s = S_Check \<Longrightarrow> lt_loop s = None \<Longrightarrow>
    owner_step s (s\<lparr>lt_owner := S_Waiting, lt_mutex := None\<rparr>)"
| o_spurious: "lt_owner s = S_Waiting \<Longrightarrow> owner_step s (s\<lparr>lt_owner := S_Lock\<rparr>)"
| o_found: "lt_owner s = S_Check \<Longrightarrow> lt_loop s \<noteq> None \<Longrightarrow>
    owner_step s (s\<lparr>lt_owner := S_Return, lt_mutex := None\<rparr>)"
| o_return: "lt_owner s = S_Return \<Longrightarrow> owner_step s (s\<lparr>lt_owner := S_Running, lt_result := lt_loop s\<rparr>)"
| o_stop: "lt_owner s = S_Running \<Longrightarrow>
    owner_step s (s\<lparr>lt_owner := S_Joining,
      lt_object := (if lt_loop s \<noteq> None then map_option EventLoop_quit (lt_object s) else lt_object s)\<rparr>)"
| o_delete: "lt_owner s = S_Running \<Longrightarrow> lt_loop s \<noteq> None \<Longrightarrow>
    owner_step s (s\<lparr>m_exiting := True, lt_owner := S_Joining, lt_object := map_option EventLoop_quit (lt_object s)\<rparr>)"
| o_joined: "lt_owner s = S_Joining \<Longrightarrow> lt_thread s = T_Done \<Longrightarrow> owner_step s (s\<lparr>lt_owner := S_Joined\<rparr>)"

text \<open>The thread's side, \<open>threadFunc\<close>.\<close>

inductive worker_step :: "('k, 'cb) thread_env \<Rightarrow> ('k, 'cb) EventLoopThread \<Rightarrow> ('k, 'cb) EventLoopThread \<Rightarrow> bool" for env where
  w_construct: "lt_thread s = T_Construct \<Longrightarrow>
    EventLoop_new (te_ctl env) (te_addr env) (te_id env) (te_wakeup env) (te_eventfd env) (te_kernel env)
      (te_wakecb env) None = Inr (l, cur, msg) \<Longrightarrow>
    worker_step env s (s\<lparr>lt_thread := T_Callback, lt_object := Some l\<rparr>)"
| w_callback: "lt_thread s = T_Callback \<Longrightarrow>
    worker_step env s (s\<lparr>lt_thread := T_Lock,
      lt_object := (case te_init env of None \<Rightarrow> lt_object s | Some f \<Rightarrow> map_option f (lt_object s))\<rparr>)"
| w_lock: "lt_thread s = T_Lock \<Longrightarrow> lt_mutex s = None \<Longrightarrow>
    worker_step env s (s\<lparr>lt_thread := T_Publish, lt_mutex := Some Worker\<rparr>)"
| w_publish: "lt_thread s = T_Publish \<Longrightarrow>
    worker_step env s (s\<lparr>lt_thread := T_Unlock, lt_loop := Some (te_addr env),
      lt_owner := (if lt_owner s = S_Waiting then S_Lock else lt_owner s)\<rparr>)"
| w_unlock: "lt_thread s = T_Unlock \<Longrightarrow> worker_step env s (s\<lparr>lt_thread := T_Enter, lt_mutex := None\<rparr>)"
| w_enter: "lt_thread s = T_Enter \<Longrightarrow>
    worker_step env s (s\<lparr>lt_thread := T_Loop,
      lt_object := map_option (\<lambda>l. l\<lparr>m_looping := True, m_quit := False\<rparr>) (lt_object s)\<rparr>)"
| w_turn: "lt_thread s = T_Loop \<Longrightarrow> lt_object s = Some l \<Longrightarrow> \<not> m_quit l \<Longrightarrow> loop_turn e l = Inr (l', tr) \<Longrightarrow>
    worker_step env s (s\<lparr>lt_object := Some l'\<rparr>)"
| w_exit: "lt_thread s = T_Loop \<Longrightarrow> lt_object s = Some l \<Longrightarrow> m_quit l \<Longrightarrow>
    worker_step env s (s\<lparr>lt_thread := T_Done, lt_loop := None\<rparr>)"

definition thread_step :: "('k, 'cb) thread_env \<Rightarrow> ('k, 'cb) EventLoopThread \<Rightarrow> ('k, 'cb) EventLoopThread \<Rightarrow> bool" where
  "thread_step env s s' \<longleftrightarrow> owner_step s s' \<or> worker_step env s s'"

inductive thread_reach :: "('k, 'cb) thread_env \<Rightarrow> ('k, 'cb) EventLoopThread \<Rightarrow> bool" for env where
  tr_init: "thread_reach env EventLoopThread_new"
| tr_step: "thread_reach env s \<Longrightarrow> thread_step env s s' \<Longrightarrow> thread_reach env s'"

section \<open>Invariant\<close>

text \<open>Who holds the mutex, when the loop pointer is set, and that the owner waits only while it is
  null: the notification cannot be lost.\<close>

definition published :: "thread_pc \<Rightarrow> bool" where
  "published pc \<longleftrightarrow> pc \<in> {T_Unlock, T_Enter, T_Loop}"

definition thread_inv :: "('k, 'cb) thread_env \<Rightarrow> ('k, 'cb) EventLoopThread \<Rightarrow> bool" where
  "thread_inv env s \<longleftrightarrow>
     (lt_mutex s = Some Owner \<longleftrightarrow> lt_owner s = S_Check) \<and>
     (lt_mutex s = Some Worker \<longleftrightarrow> lt_thread s \<in> {T_Publish, T_Unlock}) \<and>
     lt_thread s \<noteq> T_Done \<and>
     lt_loop s = (if published (lt_thread s) then Some (te_addr env) else None) \<and>
     (lt_owner s = S_Start \<longleftrightarrow> lt_thread s = T_None) \<and>
     (lt_owner s = S_Waiting \<longrightarrow> \<not> published (lt_thread s)) \<and>
     (lt_owner s \<in> {S_Return, S_Running, S_Joining, S_Joined} \<longrightarrow> published (lt_thread s)) \<and>
     (lt_owner s \<in> {S_Running, S_Joining, S_Joined} \<longrightarrow> lt_result s = Some (te_addr env)) \<and>
     lt_owner s \<noteq> S_Joined \<and>
     (lt_thread s \<notin> {T_None, T_Construct} \<longrightarrow> lt_object s \<noteq> None) \<and>
     (lt_thread s = T_Loop \<longrightarrow> \<not> m_quit (the (lt_object s)))"

lemma owner_step_inv: "owner_step s s' \<Longrightarrow> thread_inv env s \<Longrightarrow> thread_inv env s'"
  by (induction rule: owner_step.induct) (auto simp: thread_inv_def published_def split: if_splits)

lemma worker_step_inv: "worker_step env s s' \<Longrightarrow> thread_inv env s \<Longrightarrow> thread_inv env s'"
proof (induction rule: worker_step.induct)
  case (w_turn s l e l' tr)
  then show ?case using loop_turn_state(1) [OF w_turn(4)] by (auto simp: thread_inv_def)
qed (auto simp: thread_inv_def published_def split: if_splits option.splits)

lemma thread_reach_inv: "thread_reach env s \<Longrightarrow> thread_inv env s"
proof (induction rule: thread_reach.induct)
  case tr_init
  then show ?case by (simp add: thread_inv_def EventLoopThread_new_def published_def)
next
  case (tr_step s s')
  then show ?case using owner_step_inv worker_step_inv unfolding thread_step_def by blast
qed

section \<open>Progress\<close>

text \<open>A loop can always be constructed: \<open>enableReading\<close> on the fresh wake-up channel is refused but
  does not fail.\<close>

lemma EventLoop_new_ok: "\<exists>l cur' msg. EventLoop_new ctl this thread wp efd k cb cur = Inr (l, cur', msg)"
  by (simp add: EventLoop_new_def Let_def enableReading_def set_events_def EventLoop_updateChannel_def
      KaPoller_updateChannel_def createWakeUpFd_def KaPoller_new_def setReadCallback_def KaChannel_new_def)

fun owner_rank :: "owner_pc \<Rightarrow> nat" where
  "owner_rank S_Start = 4"
| "owner_rank S_Lock = 3"
| "owner_rank S_Check = 2"
| "owner_rank S_Waiting = 1"
| "owner_rank S_Return = 1"
| "owner_rank _ = 0"

fun thread_rank :: "thread_pc \<Rightarrow> nat" where
  "thread_rank T_None = 7"
| "thread_rank T_Construct = 6"
| "thread_rank T_Callback = 5"
| "thread_rank T_Lock = 4"
| "thread_rank T_Publish = 3"
| "thread_rank T_Unlock = 2"
| "thread_rank T_Enter = 1"
| "thread_rank _ = 0"

definition start_rank :: "('k, 'cb) EventLoopThread \<Rightarrow> nat" where
  "start_rank s = 5 * thread_rank (lt_thread s) + owner_rank (lt_owner s)"

text \<open>As long as the owner has not returned from \<open>startLoop\<close>, some step brings it closer.\<close>

lemma start_progress:
  assumes inv: "thread_inv env s" and "lt_owner s \<notin> {S_Running, S_Joining, S_Joined}"
  shows "\<exists>s'. thread_step env s s' \<and> start_rank s' < start_rank s"
proof (cases "lt_owner s")
  case S_Start
  then show ?thesis using inv o_create [OF S_Start]
    by (fastforce simp: thread_step_def start_rank_def thread_inv_def)
next
  case S_Check
  then show ?thesis using o_wait [OF S_Check] o_found [OF S_Check]
    by (cases "lt_loop s") (fastforce simp: thread_step_def start_rank_def)+
next
  case S_Return
  then show ?thesis using o_return [OF S_Return] by (fastforce simp: thread_step_def start_rank_def)
next
  case S_Lock
  show ?thesis
  proof (cases "lt_mutex s")
    case None
    then show ?thesis using o_lock [OF S_Lock None] S_Lock by (fastforce simp: thread_step_def start_rank_def)
  next
    case (Some h)
    then have "lt_thread s = T_Publish \<or> lt_thread s = T_Unlock"
      using inv S_Lock by (cases h) (auto simp: thread_inv_def)
    then show ?thesis
    proof
      assume "lt_thread s = T_Publish"
      from w_publish [OF this, of env] this S_Lock show ?thesis
        by (fastforce simp: thread_step_def start_rank_def)
    next
      assume "lt_thread s = T_Unlock"
      from w_unlock [OF this, of env] this S_Lock show ?thesis
        by (fastforce simp: thread_step_def start_rank_def)
    qed
  qed
next
  case S_Waiting
  then have np: "\<not> published (lt_thread s)" "lt_thread s \<noteq> T_None" "lt_thread s \<noteq> T_Done"
    using inv by (auto simp: thread_inv_def)
  show ?thesis
  proof (cases "lt_thread s")
    case T_Construct
    obtain l cur msg where "EventLoop_new (te_ctl env) (te_addr env) (te_id env) (te_wakeup env)
        (te_eventfd env) (te_kernel env) (te_wakecb env) None = Inr (l, cur, msg)"
      using EventLoop_new_ok [of "te_ctl env" "te_addr env" "te_id env" "te_wakeup env"
          "te_eventfd env" "te_kernel env" "te_wakecb env" None] by auto
    from w_construct [OF T_Construct this] T_Construct show ?thesis
      by (fastforce simp: thread_step_def start_rank_def)
  next
    case T_Callback
    from w_callback [OF this, of env] this show ?thesis
      by (fastforce simp: thread_step_def start_rank_def)
  next
    case T_Lock
    have "lt_mutex s = None"
    proof (cases "lt_mutex s")
      case (Some h)
      then show ?thesis using inv S_Waiting T_Lock by (cases h) (auto simp: thread_inv_def)
    qed simp
    from w_lock [OF T_Lock this] T_Lock show ?thesis
      by (fastforce simp: thread_step_def start_rank_def)
  next
    case T_Publish
    from w_publish [OF this, of env] this S_Waiting show ?thesis
      by (fastforce simp: thread_step_def start_rank_def)
  qed (use np in \<open>auto simp: published_def\<close>)
qed (use assms(2) in auto)

lemma start_can_return:
  "thread_reach env s \<Longrightarrow> lt_owner s \<notin> {S_Running, S_Joining, S_Joined} \<Longrightarrow>
   \<exists>s'. (thread_step env)\<^sup>*\<^sup>* s s' \<and> lt_owner s' = S_Running"
proof (induction "start_rank s" arbitrary: s rule: less_induct)
  case less
  obtain s1 where s1: "thread_step env s s1" "start_rank s1 < start_rank s"
    using start_progress [OF thread_reach_inv [OF less.prems(1)] less.prems(2)] by blast
  have r1: "thread_reach env s1" using less.prems(1) s1(1) by (rule tr_step)
  show ?case
  proof (cases "lt_owner s1 \<in> {S_Running, S_Joining, S_Joined}")
    case False
    from less.hyps [OF s1(2) r1 False] s1(1) show ?thesis
      by (meson converse_rtranclp_into_rtranclp)
  next
    case True
    have "lt_owner s1 = S_Running"
      using s1(1) True less.prems(2)
      by (auto simp: thread_step_def elim!: owner_step.cases worker_step.cases split: if_splits)
    with s1(1) show ?thesis by (meson r_into_rtranclp)
  qed
qed

section \<open>Fair runs\<close>

text \<open>A run of the two threads is an infinite sequence of states; between two of them one side takes a step, or
  neither does. It is fair when, as long as \<open>startLoop\<close> has not returned, a side that can take a step again
  and again takes one again and again. After that nothing is asked: the owner may never stop the loop.\<close>

definition starting :: "('k, 'cb) EventLoopThread \<Rightarrow> bool" where
  "starting s \<longleftrightarrow> lt_owner s \<notin> {S_Running, S_Joining, S_Joined}"

definition again_and_again :: "(nat \<Rightarrow> bool) \<Rightarrow> bool" where
  "again_and_again P \<longleftrightarrow> (\<forall>n. \<exists>i\<ge>n. P i)"

definition thread_run :: "('k, 'cb) thread_env \<Rightarrow> (nat \<Rightarrow> ('k, 'cb) EventLoopThread) \<Rightarrow> bool" where
  "thread_run env r \<longleftrightarrow> r 0 = EventLoopThread_new \<and> (\<forall>i. r (Suc i) = r i \<or> thread_step env (r i) (r (Suc i)))"

definition fair_run :: "('k, 'cb) thread_env \<Rightarrow> (nat \<Rightarrow> ('k, 'cb) EventLoopThread) \<Rightarrow> bool" where
  "fair_run env r \<longleftrightarrow> thread_run env r \<and>
     (again_and_again (\<lambda>i. starting (r i) \<and> (\<exists>s. owner_step (r i) s)) \<longrightarrow> again_and_again (\<lambda>i. owner_step (r i) (r (Suc i)))) \<and>
     (again_and_again (\<lambda>i. starting (r i) \<and> (\<exists>s. worker_step env (r i) s)) \<longrightarrow> again_and_again (\<lambda>i. worker_step env (r i) (r (Suc i))))"

lemma run_reach: "thread_run env r \<Longrightarrow> thread_reach env (r i)"
proof (induction i)
  case (Suc i)
  then have "r (Suc i) = r i \<or> thread_step env (r i) (r (Suc i))" "thread_reach env (r i)" by (simp_all add: thread_run_def)
  then show ?case using tr_step by metis
qed (simp add: thread_run_def tr_init)

lemma eventually_constant:
  fixes f :: "nat \<Rightarrow> nat"
  assumes "\<And>i. f (Suc i) \<le> f i"
  obtains n where "\<And>i. n \<le> i \<Longrightarrow> f i = f n"
proof -
  obtain n where n: "\<forall>i. f n \<le> f i" using ex_has_least_nat [of "\<lambda>_. True" 0 f] by auto
  have "f i \<le> f n" if "n \<le> i" for i using that by (rule lift_Suc_antimono_le [of f, OF assms])
  then show thesis using that [of n] n by (simp add: le_antisym)
qed

lemma owner_step_thread: "owner_step s s' \<Longrightarrow> lt_thread s' = (if lt_owner s = S_Start then T_Construct else lt_thread s)"
  by (induction rule: owner_step.induct) auto

lemma worker_step_rank: "worker_step env s s' \<Longrightarrow>
    thread_rank (lt_thread s') < thread_rank (lt_thread s) \<or> lt_thread s = T_Loop \<and> thread_rank (lt_thread s') = 0 \<and> lt_owner s' = lt_owner s"
  by (induction rule: worker_step.induct) simp_all

lemma thread_step_rank: "thread_inv env s \<Longrightarrow> thread_step env s s' \<Longrightarrow> thread_rank (lt_thread s') \<le> thread_rank (lt_thread s)"
proof -
  assume inv: "thread_inv env s" and "thread_step env s s'"
  then consider "owner_step s s'" | "worker_step env s s'" by (auto simp: thread_step_def)
  then show ?thesis
  proof cases
    case 1
    have "lt_owner s = S_Start \<longrightarrow> lt_thread s = T_None" using inv unfolding thread_inv_def by blast
    with owner_step_thread [OF 1] show ?thesis by simp
  next
    case 2
    from worker_step_rank [OF this] show ?thesis by auto
  qed
qed

lemma rank_thread: "thread_rank a \<noteq> 0 \<Longrightarrow> thread_rank a = thread_rank b \<Longrightarrow> a = b"
  by (cases a; cases b) simp_all

text \<open>When a side can take a step.\<close>

lemma worker_can_step:
  assumes "thread_rank (lt_thread s) \<noteq> 0" and "lt_thread s \<noteq> T_None" and "lt_thread s = T_Lock \<longrightarrow> lt_mutex s = None"
  shows "\<exists>s'. worker_step env s s'"
proof (cases "lt_thread s")
  case T_Construct
  obtain l cur msg where "EventLoop_new (te_ctl env) (te_addr env) (te_id env) (te_wakeup env)
      (te_eventfd env) (te_kernel env) (te_wakecb env) None = Inr (l, cur, msg)"
    using EventLoop_new_ok [of "te_ctl env" "te_addr env" "te_id env" "te_wakeup env"
        "te_eventfd env" "te_kernel env" "te_wakecb env" None] by auto
  from w_construct [OF T_Construct this] show ?thesis by blast
qed (use assms in \<open>auto intro: worker_step.intros\<close>)

lemma owner_can_step:
  "thread_inv env s \<Longrightarrow> starting s \<Longrightarrow> lt_owner s = S_Lock \<longrightarrow> lt_thread s \<notin> {T_Publish, T_Unlock} \<Longrightarrow> \<exists>s'. owner_step s s'"
proof (cases "lt_owner s")
  case S_Lock
  moreover assume "thread_inv env s" "lt_owner s = S_Lock \<longrightarrow> lt_thread s \<notin> {T_Publish, T_Unlock}"
  ultimately have "lt_mutex s \<noteq> Some Owner" "lt_mutex s \<noteq> Some Worker" by (auto simp: thread_inv_def)
  then have "lt_mutex s = None" by (cases "lt_mutex s"; cases "the (lt_mutex s)") auto
  with S_Lock show ?thesis by (blast intro: owner_step.intros)
next
  case S_Check
  then show ?thesis using o_wait o_found by blast
qed (auto simp: starting_def intro: owner_step.intros)

lemma leaves_start: "thread_step env s s' \<Longrightarrow> starting s \<Longrightarrow> \<not> starting s' \<Longrightarrow> lt_owner s' = S_Running"
  by (auto simp: thread_step_def starting_def elim!: owner_step.cases worker_step.cases split: if_splits)

text \<open>The thread gets into its loop: the rank of its statement goes down until then, and a thread that waits for
  the mutex finds it free again and again, since the owner holds it for one step only.\<close>

lemma fair_thread_loops:
  assumes fair: "fair_run env r" and starts: "\<And>i. starting (r i)"
  obtains n where "\<And>i. n \<le> i \<Longrightarrow> lt_thread (r i) = T_Loop"
proof -
  have run: "thread_run env r" using fair by (simp add: fair_run_def)
  have inv: "thread_inv env (r i)" for i by (rule thread_reach_inv [OF run_reach [OF run]])
  have "thread_rank (lt_thread (r (Suc i))) \<le> thread_rank (lt_thread (r i))" for i
  proof -
    have "r (Suc i) = r i \<or> thread_step env (r i) (r (Suc i))" using run by (simp add: thread_run_def)
    then show ?thesis using thread_step_rank [OF inv] by (elim disjE) simp_all
  qed
  then obtain n where n: "\<And>i. n \<le> i \<Longrightarrow> thread_rank (lt_thread (r i)) = thread_rank (lt_thread (r n))"
    using eventually_constant [of "\<lambda>i. thread_rank (lt_thread (r i))"] by blast
  show thesis
  proof (cases "thread_rank (lt_thread (r n)) = 0")
    case True
    have "lt_thread (r i) = T_Loop" if "n \<le> i" for i
      using n [OF that] True inv [of i] by (cases "lt_thread (r i)") (auto simp: thread_inv_def)
    then show thesis by (rule that)
  next
    case False
    then have pc: "lt_thread (r i) = lt_thread (r n)" if "n \<le> i" for i using rank_thread n [OF that] by metis
    have "\<not> worker_step env (r i) (r (Suc i))" if "n \<le> i" for i
      using worker_step_rank [of env "r i" "r (Suc i)"] n [of i] n [of "Suc i"] that False by auto
    then have "\<not> again_and_again (\<lambda>i. worker_step env (r i) (r (Suc i)))" unfolding again_and_again_def by blast
    then obtain m where m: "\<And>i. m \<le> i \<Longrightarrow> \<not> (\<exists>s. worker_step env (r i) s)"
      using fair starts unfolding fair_run_def again_and_again_def by blast
    define k where "k = max n m"
    have k: "lt_thread (r i) = lt_thread (r n)" "\<not> (\<exists>s. worker_step env (r i) s)" if "k \<le> i" for i
      using that pc [of i] m [of i] by (simp_all add: k_def)
    have stuck: "lt_thread (r i) = T_None \<or> lt_thread (r i) = T_Lock \<and> lt_mutex (r i) \<noteq> None" if "k \<le> i" for i
    proof (rule ccontr)
      assume "\<not> (lt_thread (r i) = T_None \<or> lt_thread (r i) = T_Lock \<and> lt_mutex (r i) \<noteq> None)"
      then have "\<exists>s. worker_step env (r i) s" by (intro worker_can_step) (use k(1) [OF that] False in auto)
      with k(2) [OF that] show False by simp
    qed
    have owner: "lt_owner (r i) = (if lt_thread (r n) = T_None then S_Start else S_Check)" if "k \<le> i" for i
    proof (cases "lt_thread (r n) = T_None")
      case True
      then show ?thesis using k(1) [OF that] inv [of i] by (simp add: thread_inv_def)
    next
      case False
      then have "lt_thread (r i) = T_Lock" "lt_mutex (r i) \<noteq> None" using stuck [OF that] k(1) [OF that] by auto
      then have "lt_mutex (r i) = Some Owner"
        using inv [of i] by (cases "the (lt_mutex (r i))") (auto simp: thread_inv_def)
      with False show ?thesis using inv [of i] by (simp add: thread_inv_def)
    qed
    have "\<exists>s. owner_step (r i) s" if "k \<le> i" for i
      by (rule owner_can_step [OF inv starts]) (use owner [OF that] in simp)
    then have "again_and_again (\<lambda>i. starting (r i) \<and> (\<exists>s. owner_step (r i) s))"
      unfolding again_and_again_def using starts by (metis max.cobounded1 max.cobounded2)
    then obtain i where i: "k \<le> i" "owner_step (r i) (r (Suc i))"
      using fair unfolding fair_run_def again_and_again_def by blast
    from i(2) have "lt_owner (r (Suc i)) \<noteq> lt_owner (r i)" by cases auto
    then show thesis using owner [of i] owner [of "Suc i"] i(1) by simp
  qed
qed

lemma owner_step_rank:
  "owner_step s s' \<Longrightarrow> thread_inv env s \<Longrightarrow> lt_thread s = T_Loop \<Longrightarrow> starting s \<Longrightarrow> owner_rank (lt_owner s') < owner_rank (lt_owner s)"
  by (induction rule: owner_step.induct) (auto simp: thread_inv_def published_def starting_def)

text \<open>A finite run in which \<open>startLoop\<close> has returned, continued without a step, is fair.\<close>

lemma finite_fair_run:
  assumes "successively (thread_step env) xs" and "xs \<noteq> []" and "hd xs = EventLoopThread_new" and "\<not> starting (last xs)"
  shows "fair_run env (\<lambda>i. xs ! min i (length xs - 1))"
proof -
  let ?r = "\<lambda>i. xs ! min i (length xs - 1)"
  have "?r (Suc i) = ?r i \<or> thread_step env (?r i) (?r (Suc i))" for i
  proof (cases "Suc i < length xs")
    case True
    then have "thread_step env (xs ! i) (xs ! Suc i)" using assms(1) by (simp add: successively_conv_nth)
    moreover have "min i (length xs - 1) = i" "min (Suc i) (length xs - 1) = Suc i" using True by simp_all
    ultimately show ?thesis by simp
  next
    case False
    then have "min i (length xs - 1) = length xs - 1" "min (Suc i) (length xs - 1) = length xs - 1" by simp_all
    then show ?thesis by simp
  qed
  moreover have "?r 0 = EventLoopThread_new" using assms(2,3) by (simp add: hd_conv_nth)
  ultimately have run: "thread_run env ?r" unfolding thread_run_def by blast
  have no: "\<not> again_and_again (\<lambda>i. starting (?r i) \<and> P i)" for P
  proof
    assume "again_and_again (\<lambda>i. starting (?r i) \<and> P i)"
    then obtain i where i: "length xs - 1 \<le> i" "starting (?r i)" unfolding again_and_again_def by blast
    then have "min i (length xs - 1) = length xs - 1" by simp
    with i(2) assms(2,4) show False by (simp add: last_conv_nth)
  qed
  show ?thesis unfolding fair_run_def by (intro conjI impI run) (erule notE [OF no])+
qed

lemma fair_start_returns:
  assumes fair: "fair_run env r"
  shows "\<exists>i. lt_owner (r i) = S_Running"
proof -
  have run: "thread_run env r" using fair by (simp add: fair_run_def)
  have inv: "thread_inv env (r i)" for i by (rule thread_reach_inv [OF run_reach [OF run]])
  have "\<exists>i. \<not> starting (r i)"
  proof (rule ccontr)
    assume "\<nexists>i. \<not> starting (r i)"
    then have starts: "starting (r i)" for i by blast
    obtain n where n: "\<And>i. n \<le> i \<Longrightarrow> lt_thread (r i) = T_Loop" using fair_thread_loops [OF fair starts] by blast
    have turn: "lt_owner s' = lt_owner s" if "worker_step env s s'" "lt_thread s = T_Loop" for s s'
      using worker_step_rank [OF that(1)] that(2) by simp
    have "owner_rank (lt_owner (r (n + Suc i))) \<le> owner_rank (lt_owner (r (n + i)))" for i
    proof -
      have "r (Suc (n + i)) = r (n + i) \<or> owner_step (r (n + i)) (r (Suc (n + i))) \<or> worker_step env (r (n + i)) (r (Suc (n + i)))"
        using run unfolding thread_run_def thread_step_def by blast
      then show ?thesis using owner_step_rank [OF _ inv n starts, of "n + i"] turn [OF _ n, of "n + i"] by (elim disjE) (simp_all add: less_imp_le)
    qed
    then obtain m where m: "\<And>i. m \<le> i \<Longrightarrow> owner_rank (lt_owner (r (n + i))) = owner_rank (lt_owner (r (n + m)))"
      using eventually_constant [of "\<lambda>i. owner_rank (lt_owner (r (n + i)))"] by blast
    have "\<not> owner_step (r i) (r (Suc i))" if "n + m \<le> i" for i
    proof
      assume "owner_step (r i) (r (Suc i))"
      then have "owner_rank (lt_owner (r (Suc i))) < owner_rank (lt_owner (r i))"
        by (rule owner_step_rank [OF _ inv _ starts]) (use n that in simp)
      moreover have "owner_rank (lt_owner (r (Suc i))) = owner_rank (lt_owner (r i))"
        using m [of "i - n"] m [of "Suc i - n"] that by (simp add: Suc_diff_le)
      ultimately show False by simp
    qed
    then have "\<not> again_and_again (\<lambda>i. owner_step (r i) (r (Suc i)))" unfolding again_and_again_def by blast
    moreover have "again_and_again (\<lambda>i. starting (r i) \<and> (\<exists>s. owner_step (r i) s))"
      unfolding again_and_again_def
    proof
      fix k
      have "\<exists>s. owner_step (r (k + n)) s"
        by (rule owner_can_step [OF inv starts]) (use n [of "k + n"] in simp)
      then show "\<exists>i\<ge>k. starting (r i) \<and> (\<exists>s. owner_step (r i) s)" using starts by (metis le_add1)
    qed
    ultimately show False using fair unfolding fair_run_def by blast
  qed
  then obtain i where i: "\<not> starting (r i)" "\<forall>j<i. starting (r j)" using exists_least_iff [of "\<lambda>i. \<not> starting (r i)"] by blast
  have "starting (r 0)" using run by (simp add: thread_run_def starting_def EventLoopThread_new_def)
  then obtain j where j: "i = Suc j" using i(1) by (cases i) auto
  have st: "starting (r j)" "\<not> starting (r (Suc j))" using i by (simp_all add: j)
  have "r (Suc j) = r j \<or> thread_step env (r j) (r (Suc j))" using run by (simp add: thread_run_def)
  then have "thread_step env (r j) (r (Suc j))" using st by auto
  then show ?thesis using leaves_start [OF _ st] by blast
qed

lemma inv_waiting: "thread_inv env s \<Longrightarrow> lt_owner s = S_Waiting \<Longrightarrow> lt_loop s = None"
  by (simp add: thread_inv_def)

lemma inv_running:
  assumes "thread_inv env s" and "lt_owner s \<in> {S_Running, S_Joining, S_Joined}"
  shows "lt_result s = Some (te_addr env) \<and> lt_object s \<noteq> None"
proof -
  have "published (lt_thread s)" "lt_result s = Some (te_addr env)" "lt_thread s \<notin> {T_None, T_Construct} \<longrightarrow> lt_object s \<noteq> None"
    using assms unfolding thread_inv_def by fast+
  then show ?thesis by (cases "lt_thread s") (simp_all add: published_def)
qed

section \<open>Properties\<close>

text \<open>C9. The start of a loop thread returns, with a loop that exists. In every fair run of the two
  threads, in any interleaving and with spurious wake-ups, \<open>startLoop\<close> returns; whenever the owner waits
  the pointer is null (the notification is never lost); and once \<open>startLoop\<close> has returned, what it
  returned is the address of the loop the thread constructed. Fairness is asked for only while \<open>startLoop\<close>
  runs. Without it \<open>startLoop\<close> can still return from every state that is reached: nothing deadlocks.\<close>

theorem startLoop_handshake:
  assumes "fair_run env r"
  shows "(\<exists>i. lt_owner (r i) = S_Running) \<and>
    (\<forall>i. (lt_owner (r i) = S_Waiting \<longrightarrow> lt_loop (r i) = None) \<and>
      (lt_owner (r i) \<in> {S_Running, S_Joining, S_Joined} \<longrightarrow>
        lt_result (r i) = Some (te_addr env) \<and> lt_object (r i) \<noteq> None)) \<and>
    (\<forall>s. thread_reach env s \<and> starting s \<longrightarrow> (\<exists>s'. (thread_step env)\<^sup>*\<^sup>* s s' \<and> lt_owner s' = S_Running))"
proof -
  have run: "thread_run env r" using assms by (simp add: fair_run_def)
  have 1: "(lt_owner (r i) = S_Waiting \<longrightarrow> lt_loop (r i) = None) \<and>
      (lt_owner (r i) \<in> {S_Running, S_Joining, S_Joined} \<longrightarrow> lt_result (r i) = Some (te_addr env) \<and> lt_object (r i) \<noteq> None)" for i
    using inv_waiting inv_running [of env "r i"] thread_reach_inv [OF run_reach [OF run]] by blast
  have 2: "\<forall>s. thread_reach env s \<and> starting s \<longrightarrow> (\<exists>s'. (thread_step env)\<^sup>*\<^sup>* s s' \<and> lt_owner s' = S_Running)"
    using start_can_return unfolding starting_def by blast
  show ?thesis by (intro conjI allI fair_start_returns [OF assms] 2 conjunct1 [OF 1] conjunct2 [OF 1])
qed

text \<open>Stopping a loop thread never finishes. \<open>stopLoop\<close> and the destructor call \<open>quit\<close> and then
  join the thread, but \<open>quit\<close> does not stop the loop: no interleaving reaches a state in which the
  thread has ended or the join has returned.\<close>

theorem stopLoop_never_joins:
  assumes "thread_reach env s"
  shows "lt_thread s \<noteq> T_Done \<and> lt_owner s \<noteq> S_Joined"
  using thread_reach_inv [OF assms] by (simp add: thread_inv_def)

definition demo_env :: "(unit, nat) thread_env" where
  "demo_env = \<lparr>te_ctl = (\<lambda>k _ _ _. (True, k)), te_kernel = (), te_addr = 100, te_id = 1, te_wakeup = 9,
     te_eventfd = 4, te_wakecb = 0, te_init = None\<rparr>"

lemma demo_reached: "thread_reach demo_env
    (EventLoopThread_new\<lparr>lt_owner := S_Waiting, lt_thread := T_Construct\<rparr>)"
proof -
  let ?s = "EventLoopThread_new :: (unit, nat) EventLoopThread"
  have 1: "thread_reach demo_env (?s\<lparr>lt_owner := S_Lock, lt_thread := T_Construct\<rparr>)"
    by (rule tr_step [OF tr_init])
      (use o_create [of ?s] in \<open>simp add: thread_step_def EventLoopThread_new_def\<close>)
  have 2: "thread_reach demo_env (?s\<lparr>lt_thread := T_Construct, lt_owner := S_Check, lt_mutex := Some Owner\<rparr>)"
    by (rule tr_step [OF 1])
      (use o_lock [of "?s\<lparr>lt_owner := S_Lock, lt_thread := T_Construct\<rparr>"] in
        \<open>simp add: thread_step_def EventLoopThread_new_def\<close>)
  show ?thesis
    by (rule tr_step [OF 2])
      (use o_wait [of "?s\<lparr>lt_thread := T_Construct, lt_owner := S_Check, lt_mutex := Some Owner\<rparr>"] in
        \<open>simp add: thread_step_def EventLoopThread_new_def\<close>)
qed

lemma demo_fair_run:
  "\<exists>r. fair_run demo_env r \<and> lt_owner (r 4) = S_Waiting"
proof -
  obtain l cur msg where l: "EventLoop_new (te_ctl demo_env) (te_addr demo_env) (te_id demo_env) (te_wakeup demo_env)
      (te_eventfd demo_env) (te_kernel demo_env) (te_wakecb demo_env) None = Inr (l, cur, msg)"
    using EventLoop_new_ok [of "te_ctl demo_env" "te_addr demo_env" "te_id demo_env" "te_wakeup demo_env"
        "te_eventfd demo_env" "te_kernel demo_env" "te_wakecb demo_env" None] by auto
  let ?s = "EventLoopThread_new :: (unit, nat) EventLoopThread"
  let ?p = "?s\<lparr>lt_thread := T_Unlock, lt_object := Some l, lt_loop := Some 100, lt_mutex := Some Worker, lt_owner := S_Lock\<rparr>"
  let ?xs = "[?s, ?s\<lparr>lt_owner := S_Lock, lt_thread := T_Construct\<rparr>,
    ?s\<lparr>lt_owner := S_Lock, lt_thread := T_Callback, lt_object := Some l\<rparr>,
    ?s\<lparr>lt_owner := S_Check, lt_thread := T_Callback, lt_object := Some l, lt_mutex := Some Owner\<rparr>,
    ?s\<lparr>lt_owner := S_Waiting, lt_thread := T_Callback, lt_object := Some l\<rparr>,
    ?s\<lparr>lt_owner := S_Waiting, lt_thread := T_Lock, lt_object := Some l\<rparr>,
    ?s\<lparr>lt_owner := S_Waiting, lt_thread := T_Publish, lt_object := Some l, lt_mutex := Some Worker\<rparr>,
    ?p, ?p\<lparr>lt_thread := T_Enter, lt_mutex := None\<rparr>,
    ?p\<lparr>lt_thread := T_Enter, lt_owner := S_Check, lt_mutex := Some Owner\<rparr>,
    ?p\<lparr>lt_thread := T_Enter, lt_owner := S_Return, lt_mutex := None\<rparr>,
    ?p\<lparr>lt_thread := T_Enter, lt_owner := S_Running, lt_mutex := None, lt_result := Some 100\<rparr>]"
  have "successively (thread_step demo_env) ?xs"
    using o_create [of ?s] w_construct [of "?xs ! 1" demo_env, OF _ l] o_lock [of "?xs ! 2"] o_wait [of "?xs ! 3"]
      w_callback [of "?xs ! 4" demo_env] w_lock [of "?xs ! 5" demo_env] w_publish [of "?xs ! 6" demo_env]
      w_unlock [of "?xs ! 7" demo_env] o_lock [of "?xs ! 8"] o_found [of "?xs ! 9"] o_return [of "?xs ! 10"]
    by (simp add: thread_step_def EventLoopThread_new_def demo_env_def)
  from finite_fair_run [OF this] have "fair_run demo_env (\<lambda>i. ?xs ! min i (length ?xs - 1))"
    by (simp add: starting_def)
  moreover have "lt_owner (?xs ! min 4 (length ?xs - 1)) = S_Waiting" by simp
  ultimately show ?thesis by blast
qed

theorem startLoop_handshake_witness:
  "\<exists>r i. fair_run demo_env r \<and> lt_owner (r 4) = S_Waiting \<and> lt_owner (r i) = S_Running \<and> lt_result (r i) = Some 100"
proof -
  obtain r where r: "fair_run demo_env r" "lt_owner (r 4) = S_Waiting" using demo_fair_run by blast
  from startLoop_handshake [OF r(1)] obtain i where "lt_owner (r i) = S_Running" "lt_result (r i) = Some (te_addr demo_env)"
    by blast
  with r show ?thesis by (auto simp: demo_env_def)
qed

theorem stopLoop_never_joins_witness:
  "lt_owner (EventLoopThread_new\<lparr>lt_owner := S_Waiting, lt_thread := T_Construct\<rparr> ::
     (unit, nat) EventLoopThread) \<noteq> S_Joined"
  using stopLoop_never_joins [OF demo_reached] by simp

end
