(* ===== verification/LoopPools.thy ===== *)
theory LoopPools
  imports CLib
begin

text \<open>
  \<open>src/Net/EventLoopThreadPool.h\<close> and \<open>EventLoopThreadPool.cpp\<close>: the pool of loop threads and the
  choice of the loop for a new connection. A loop is its address. What \<open>startLoop\<close> returned for
  each thread is an argument of \<open>start\<close>.
\<close>

section \<open>Rotation\<close>

text \<open>Something that hands out the items of a list in turn. A client that takes items one after the
  other gets them cyclically, so no item is taken more than once more than any other.\<close>

locale rotation =
  fixes ready :: "'s \<Rightarrow> bool" and items :: "'s \<Rightarrow> 'x list" and pos :: "'s \<Rightarrow> nat"
    and next_item :: "'s \<Rightarrow> 'e + ('x \<times> 's)"
  assumes next_ok: "ready s \<Longrightarrow> \<exists>s'. next_item s = Inr (items s ! pos s, s') \<and> ready s' \<and>
      items s' = items s \<and> pos s' = Suc (pos s) mod length (items s)"
    and pos_less: "ready s \<Longrightarrow> pos s < length (items s)"
begin

primrec takes :: "nat \<Rightarrow> 's \<Rightarrow> 'e + ('x list \<times> 's)" where
  "takes 0 s = Inr ([], s)"
| "takes (Suc n) s = bind_r (next_item s) (\<lambda>(x, s1). bind_r (takes n s1) (\<lambda>(xs, s2). Inr (x # xs, s2)))"

lemma takes_cyclic:
  "ready s \<Longrightarrow> \<exists>s'. takes n s =
     Inr (map (\<lambda>i. items s ! ((pos s + i) mod length (items s))) [0..<n], s') \<and>
     ready s' \<and> items s' = items s"
proof (induction n arbitrary: s)
  case 0
  then show ?case by simp
next
  case (Suc n)
  obtain s1 where s1: "next_item s = Inr (items s ! pos s, s1)" "ready s1" "items s1 = items s"
      "pos s1 = Suc (pos s) mod length (items s)"
    using next_ok [OF Suc.prems] by auto
  obtain s2 where s2: "takes n s1 =
      Inr (map (\<lambda>i. items s ! ((pos s1 + i) mod length (items s))) [0..<n], s2)"
      "ready s2" "items s2 = items s"
    using Suc.IH [OF s1(2)] s1(3) by auto
  have "map (\<lambda>i. items s ! ((pos s1 + i) mod length (items s))) [0..<n]
      = map (\<lambda>i. items s ! ((pos s + i) mod length (items s))) [Suc 0..<Suc n]"
    unfolding map_Suc_upt [symmetric] by (simp add: s1(4) mod_simps)
  then have "takes (Suc n) s = Inr (items s ! pos s #
      map (\<lambda>i. items s ! ((pos s + i) mod length (items s))) [Suc 0..<Suc n], s2)"
    using s1(1) s2(1) by simp
  also have "items s ! pos s # map (\<lambda>i. items s ! ((pos s + i) mod length (items s))) [Suc 0..<Suc n]
      = map (\<lambda>i. items s ! ((pos s + i) mod length (items s))) [0..<Suc n]"
    using pos_less [OF Suc.prems] by (simp add: upt_conv_Cons del: upt_Suc)
  finally show ?case using s2 by blast
qed

end

text \<open>Any \<open>n\<close> consecutive indices modulo \<open>n\<close> are all of them.\<close>

lemma rotate_upt: "map (\<lambda>i. xs ! ((p + i) mod length xs)) [0..<length xs] = rotate p xs"
  by (rule nth_equalityI) (simp_all add: nth_rotate)

section \<open>The pool\<close>

record EventLoopThreadPool =
  m_baseLoop :: "nat option"
  m_name :: string
  m_started :: bool
  m_numberThreads :: int
  m_next :: int
  m_threads :: "string list"
  m_loops :: "nat list"

definition EventLoopThreadPool_new :: EventLoopThreadPool where
  "EventLoopThreadPool_new = \<lparr>m_baseLoop = None, m_name = '''', m_started = False, m_numberThreads = 0,
     m_next = 0, m_threads = [], m_loops = []\<rparr>"

definition EventLoopThreadPool_init :: "nat option \<Rightarrow> int \<Rightarrow> EventLoopThreadPool \<Rightarrow> EventLoopThreadPool" where
  "EventLoopThreadPool_init baseLoop numThreads p = p\<lparr>m_numberThreads := numThreads, m_baseLoop := baseLoop\<rparr>"

text \<open>The loop of \<open>start\<close> from \<open>i\<close> on, with the loops the remaining threads return: each thread gets
  a name, is started and stored. Its index runs up to the number of threads.\<close>

primrec start_threads :: "nat \<Rightarrow> nat list \<Rightarrow> EventLoopThreadPool \<Rightarrow> EventLoopThreadPool" where
  "start_threads i [] p = p"
| "start_threads i (l # ls) p =
     start_threads (Suc i) ls
       (p\<lparr>m_loops := m_loops p @ [l],
          m_threads := m_threads p @ [snprintf_buf 128 (c_str (m_name p) @ show_nat i)]\<rparr>)"

text \<open>\<open>start\<close>: \<open>started i\<close> is what \<open>startLoop\<close> of thread \<open>i\<close> returns; the flag of the result tells
  whether the callback was called on the base loop.\<close>

definition EventLoopThreadPool_start :: "bool \<Rightarrow> (nat \<Rightarrow> nat) \<Rightarrow> EventLoopThreadPool \<Rightarrow> EventLoopThreadPool \<times> bool" where
  "EventLoopThreadPool_start cb started p =
     (if m_baseLoop p = None \<or> m_started p then (p, False)
      else
        (let p1 = start_threads 0 (map started [0..<nat (m_numberThreads p)]) (p\<lparr>m_started := True\<rparr>)
         in (p1, m_numberThreads p = 0 \<and> cb)))"

text \<open>\<open>stop\<close> stops the threads in order: \<open>joins i\<close> tells whether the join of thread \<open>i\<close> ever returns. The
  result is the threads that were told to stop, and whether \<open>stop\<close> returns.\<close>

primrec stop_threads :: "(nat \<Rightarrow> bool) \<Rightarrow> nat \<Rightarrow> string list \<Rightarrow> string list \<times> bool" where
  "stop_threads joins i [] = ([], True)"
| "stop_threads joins i (t # ts) =
     (if joins i then (let (told, ret) = stop_threads joins (Suc i) ts in (t # told, ret)) else ([t], False))"

definition EventLoopThreadPool_stop :: "(nat \<Rightarrow> bool) \<Rightarrow> EventLoopThreadPool \<Rightarrow> string list \<times> bool" where
  "EventLoopThreadPool_stop joins p = stop_threads joins 0 (m_threads p)"

lemma stop_threads_returns: "snd (stop_threads joins i ts) \<longleftrightarrow> (\<forall>j < length ts. joins (i + j))"
proof (induction ts arbitrary: i)
  case (Cons t ts)
  have "snd (stop_threads joins i (t # ts)) \<longleftrightarrow> joins i \<and> (\<forall>j < length ts. joins (Suc i + j))"
    unfolding Cons.IH [symmetric] by (simp add: split_beta)
  then show ?case by (auto simp: less_Suc_eq_0_disj)
qed simp

definition getNextLoop :: "EventLoopThreadPool \<Rightarrow> cxx_error + (nat option \<times> EventLoopThreadPool)" where
  "getNextLoop p =
     (if \<not> m_started p then Inr (None, p)
      else if m_loops p \<noteq> [] then
        (if m_next p < 0 \<or> int (length (m_loops p)) \<le> m_next p then Inl Undefined_Behaviour
         else
           (let loop = m_loops p ! nat (m_next p); n = m_next p + 1
            in Inr (Some loop, p\<lparr>m_next := if int (length (m_loops p)) \<le> n then 0 else n\<rparr>)))
      else Inr (m_baseLoop p, p))"

definition statrted :: "EventLoopThreadPool \<Rightarrow> bool" where
  "statrted p = m_started p"

definition pool_name :: "EventLoopThreadPool \<Rightarrow> string" where
  "pool_name p = m_name p"

definition GetLoopForHash :: "EventLoopThreadPool \<Rightarrow> size_t \<Rightarrow> nat option" where
  "GetLoopForHash p HashCode =
     (if m_loops p \<noteq> [] then Some (m_loops p ! unat (HashCode mod vec_size (m_loops p)))
      else m_baseLoop p)"

text \<open>With at least one thread \<open>GetAllThreadLoop\<close> ends without a \<open>return\<close>.\<close>

definition GetAllThreadLoop :: "EventLoopThreadPool \<Rightarrow> cxx_error + (nat option list)" where
  "GetAllThreadLoop p = (if m_loops p = [] then Inr [m_baseLoop p] else Inl Undefined_Behaviour)"

definition EventLoopThreadPool_info :: "(nat \<Rightarrow> string) \<Rightarrow> EventLoopThreadPool \<Rightarrow> string" where
  "EventLoopThreadPool_info threadId p =
     ''print thread id info '' @ [CHR 0x0A] @
     concat (map (\<lambda>i. show_nat i @ '': threadId = '' @ threadId (m_loops p ! i) @ [CHR 0x0A])
       [0..<length (m_loops p)])"

section \<open>Lemmas\<close>

lemma start_threads_simps [simp]:
  "m_started (start_threads i ls p) = m_started p" "m_next (start_threads i ls p) = m_next p"
  "m_baseLoop (start_threads i ls p) = m_baseLoop p"
  "m_loops (start_threads i ls p) = m_loops p @ ls"
  "m_numberThreads (start_threads i ls p) = m_numberThreads p" "m_name (start_threads i ls p) = m_name p"
  by (induction ls arbitrary: i p) simp_all

lemma length_start_threads [simp]:
  "length (m_threads (start_threads i ls p)) = length (m_threads p) + length ls"
  by (induction ls arbitrary: i p) simp_all

definition pool_ready :: "EventLoopThreadPool \<Rightarrow> bool" where
  "pool_ready p \<longleftrightarrow> m_started p \<and> 0 \<le> m_next p \<and> m_next p < int (length (m_loops p))"

definition next_loop :: "EventLoopThreadPool \<Rightarrow> cxx_error + (nat \<times> EventLoopThreadPool)" where
  "next_loop p = bind_r (getNextLoop p) (\<lambda>(l, p'). Inr (the l, p'))"

primrec getNextLoops :: "nat \<Rightarrow> EventLoopThreadPool \<Rightarrow> cxx_error + (nat list \<times> EventLoopThreadPool)" where
  "getNextLoops 0 p = Inr ([], p)"
| "getNextLoops (Suc n) p =
     bind_r (next_loop p) (\<lambda>(l, p1). bind_r (getNextLoops n p1) (\<lambda>(ls, p2). Inr (l # ls, p2)))"

interpretation pool: rotation pool_ready m_loops "\<lambda>p. nat (m_next p)" next_loop
proof
  fix p
  assume r: "pool_ready p"
  then show "nat (m_next p) < length (m_loops p)" by (auto simp: pool_ready_def)
  have "Suc (nat (m_next p)) mod length (m_loops p) =
      nat (if int (length (m_loops p)) \<le> m_next p + 1 then 0 else m_next p + 1)"
  proof (cases "int (length (m_loops p)) \<le> m_next p + 1")
    case True
    with r have "Suc (nat (m_next p)) = length (m_loops p)" by (auto simp: pool_ready_def)
    with True show ?thesis by simp
  next
    case False
    with r have "Suc (nat (m_next p)) < length (m_loops p)" by (auto simp: pool_ready_def)
    with False r show ?thesis by (simp add: pool_ready_def Suc_nat_eq_nat_zadd1 add.commute)
  qed
  with r show "\<exists>p'. next_loop p = Inr (m_loops p ! nat (m_next p), p') \<and> pool_ready p' \<and>
      m_loops p' = m_loops p \<and> nat (m_next p') = Suc (nat (m_next p)) mod length (m_loops p)"
    by (auto simp: next_loop_def getNextLoop_def pool_ready_def Let_def)
qed

lemma getNextLoops_takes: "getNextLoops n p = pool.takes n p"
  by (induction n arbitrary: p) simp_all

lemma hash_index: "m_loops p \<noteq> [] \<Longrightarrow> length (m_loops p) < 2 ^ 63 \<Longrightarrow>
    unat (h mod vec_size (m_loops p)) = unat h mod length (m_loops p)"
  by (simp add: unat_mod vec_size_def unat_of_nat_small)

section \<open>Properties\<close>

text \<open>After \<open>start\<close> with n > 0 threads, \<open>getNextLoop\<close> never fails and hands out the loops of the
  threads in turn: any n consecutive calls return each of them exactly once, in rotation. A second
  \<open>start\<close> changes nothing, and \<open>GetLoopForHash\<close> always picks one of the pool's loops.\<close>

theorem pool_round_robin:
  assumes "m_baseLoop p \<noteq> None" and "\<not> m_started p" and "m_loops p = []" and "m_next p = 0"
    and "0 < m_numberThreads p" and "m_numberThreads p < 2 ^ 31"
    and q_def: "q = fst (EventLoopThreadPool_start cb started p)"
  shows "m_loops q = map started [0..<nat (m_numberThreads p)] \<and>
    fst (EventLoopThreadPool_start cb started q) = q \<and>
    (\<exists>q' ls. getNextLoops k q = Inr (ls, q') \<and> length ls = k \<and>
      (\<exists>q''. getNextLoops (nat (m_numberThreads p)) q' = Inr (rotate k (m_loops q), q''))) \<and>
    (\<exists>l \<in> set (m_loops q). GetLoopForHash q h = Some l)"
proof -
  let ?n = "nat (m_numberThreads p)"
  have q: "q = start_threads 0 (map started [0..<?n]) (p\<lparr>m_started := True\<rparr>)"
    using assms(1,2) by (auto simp: q_def EventLoopThreadPool_start_def Let_def)
  have loops: "m_loops q = map started [0..<?n]" and n: "length (m_loops q) = ?n"
    by (simp_all add: q assms(3))
  have ready: "pool_ready q" using assms(4,5) by (simp add: q pool_ready_def assms(3))
  obtain q' where q': "pool.takes k q =
      Inr (map (\<lambda>i. m_loops q ! ((nat (m_next q) + i) mod length (m_loops q))) [0..<k], q')"
      "pool_ready q'" "m_loops q' = m_loops q"
    using pool.takes_cyclic [OF ready, of k] by auto
  have pos: "nat (m_next q') mod ?n = k mod ?n \<and> nat (m_next q') < ?n"
  proof -
    have "pool.takes j s = Inr (ls, s') \<Longrightarrow> pool_ready s \<Longrightarrow>
        nat (m_next s') mod length (m_loops s) = (nat (m_next s) + j) mod length (m_loops s)" for j s ls s'
    proof (induction j arbitrary: s ls)
      case 0
      then show ?case by simp
    next
      case (Suc j)
      obtain s1 where s1: "next_loop s = Inr (m_loops s ! nat (m_next s), s1)" "pool_ready s1"
          "m_loops s1 = m_loops s" "nat (m_next s1) = Suc (nat (m_next s)) mod length (m_loops s)"
        using pool.next_ok [OF Suc.prems(2)] by auto
      obtain ls' where "pool.takes j s1 = Inr (ls', s')"
        using Suc.prems(1) s1(1) by (auto simp: bind_r_eq_Inr)
      from Suc.IH [OF this s1(2)] s1(3,4) show ?case by (simp add: mod_simps)
    qed
    from this [OF q'(1) ready] pool.pos_less [OF q'(2)] show ?thesis
      using n q'(3) assms(4) by (simp add: q)
  qed
  obtain q'' where "pool.takes ?n q' = Inr (rotate (nat (m_next q')) (m_loops q), q'')"
    using pool.takes_cyclic [OF q'(2), of ?n] q'(3) n rotate_upt [of "m_loops q" "nat (m_next q')"] by auto
  then have "\<exists>q''. getNextLoops ?n q' = Inr (rotate k (m_loops q), q'')"
    using pos n by (metis getNextLoops_takes rotate_conv_mod)
  moreover have "\<exists>l \<in> set (m_loops q). GetLoopForHash q h = Some l"
  proof -
    have "m_loops q \<noteq> []" using n assms(5) by auto
    moreover have "length (m_loops q) < 2 ^ 63" using n assms(6) by simp
    ultimately have "unat (h mod vec_size (m_loops q)) < length (m_loops q)"
      by (simp add: hash_index)
    with \<open>m_loops q \<noteq> []\<close> show ?thesis by (simp add: GetLoopForHash_def)
  qed
  moreover have "fst (EventLoopThreadPool_start cb started q) = q"
    by (simp add: EventLoopThreadPool_start_def q)
  ultimately show ?thesis using loops q'(1) by (auto simp: getNextLoops_takes)
qed

theorem pool_round_robin_witness:
  "\<exists>q' ls. getNextLoops 1 (fst (EventLoopThreadPool_start False (\<lambda>i. 100 + i)
       (EventLoopThreadPool_init (Some 1) 3 EventLoopThreadPool_new))) = Inr (ls, q') \<and> length ls = 1"
proof -
  let ?p = "EventLoopThreadPool_init (Some 1) 3 EventLoopThreadPool_new"
  have "m_baseLoop ?p \<noteq> None" "\<not> m_started ?p" "m_loops ?p = []" "m_next ?p = 0"
    "0 < m_numberThreads ?p" "m_numberThreads ?p < 2 ^ 31"
    by (simp_all add: EventLoopThreadPool_init_def EventLoopThreadPool_new_def)
  from pool_round_robin [OF this refl, of False "\<lambda>i. 100 + i" 1 0] show ?thesis by blast
qed

end
