(* ===== verification/PoolThreads.thy ===== *)
theory PoolThreads
  imports LoopThreads LoopPools
begin

text \<open>
  \<open>EventLoopThreadPool::start\<close> and \<open>stop\<close> of \<open>src/Net/EventLoopThreadPool.cpp\<close> with the threads they
  start: the pool's caller runs \<open>startLoop\<close> and \<open>stopLoop\<close> of one thread after the other, as
  \<open>LoopThreads\<close> models them, while every thread runs its \<open>threadFunc\<close> beside it. The interleaved
  start is related to the sequential one of \<open>LoopPools\<close>.
\<close>

section \<open>The pool and its threads\<close>

text \<open>Where the caller is: starting thread \<open>i\<close>, between the two calls, stopping thread \<open>i\<close>, after \<open>stop\<close>.\<close>

datatype pool_pc = P_Start nat | P_Running | P_Stop nat | P_Stopped

record ('k, 'cb) pool_system =
  sys_pool :: EventLoopThreadPool
  sys_threads :: "('k, 'cb) EventLoopThread list"
  sys_caller :: pool_pc

text \<open>\<open>start\<close> after its test: the flag is set, the threads are still to come.\<close>

definition pool_system_new :: "('k, 'cb) thread_env list \<Rightarrow> EventLoopThreadPool \<Rightarrow> ('k, 'cb) pool_system" where
  "pool_system_new envs p = \<lparr>sys_pool = p\<lparr>m_started := True\<rparr>, sys_threads = map (\<lambda>_. EventLoopThread_new) envs,
     sys_caller = P_Start 0\<rparr>"

definition thread_at :: "('k, 'cb) pool_system \<Rightarrow> nat \<Rightarrow> ('k, 'cb) EventLoopThread" where
  "thread_at s i = sys_threads s ! i"

definition set_thread :: "nat \<Rightarrow> ('k, 'cb) EventLoopThread \<Rightarrow> ('k, 'cb) pool_system \<Rightarrow> ('k, 'cb) pool_system" where
  "set_thread i t s = s\<lparr>sys_threads := (sys_threads s)[i := t]\<rparr>"

text \<open>What the loop of \<open>start\<close> does with the loop \<open>l\<close> that \<open>startLoop\<close> of thread \<open>i\<close> returned.\<close>

definition store_thread :: "nat \<Rightarrow> nat \<Rightarrow> EventLoopThreadPool \<Rightarrow> EventLoopThreadPool" where
  "store_thread i l p = p\<lparr>m_loops := m_loops p @ [l],
     m_threads := m_threads p @ [snprintf_buf 128 (c_str (m_name p) @ show_nat i)]\<rparr>"

inductive pool_step :: "('k, 'cb) thread_env list \<Rightarrow> ('k, 'cb) pool_system \<Rightarrow> ('k, 'cb) pool_system \<Rightarrow> bool" for envs where
  p_worker: "i < length envs \<Longrightarrow> worker_step (envs ! i) (thread_at s i) t \<Longrightarrow> pool_step envs s (set_thread i t s)"
| p_startLoop: "sys_caller s = P_Start i \<Longrightarrow> i < length envs \<Longrightarrow> lt_owner (thread_at s i) \<noteq> S_Running \<Longrightarrow>
    owner_step (thread_at s i) t \<Longrightarrow> pool_step envs s (set_thread i t s)"
| p_started: "sys_caller s = P_Start i \<Longrightarrow> i < length envs \<Longrightarrow> lt_owner (thread_at s i) = S_Running \<Longrightarrow>
    lt_result (thread_at s i) = Some l \<Longrightarrow>
    pool_step envs s (s\<lparr>sys_pool := store_thread i l (sys_pool s), sys_caller := P_Start (Suc i)\<rparr>)"
| p_start_end: "sys_caller s = P_Start (length envs) \<Longrightarrow> pool_step envs s (s\<lparr>sys_caller := P_Running\<rparr>)"
| p_stop: "sys_caller s = P_Running \<Longrightarrow> pool_step envs s (s\<lparr>sys_caller := P_Stop 0\<rparr>)"
| p_stopLoop: "sys_caller s = P_Stop i \<Longrightarrow> i < length envs \<Longrightarrow> owner_step (thread_at s i) t \<Longrightarrow> \<not> m_exiting t \<Longrightarrow>
    pool_step envs s (set_thread i t s)"
| p_stopped: "sys_caller s = P_Stop i \<Longrightarrow> i < length envs \<Longrightarrow> lt_owner (thread_at s i) = S_Joined \<Longrightarrow>
    pool_step envs s (s\<lparr>sys_caller := P_Stop (Suc i)\<rparr>)"
| p_stop_end: "sys_caller s = P_Stop (length envs) \<Longrightarrow> pool_step envs s (s\<lparr>sys_caller := P_Stopped\<rparr>)"

inductive pool_reach :: "('k, 'cb) thread_env list \<Rightarrow> EventLoopThreadPool \<Rightarrow> ('k, 'cb) pool_system \<Rightarrow> bool" for envs p where
  pr_init: "pool_reach envs p (pool_system_new envs p)"
| pr_step: "pool_reach envs p s \<Longrightarrow> pool_step envs s s' \<Longrightarrow> pool_reach envs p s'"

section \<open>Invariant\<close>

lemma thread_at_set [simp]:
  "i < length (sys_threads s) \<Longrightarrow> thread_at (set_thread i t s) j = (if j = i then t else thread_at s j)"
  "sys_pool (set_thread i t s) = sys_pool s" "sys_caller (set_thread i t s) = sys_caller s"
  "length (sys_threads (set_thread i t s)) = length (sys_threads s)"
  by (simp_all add: thread_at_def set_thread_def nth_list_update list_update_beyond)

lemma thread_at_update [simp]:
  "thread_at (s\<lparr>sys_caller := pc\<rparr>) j = thread_at s j" "thread_at (s\<lparr>sys_pool := p\<rparr>) j = thread_at s j"
  "thread_at (s\<lparr>sys_pool := p, sys_caller := pc\<rparr>) j = thread_at s j"
  by (simp_all add: thread_at_def)

text \<open>What the caller's position says of the owner's side of thread \<open>j\<close>.\<close>

definition owner_at :: "pool_pc \<Rightarrow> nat \<Rightarrow> owner_pc \<Rightarrow> bool" where
  "owner_at pc j ow =
     (case pc of
        P_Start i \<Rightarrow> if j < i then ow = S_Running else if j = i then ow \<notin> {S_Joining, S_Joined} else ow = S_Start
      | P_Running \<Rightarrow> ow = S_Running
      | P_Stop i \<Rightarrow> if j < i then ow = S_Joined else if j = i then ow \<in> {S_Running, S_Joining, S_Joined} else ow = S_Running
      | P_Stopped \<Rightarrow> ow = S_Joined)"

definition stored :: "('k, 'cb) thread_env list \<Rightarrow> EventLoopThreadPool \<Rightarrow> pool_pc \<Rightarrow> EventLoopThreadPool" where
  "stored envs p pc =
     start_threads 0 (map te_addr (take (case pc of P_Start i \<Rightarrow> i | _ \<Rightarrow> length envs) envs)) (p\<lparr>m_started := True\<rparr>)"

definition pool_system_inv :: "('k, 'cb) thread_env list \<Rightarrow> EventLoopThreadPool \<Rightarrow> ('k, 'cb) pool_system \<Rightarrow> bool" where
  "pool_system_inv envs p s \<longleftrightarrow>
     length (sys_threads s) = length envs \<and>
     (\<forall>j < length envs. thread_reach (envs ! j) (thread_at s j) \<and> owner_at (sys_caller s) j (lt_owner (thread_at s j))) \<and>
     (\<forall>i. sys_caller s = P_Start i \<or> sys_caller s = P_Stop i \<longrightarrow> i \<le> length envs) \<and>
     sys_pool s = stored envs p (sys_caller s)"

lemma start_threads_snoc:
  "start_threads i (ls @ [l]) p = store_thread (i + length ls) l (start_threads i ls p)"
  by (induction ls arbitrary: i p) (simp_all add: store_thread_def)

lemma worker_step_owner:
  "worker_step env s s' \<Longrightarrow> lt_owner s' = lt_owner s \<or> lt_owner s = S_Waiting \<and> lt_owner s' = S_Lock"
  by (induction rule: worker_step.induct) auto

lemma owner_step_start:
  "owner_step s s' \<Longrightarrow> lt_owner s \<notin> {S_Running, S_Joining, S_Joined} \<Longrightarrow> lt_owner s' \<notin> {S_Joining, S_Joined}"
  by (induction rule: owner_step.induct) auto

lemma owner_step_stop:
  "owner_step s s' \<Longrightarrow> lt_owner s \<in> {S_Running, S_Joining, S_Joined} \<Longrightarrow> lt_owner s' \<in> {S_Running, S_Joining, S_Joined}"
  by (induction rule: owner_step.induct) auto

lemma owner_at_waiting: "owner_at pc j S_Waiting \<Longrightarrow> owner_at pc j S_Lock"
  by (auto simp: owner_at_def split: pool_pc.splits if_splits)

lemma pool_step_inv:
  assumes "pool_step envs s s'" and "pool_system_inv envs p s"
  shows "pool_system_inv envs p s'"
  using assms
proof (induction rule: pool_step.induct)
  case (p_worker i s t)
  have "thread_reach (envs ! i) t"
    using p_worker by (auto simp: pool_system_inv_def thread_step_def intro: tr_step)
  moreover have "owner_at (sys_caller s) i (lt_owner t)"
    using worker_step_owner [OF p_worker(2)] p_worker(1,3) owner_at_waiting by (fastforce simp: pool_system_inv_def)
  ultimately show ?case using p_worker by (simp add: pool_system_inv_def)
next
  case (p_startLoop s i t)
  have "thread_reach (envs ! i) t" and "lt_owner (thread_at s i) \<notin> {S_Joining, S_Joined}"
    using p_startLoop by (auto simp: pool_system_inv_def thread_step_def owner_at_def intro: tr_step)
  then show ?case using p_startLoop owner_step_start [OF p_startLoop(4)] by (auto simp: pool_system_inv_def owner_at_def)
next
  case (p_started s i l)
  have r: "thread_reach (envs ! i) (thread_at s i)" using p_started by (simp add: pool_system_inv_def)
  have "l = te_addr (envs ! i)" using thread_reach_inv [OF r] p_started(3,4) by (simp add: thread_inv_def)
  then have "stored envs p (P_Start (Suc i)) = store_thread i l (stored envs p (P_Start i))"
    using p_started(2) start_threads_snoc [of 0 "map te_addr (take i envs)" l] by (simp add: stored_def take_Suc_conv_app_nth)
  moreover have "owner_at (P_Start (Suc i)) j (lt_owner (thread_at s j))" if "j < length envs" for j
  proof -
    have "owner_at (P_Start i) j (lt_owner (thread_at s j))" using p_started(1,5) that by (auto simp: pool_system_inv_def)
    then show ?thesis using p_started(3) by (auto simp: owner_at_def split: if_splits)
  qed
  ultimately show ?case using p_started by (simp add: pool_system_inv_def)
next
  case (p_start_end s)
  then show ?case by (auto simp: pool_system_inv_def owner_at_def stored_def)
next
  case (p_stop s)
  then show ?case by (auto simp: pool_system_inv_def owner_at_def stored_def)
next
  case (p_stopLoop s i t)
  have "thread_reach (envs ! i) t" and "lt_owner (thread_at s i) \<in> {S_Running, S_Joining, S_Joined}"
    using p_stopLoop by (auto simp: pool_system_inv_def thread_step_def owner_at_def intro: tr_step)
  then show ?case using p_stopLoop owner_step_stop [OF p_stopLoop(3)] by (auto simp: pool_system_inv_def owner_at_def)
next
  case (p_stopped s i)
  have "owner_at (P_Stop (Suc i)) j (lt_owner (thread_at s j))" if "j < length envs" for j
  proof -
    have "owner_at (P_Stop i) j (lt_owner (thread_at s j))" using p_stopped(1,4) that by (auto simp: pool_system_inv_def)
    then show ?thesis using p_stopped(3) by (auto simp: owner_at_def split: if_splits)
  qed
  then show ?case using p_stopped by (simp add: pool_system_inv_def stored_def)
next
  case (p_stop_end s)
  then show ?case by (auto simp: pool_system_inv_def owner_at_def stored_def)
qed

lemma pool_reach_inv: "pool_reach envs p s \<Longrightarrow> pool_system_inv envs p s"
proof (induction rule: pool_reach.induct)
  case pr_init
  then show ?case
    by (auto simp: pool_system_inv_def pool_system_new_def thread_at_def owner_at_def stored_def EventLoopThread_new_def
        intro: tr_init [unfolded EventLoopThread_new_def])
qed (rule pool_step_inv)

section \<open>Progress\<close>

lemma pool_steps_reach: "(pool_step envs)\<^sup>*\<^sup>* s s' \<Longrightarrow> pool_reach envs p s \<Longrightarrow> pool_reach envs p s'"
  by (induction rule: rtranclp_induct) (auto intro: pr_step)

lemma startLoop_returns:
  "pool_reach envs p s \<Longrightarrow> sys_caller s = P_Start i \<Longrightarrow> i < length envs \<Longrightarrow>
   \<exists>s'. (pool_step envs)\<^sup>*\<^sup>* s s' \<and> sys_caller s' = P_Start i \<and> lt_owner (thread_at s' i) = S_Running"
proof (induction "start_rank (thread_at s i)" arbitrary: s rule: less_induct)
  case less
  note inv = pool_reach_inv [OF less.prems(1)]
  show ?case
  proof (cases "lt_owner (thread_at s i) = S_Running")
    case True
    then show ?thesis using less.prems by blast
  next
    case False
    have "thread_inv (envs ! i) (thread_at s i)" and "lt_owner (thread_at s i) \<notin> {S_Running, S_Joining, S_Joined}"
      and len: "i < length (sys_threads s)"
      using inv less.prems False by (auto simp: pool_system_inv_def owner_at_def intro: thread_reach_inv)
    from start_progress [OF this(1,2)] obtain t where
      t: "thread_step (envs ! i) (thread_at s i) t" "start_rank t < start_rank (thread_at s i)" by blast
    have step: "pool_step envs s (set_thread i t s)"
      using t(1) less.prems(2,3) False unfolding thread_step_def by (auto intro: p_worker p_startLoop)
    have "start_rank (thread_at (set_thread i t s) i) < start_rank (thread_at s i)" using t(2) len by simp
    from less.hyps [OF this pr_step [OF less.prems(1) step] _ less.prems(3)] less.prems(2) step show ?thesis
      by (auto intro: converse_rtranclp_into_rtranclp)
  qed
qed

lemma start_completes:
  "pool_reach envs p s \<Longrightarrow> sys_caller s = P_Start i \<Longrightarrow> \<exists>s'. (pool_step envs)\<^sup>*\<^sup>* s s' \<and> sys_caller s' = P_Running"
proof (induction "length envs - i" arbitrary: s i)
  case 0
  then have "sys_caller s = P_Start (length envs)" using pool_reach_inv [OF 0(2)] by (fastforce simp: pool_system_inv_def)
  from p_start_end [OF this] show ?case by (auto intro!: exI [of _ "s\<lparr>sys_caller := P_Running\<rparr>"])
next
  case (Suc k)
  then have i: "i < length envs" by simp
  obtain s1 where s1: "(pool_step envs)\<^sup>*\<^sup>* s s1" "sys_caller s1 = P_Start i" "lt_owner (thread_at s1 i) = S_Running"
    using startLoop_returns [OF Suc.prems i] by blast
  have r1: "pool_reach envs p s1" by (rule pool_steps_reach [OF s1(1) Suc.prems(1)])
  have "thread_inv (envs ! i) (thread_at s1 i)"
    using pool_reach_inv [OF r1] i by (auto simp: pool_system_inv_def intro: thread_reach_inv)
  then have res: "lt_result (thread_at s1 i) = Some (te_addr (envs ! i))" using s1(3) by (simp add: thread_inv_def)
  note step = p_started [OF s1(2) i s1(3) res]
  have "k = length envs - Suc i" using Suc.hyps(2) by simp
  from Suc.hyps(1) [OF this pr_step [OF r1 step]] obtain s' where
    "(pool_step envs)\<^sup>*\<^sup>* (s1\<lparr>sys_pool := store_thread i (te_addr (envs ! i)) (sys_pool s1), sys_caller := P_Start (Suc i)\<rparr>) s'"
    "sys_caller s' = P_Running" by auto
  then show ?case using s1(1) step by (meson converse_rtranclp_into_rtranclp rtranclp_trans)
qed

section \<open>Properties\<close>

text \<open>C10. Starting the pool implements its sequential description. From every state that the caller and
  the threads can reach while \<open>start\<close> runs, in any interleaving, \<open>start\<close> can still return; and once it has
  returned the pool is what the sequential \<open>start\<close> makes of the loops the threads constructed: one
  loop and one name per thread, in order.\<close>

theorem pool_start_implements:
  assumes "pool_reach envs p s" and "m_baseLoop p \<noteq> None" and "\<not> m_started p" and "m_numberThreads p = int (length envs)"
  shows "((\<exists>i. sys_caller s = P_Start i) \<longrightarrow> (\<exists>s'. (pool_step envs)\<^sup>*\<^sup>* s s' \<and> sys_caller s' = P_Running)) \<and>
    ((\<forall>i. sys_caller s \<noteq> P_Start i) \<longrightarrow>
      sys_pool s = fst (EventLoopThreadPool_start cb (\<lambda>i. te_addr (envs ! i)) p))"
proof (intro conjI impI)
  show "\<exists>s'. (pool_step envs)\<^sup>*\<^sup>* s s' \<and> sys_caller s' = P_Running" if "\<exists>i. sys_caller s = P_Start i"
    using start_completes [OF assms(1)] that by blast
  assume ns: "\<forall>i. sys_caller s \<noteq> P_Start i"
  have "map (\<lambda>i. te_addr (envs ! i)) [0..<length envs] = map te_addr envs" by (rule nth_equalityI) simp_all
  moreover have "sys_pool s = start_threads 0 (map te_addr envs) (p\<lparr>m_started := True\<rparr>)"
    using pool_reach_inv [OF assms(1)] ns by (cases "sys_caller s") (auto simp: pool_system_inv_def stored_def)
  ultimately show "sys_pool s = fst (EventLoopThreadPool_start cb (\<lambda>i. te_addr (envs ! i)) p)"
    using assms(2-4) by (auto simp: EventLoopThreadPool_start_def)
qed

text \<open>Stopping a pool that has a thread never returns, and stops nobody. \<open>stop\<close> stays in the join of the
  first thread; whatever the threads do, none of them ends its loop, and \<open>stopLoop\<close> of the
  others is never called. It is the \<open>stop\<close> of the sequential description with joins that do not return.\<close>

theorem pool_stop_never_returns:
  assumes "pool_reach envs p s" and "envs \<noteq> []"
  shows "sys_caller s \<noteq> P_Stopped \<and> (\<forall>i. sys_caller s = P_Stop i \<longrightarrow> i = 0) \<and>
    (\<forall>j < length envs. lt_thread (thread_at s j) \<noteq> T_Done \<and> lt_owner (thread_at s j) \<noteq> S_Joined \<and>
       (0 < j \<longrightarrow> lt_owner (thread_at s j) \<noteq> S_Joining)) \<and>
    ((\<forall>i. sys_caller s \<noteq> P_Start i) \<and> m_threads p = [] \<longrightarrow>
       EventLoopThreadPool_stop (\<lambda>i. lt_owner (thread_at s i) = S_Joined) (sys_pool s) = ([hd (m_threads (sys_pool s))], False))"
proof -
  note inv = pool_reach_inv [OF assms(1)]
  have th: "lt_thread (thread_at s j) \<noteq> T_Done" "lt_owner (thread_at s j) \<noteq> S_Joined"
    "owner_at (sys_caller s) j (lt_owner (thread_at s j))" if "j < length envs" for j
    using inv that thread_reach_inv [of "envs ! j" "thread_at s j"] by (auto simp: pool_system_inv_def thread_inv_def)
  have 0: "0 < length envs" using assms(2) by simp
  have "sys_caller s \<noteq> P_Stopped" using th [OF 0] by (auto simp: owner_at_def)
  moreover have stop: "i = 0" if "sys_caller s = P_Stop i" for i
    using th [OF 0] that by (auto simp: owner_at_def split: if_splits)
  moreover have "lt_owner (thread_at s j) \<noteq> S_Joining" if "j < length envs" "0 < j" for j
    using th [OF that(1)] that(2) stop by (cases "sys_caller s") (auto simp: owner_at_def split: if_splits)
  moreover have "EventLoopThreadPool_stop (\<lambda>i. lt_owner (thread_at s i) = S_Joined) (sys_pool s) =
      ([hd (m_threads (sys_pool s))], False)" if "\<forall>i. sys_caller s \<noteq> P_Start i" "m_threads p = []"
  proof -
    have "length (m_threads (sys_pool s)) = length envs"
      using inv that by (cases "sys_caller s") (simp_all add: pool_system_inv_def stored_def)
    with 0 obtain t ts where "m_threads (sys_pool s) = t # ts" by (cases "m_threads (sys_pool s)") auto
    with th(2) [OF 0] show ?thesis by (simp add: EventLoopThreadPool_stop_def)
  qed
  ultimately show ?thesis using th by blast
qed

definition demo_envs :: "(unit, nat) thread_env list" where
  "demo_envs = [demo_env, demo_env\<lparr>te_addr := 200\<rparr>]"

definition demo_pool :: EventLoopThreadPool where
  "demo_pool = EventLoopThreadPool_init (Some 1) 2 EventLoopThreadPool_new"

lemma demo_pool_ok: "m_baseLoop demo_pool \<noteq> None" "\<not> m_started demo_pool" "m_numberThreads demo_pool = int (length demo_envs)"
  by (simp_all add: demo_pool_def demo_envs_def EventLoopThreadPool_init_def EventLoopThreadPool_new_def)

theorem pool_start_implements_witness:
  "\<exists>s. pool_reach demo_envs demo_pool s \<and> sys_caller s = P_Running \<and> m_loops (sys_pool s) = [100, 200]"
proof -
  have "\<exists>i. sys_caller (pool_system_new demo_envs demo_pool) = P_Start i" by (simp add: pool_system_new_def)
  with pool_start_implements [OF pr_init demo_pool_ok]
  obtain s where s: "(pool_step demo_envs)\<^sup>*\<^sup>* (pool_system_new demo_envs demo_pool) s" "sys_caller s = P_Running" by blast
  have r: "pool_reach demo_envs demo_pool s" by (rule pool_steps_reach [OF s(1) pr_init])
  have "sys_pool s = fst (EventLoopThreadPool_start False (\<lambda>i. te_addr (demo_envs ! i)) demo_pool)"
    using pool_start_implements [OF r demo_pool_ok] s(2) by simp
  then have "m_loops (sys_pool s) = [100, 200]"
    by (simp add: EventLoopThreadPool_start_def demo_pool_def demo_envs_def demo_env_def EventLoopThreadPool_init_def
        EventLoopThreadPool_new_def numeral_2_eq_2)
  then show ?thesis using r s(2) by blast
qed

lemma exiting_owner: "thread_reach env s \<Longrightarrow> m_exiting s \<Longrightarrow> lt_owner s \<in> {S_Joining, S_Joined}"
proof (induction rule: thread_reach.induct)
  case tr_init
  then show ?case by (simp add: EventLoopThread_new_def)
next
  case (tr_step s s')
  have "m_exiting s \<longrightarrow> lt_owner s \<in> {S_Joining, S_Joined}" using tr_step.IH by blast
  then show ?case using tr_step(2,4) unfolding thread_step_def
    by (auto elim!: owner_step.cases worker_step.cases split: if_splits)
qed

theorem pool_stop_never_returns_witness:
  "\<exists>s. pool_reach demo_envs demo_pool s \<and> sys_caller s = P_Stop 0 \<and> lt_owner (thread_at s 0) = S_Joining \<and>
     lt_owner (thread_at s 1) \<noteq> S_Joining \<and> lt_thread (thread_at s 0) \<noteq> T_Done"
proof -
  have 2: "0 < length demo_envs" "1 < length demo_envs" "demo_envs \<noteq> []" by (simp_all add: demo_envs_def)
  have "sys_caller (pool_system_new demo_envs demo_pool) = P_Start 0" by (simp add: pool_system_new_def)
  from start_completes [OF pr_init this]
  obtain s where s: "(pool_step demo_envs)\<^sup>*\<^sup>* (pool_system_new demo_envs demo_pool) s" "sys_caller s = P_Running" by blast
  have r: "pool_reach demo_envs demo_pool s" by (rule pool_steps_reach [OF s(1) pr_init])
  let ?s = "s\<lparr>sys_caller := P_Stop 0\<rparr>"
  have r1: "pool_reach demo_envs demo_pool ?s" by (rule pr_step [OF r p_stop [OF s(2)]])
  have run: "lt_owner (thread_at ?s 0) = S_Running" and len: "0 < length (sys_threads ?s)"
    and th: "thread_reach (demo_envs ! 0) (thread_at ?s 0)"
    using pool_reach_inv [OF r] s(2) 2 by (auto simp: pool_system_inv_def owner_at_def)
  have ex: "\<not> m_exiting (thread_at ?s 0)" using exiting_owner [OF th] run by auto
  from o_stop [OF run] obtain t where t: "owner_step (thread_at ?s 0) t" "lt_owner t = S_Joining" "\<not> m_exiting t"
    using ex by fastforce
  have "pool_step demo_envs ?s (set_thread 0 t ?s)" by (rule p_stopLoop) (use 2 t in simp_all)
  then have r2: "pool_reach demo_envs demo_pool (set_thread 0 t ?s)" by (rule pr_step [OF r1])
  have "sys_caller (set_thread 0 t ?s) = P_Stop 0" "lt_owner (thread_at (set_thread 0 t ?s) 0) = S_Joining"
    using t(2) len by simp_all
  moreover have "lt_owner (thread_at (set_thread 0 t ?s) 1) \<noteq> S_Joining \<and> lt_thread (thread_at (set_thread 0 t ?s) 0) \<noteq> T_Done"
    using pool_stop_never_returns [OF r2 2(3)] 2 by simp
  ultimately show ?thesis using r2 by blast
qed

end
