(* ===== verification/Sockets.thy ===== *)
theory Sockets
  imports CLib
begin

text \<open>
  \<open>src/Net/KaSocket.h\<close> and \<open>KaSocket.cpp\<close>: addresses and the wrappers around the socket calls of the
  system. The system is a parameter: \<open>sys\<close> maps its state and a call to what the call returned and
  the new state. Messages printed to the standard output are left out.
\<close>

section \<open>System calls\<close>

record sockaddr_in =
  sin_family :: u16
  sin_port :: u16
  s_addr :: u32

datatype sock_option = TCP_NODELAY | SO_REUSEADDR | SO_REUSEPORT | SO_KEEPALIVE

datatype syscall =
    Sys_socket
  | Sys_bind fd sockaddr_in
  | Sys_listen fd int
  | Sys_connect fd sockaddr_in
  | Sys_accept fd
  | Sys_getflags fd
  | Sys_setflags fd u32
  | Sys_setsockopt fd sock_option int
  | Sys_getsockerror fd
  | Sys_close fd
  | Sys_shutdown_write fd
  | Sys_getsockname fd
  | Sys_getpeername fd
  | Sys_send fd string

text \<open>\<open>Sys_send\<close> stands for \<open>send\<close> with the flags 0, which only the test program calls.\<close>

text \<open>The result of a call: its value, the address or option it stored, and \<open>errno\<close>.\<close>

record sysret =
  ret_val :: int
  ret_addr :: "sockaddr_in option"
  ret_opt :: int
  ret_errno :: int

type_synonym 'k system = "'k \<Rightarrow> syscall \<Rightarrow> sysret \<times> 'k"

definition call :: "'k system \<Rightarrow> syscall \<Rightarrow> 'k \<Rightarrow> int \<times> 'k" where
  "call sys c k = (let (r, k') = sys k c in (ret_val r, k'))"

definition AF_INET :: u16 where "AF_INET = 2"

definition O_NONBLOCK :: u32 where "O_NONBLOCK = 0x800"

section \<open>Addresses\<close>

definition PORT :: int where
  "PORT = 88888"

definition IPADDR :: string where
  "IPADDR = ''127.0.0.1''"

text \<open>The constructors; \<open>inet_addr\<close> is the library function, the port argument a 16-bit \<open>short\<close>.\<close>

definition KaNetAddr_ip :: "(string \<Rightarrow> u32) \<Rightarrow> string \<Rightarrow> u16 \<Rightarrow> sockaddr_in" where
  "KaNetAddr_ip inet_addr ip port =
     \<lparr>sin_family = AF_INET, sin_port = htons port, s_addr = inet_addr (c_str ip)\<rparr>"

definition KaNetAddr_default :: "(string \<Rightarrow> u32) \<Rightarrow> sockaddr_in" where
  "KaNetAddr_default inet_addr =
     \<lparr>sin_family = AF_INET, sin_port = htons (word_of_int PORT), s_addr = inet_addr IPADDR\<rparr>"

text \<open>\<open>ToString\<close> prints the fields as they are stored, in network byte order, the address as a signed
  number.\<close>

definition KaNetAddr_ToString :: "sockaddr_in \<Rightarrow> string" where
  "KaNetAddr_ToString a =
     c_str (snprintf_buf 512
       (''IP:'' @ show_int (sint (s_addr a)) @ '',Port='' @ show_int (uint (sin_port a))))"

section \<open>Global functions\<close>

definition KaNet_Bind :: "'k system \<Rightarrow> sockaddr_in \<Rightarrow> fd \<Rightarrow> 'k \<Rightarrow> int \<times> 'k" where
  "KaNet_Bind sys addr f = call sys (Sys_bind f addr)"

definition KaNet_Listen :: "'k system \<Rightarrow> fd \<Rightarrow> int \<Rightarrow> 'k \<Rightarrow> int \<times> 'k" where
  "KaNet_Listen sys sockfd backlog = call sys (Sys_listen sockfd backlog)"

definition KaNet_Connect :: "'k system \<Rightarrow> fd \<Rightarrow> sockaddr_in \<Rightarrow> 'k \<Rightarrow> int \<times> 'k" where
  "KaNet_Connect sys f addr = call sys (Sys_connect f addr)"

text \<open>\<open>accept\<close> overwrites the address it is given when it stores a peer address.\<close>

definition KaNet_Accept :: "'k system \<Rightarrow> fd \<Rightarrow> sockaddr_in \<Rightarrow> 'k \<Rightarrow> int \<times> sockaddr_in \<times> 'k" where
  "KaNet_Accept sys sockfd addr k =
     (let (r, k') = sys k (Sys_accept sockfd)
      in (ret_val r, case ret_addr r of None \<Rightarrow> addr | Some a \<Rightarrow> a, k'))"

definition KaNet_Socket :: "'k system \<Rightarrow> 'k \<Rightarrow> int \<times> 'k" where
  "KaNet_Socket sys = call sys Sys_socket"

definition setSocketNoBlock :: "'k system \<Rightarrow> fd \<Rightarrow> 'k \<Rightarrow> int \<times> 'k" where
  "setSocketNoBlock sys sock k =
     (let (flags, k1) = call sys (Sys_getflags sock) k
      in call sys (Sys_setflags sock (word_of_int flags OR O_NONBLOCK)) k1)"

definition SocketNoBlock :: "'k system \<Rightarrow> 'k \<Rightarrow> int \<times> 'k" where
  "SocketNoBlock sys k =
     (let (f, k1) = call sys Sys_socket k; (_, k2) = setSocketNoBlock sys f k1 in (f, k2))"

definition setSocketNoDelay :: "'k system \<Rightarrow> fd \<Rightarrow> bool \<Rightarrow> 'k \<Rightarrow> int \<times> 'k" where
  "setSocketNoDelay sys sock off = call sys (Sys_setsockopt sock TCP_NODELAY (if off then 1 else 0))"

definition setSocketReuseAddr :: "'k system \<Rightarrow> fd \<Rightarrow> bool \<Rightarrow> 'k \<Rightarrow> int \<times> 'k" where
  "setSocketReuseAddr sys sock off = call sys (Sys_setsockopt sock SO_REUSEADDR (if off then 1 else 0))"

definition setSocketReusePort :: "'k system \<Rightarrow> fd \<Rightarrow> bool \<Rightarrow> 'k \<Rightarrow> int \<times> 'k" where
  "setSocketReusePort sys sock off = call sys (Sys_setsockopt sock SO_REUSEPORT (if off then 1 else 0))"

definition setSocketKeeplive :: "'k system \<Rightarrow> fd \<Rightarrow> bool \<Rightarrow> 'k \<Rightarrow> int \<times> 'k" where
  "setSocketKeeplive sys sock off = call sys (Sys_setsockopt sock SO_KEEPALIVE (if off then 1 else 0))"

definition getSocketError :: "'k system \<Rightarrow> fd \<Rightarrow> 'k \<Rightarrow> int \<times> 'k" where
  "getSocketError sys f k =
     (let (r, k') = sys k (Sys_getsockerror f)
      in (if ret_val r \<noteq> 0 then ret_errno r else ret_opt r, k'))"

definition KaNet_close :: "'k system \<Rightarrow> fd \<Rightarrow> 'k \<Rightarrow> 'k" where
  "KaNet_close sys sockfd k = snd (call sys (Sys_close sockfd) k)"

definition KaNet_shutdownWrite :: "'k system \<Rightarrow> fd \<Rightarrow> 'k \<Rightarrow> 'k" where
  "KaNet_shutdownWrite sys sockfd k = snd (call sys (Sys_shutdown_write sockfd) k)"

definition zero_addr :: sockaddr_in where
  "zero_addr = \<lparr>sin_family = 0, sin_port = 0, s_addr = 0\<rparr>"

definition getLocalAddr :: "'k system \<Rightarrow> fd \<Rightarrow> 'k \<Rightarrow> sockaddr_in \<times> 'k" where
  "getLocalAddr sys sockfd k =
     (let (r, k') = sys k (Sys_getsockname sockfd)
      in (case ret_addr r of None \<Rightarrow> zero_addr | Some a \<Rightarrow> a, k'))"

definition getPeerAddr :: "'k system \<Rightarrow> fd \<Rightarrow> 'k \<Rightarrow> sockaddr_in \<times> 'k" where
  "getPeerAddr sys sockfd k =
     (let (r, k') = sys k (Sys_getpeername sockfd)
      in (case ret_addr r of None \<Rightarrow> zero_addr | Some a \<Rightarrow> a, k'))"

section \<open>Sockets\<close>

text \<open>A socket is its descriptor; the destructor closes it.\<close>

record KaSocket =
  so_fd :: fd

definition KaSocket_new :: "'k system \<Rightarrow> 'k \<Rightarrow> KaSocket \<times> 'k" where
  "KaSocket_new sys k = (let (f, k') = call sys Sys_socket k in (\<lparr>so_fd = f\<rparr>, k'))"

definition KaSocket_fd :: "KaSocket \<Rightarrow> fd" where
  "KaSocket_fd s = so_fd s"

definition KaNetAddr_of :: "sockaddr_in \<Rightarrow> sockaddr_in" where
  "KaNetAddr_of addr = addr"

definition GetAddr_in :: "sockaddr_in \<Rightarrow> sockaddr_in" where
  "GetAddr_in a = a"

definition KaSocket_of :: "fd \<Rightarrow> KaSocket" where
  "KaSocket_of sockfd = \<lparr>so_fd = sockfd\<rparr>"

definition KaSocket_delete :: "'k system \<Rightarrow> KaSocket \<Rightarrow> 'k \<Rightarrow> 'k" where
  "KaSocket_delete sys s k = snd (call sys (Sys_close (so_fd s)) k)"

definition bindAddr :: "'k system \<Rightarrow> KaSocket \<Rightarrow> sockaddr_in \<Rightarrow> 'k \<Rightarrow> int \<times> 'k" where
  "bindAddr sys s addr = KaNet_Bind sys addr (so_fd s)"

text \<open>\<open>listen\<close> returns 0 whatever the call returned.\<close>

definition KaSocket_listen :: "'k system \<Rightarrow> KaSocket \<Rightarrow> int \<Rightarrow> 'k \<Rightarrow> int \<times> 'k" where
  "KaSocket_listen sys s backlog k = (let (_, k') = KaNet_Listen sys (so_fd s) backlog k in (0, k'))"

definition KaSocket_connet :: "'k system \<Rightarrow> KaSocket \<Rightarrow> sockaddr_in \<Rightarrow> 'k \<Rightarrow> int \<times> 'k" where
  "KaSocket_connet sys s addr = KaNet_Connect sys (so_fd s) addr"

definition KaSocket_accept :: "'k system \<Rightarrow> KaSocket \<Rightarrow> sockaddr_in \<Rightarrow> 'k \<Rightarrow> int \<times> sockaddr_in \<times> 'k" where
  "KaSocket_accept sys s addr = KaNet_Accept sys (so_fd s) addr"

text \<open>\<open>setNonBlock\<close> ignores its argument.\<close>

definition setNonBlock :: "'k system \<Rightarrow> KaSocket \<Rightarrow> bool \<Rightarrow> 'k \<Rightarrow> int \<times> 'k" where
  "setNonBlock sys s off = setSocketNoBlock sys (so_fd s)"

definition setReuseAddr :: "'k system \<Rightarrow> KaSocket \<Rightarrow> bool \<Rightarrow> 'k \<Rightarrow> int \<times> 'k" where
  "setReuseAddr sys s off = setSocketReuseAddr sys (so_fd s) off"

definition setReusePort :: "'k system \<Rightarrow> KaSocket \<Rightarrow> bool \<Rightarrow> 'k \<Rightarrow> int \<times> 'k" where
  "setReusePort sys s off = setSocketReusePort sys (so_fd s) off"

definition setNoDelay :: "'k system \<Rightarrow> KaSocket \<Rightarrow> bool \<Rightarrow> 'k \<Rightarrow> int \<times> 'k" where
  "setNoDelay sys s off = setSocketNoDelay sys (so_fd s) off"

definition setKeepAlive :: "'k system \<Rightarrow> KaSocket \<Rightarrow> bool \<Rightarrow> 'k \<Rightarrow> int \<times> 'k" where
  "setKeepAlive sys s off = setSocketKeeplive sys (so_fd s) off"

definition getError :: "'k system \<Rightarrow> KaSocket \<Rightarrow> 'k \<Rightarrow> int \<times> 'k" where
  "getError sys s = getSocketError sys (so_fd s)"

definition shutdownWrite :: "'k system \<Rightarrow> KaSocket \<Rightarrow> 'k \<Rightarrow> 'k" where
  "shutdownWrite sys s = KaNet_shutdownWrite sys (so_fd s)"

section \<open>Printing addresses\<close>

lemma show_int_digits: "set (show_int i) \<subseteq> insert (CHR ''-'') {c. is_digit c}"
  using show_nat_digits by (auto simp: show_int_def list_all_iff)

lemma show_int_inj: "show_int i = show_int j \<longleftrightarrow> i = j"
proof
  assume eq: "show_int i = show_int j"
  have "CHR ''-'' # x \<noteq> show_nat n" "show_nat n \<noteq> CHR ''-'' # x" for x n
    using show_nat_digits [of n] by (metis list_all_iff list.set_intros(1) not_digit_sign(1))+
  then have "i < 0 \<longleftrightarrow> j < 0"
    using eq by (auto simp: show_int_def split: if_splits)
  with eq show "i = j" by (auto simp: show_int_def split: if_splits)
qed simp

lemma length_show_int32: "- (2 ^ 31) \<le> i \<Longrightarrow> i < 2 ^ 32 \<Longrightarrow> length (show_int i) \<le> 11"
proof -
  assume "- (2 ^ 31) \<le> i" "i < 2 ^ 32"
  then have "length (show_nat (nat \<bar>i\<bar>)) \<le> Suc 9"
    unfolding length_show_nat_le by auto
  then show ?thesis by (cases "i < 0") (simp_all add: show_int_def)
qed

lemma c_str_no_nul: "CHR 0x00 \<notin> set s \<Longrightarrow> c_str s = s"
  by (induction s) (auto simp: c_str_def)

lemma no_nul_show_int: "CHR 0x00 \<notin> set (show_int i)"
  using show_int_digits [of i] by (auto simp: is_digit_def)

lemma sint32_bounds: "- (2 ^ 31) \<le> sint (w :: u32)" "sint (w :: u32) < 2 ^ 32"
  using sint_range_size [of w] by (simp_all add: size_word_def)

lemma uint16_bounds: "- (2 ^ 31) \<le> uint (w :: u16)" "uint (w :: u16) < 2 ^ 32"
proof -
  show "- (2 ^ 31) \<le> uint w" by (rule order_trans [of _ 0]) simp_all
  show "uint w < 2 ^ 32" using uint_lt2p [of w] by simp
qed

lemma ToString_eq: "KaNetAddr_ToString a =
    ''IP:'' @ show_int (sint (s_addr a)) @ '',Port='' @ show_int (uint (sin_port a))"
proof -
  have "length (show_int (sint (s_addr a))) \<le> 11" "length (show_int (uint (sin_port a))) \<le> 11"
    by (rule length_show_int32; rule sint32_bounds uint16_bounds)+
  then have "length (''IP:'' @ show_int (sint (s_addr a)) @ '',Port='' @ show_int (uint (sin_port a))) < 512"
    by simp
  moreover have "CHR 0x00 \<notin> set (''IP:'' @ show_int (sint (s_addr a)) @ '',Port='' @ show_int (uint (sin_port a)))"
    using no_nul_show_int by simp
  ultimately show ?thesis
    unfolding KaNetAddr_ToString_def by (metis snprintf_buf_fits c_str_no_nul)
qed

lemma length_ToString: "16 \<le> length (KaNetAddr_ToString a) + 6" "length (KaNetAddr_ToString a) \<le> 31"
proof -
  have "length (show_int (sint (s_addr a))) \<le> 11" by (rule length_show_int32; rule sint32_bounds)
  moreover have "length (show_int (uint (sin_port a))) \<le> 5"
  proof -
    have "unat (sin_port a) < 10 ^ Suc 4" using unsigned_less [of "sin_port a", where ?'a = nat] by simp
    then have "length (show_nat (unat (sin_port a))) \<le> Suc 4" by (simp only: length_show_nat_le)
    then show ?thesis by (simp add: show_int_def)
  qed
  ultimately show "length (KaNetAddr_ToString a) \<le> 31" by (simp add: ToString_eq)
  have "0 < length (show_int (sint (s_addr a)))" "0 < length (show_int (uint (sin_port a)))"
    by (simp_all add: show_int_def)
  then have "1 \<le> length (show_int (sint (s_addr a)))" "1 \<le> length (show_int (uint (sin_port a)))"
    by linarith+
  then show "16 \<le> length (KaNetAddr_ToString a) + 6" by (simp add: ToString_eq)
qed

section \<open>Properties\<close>

text \<open>\<open>ToString\<close> never truncates, and tells addresses apart: two addresses print alike exactly
  when they agree in address and port, so the text can serve as a name of the peer.\<close>

theorem KaNetAddr_ToString_identifies:
  "KaNetAddr_ToString a = KaNetAddr_ToString b \<longleftrightarrow> s_addr a = s_addr b \<and> sin_port a = sin_port b"
proof
  assume eq: "KaNetAddr_ToString a = KaNetAddr_ToString b"
  let ?A = "show_int (sint (s_addr a))" and ?B = "show_int (sint (s_addr b))"
  have comma: "CHR '','' \<notin> set (show_int i)" for i
    using show_int_digits [of i] by (auto simp: is_digit_def)
  from eq have eq': "?A @ CHR '','' # ''Port='' @ show_int (uint (sin_port a)) =
      ?B @ CHR '','' # ''Port='' @ show_int (uint (sin_port b))"
    by (simp add: ToString_eq)
  have "takeWhile (\<lambda>c. c \<noteq> CHR '','') (x @ CHR '','' # y) = x"
      "dropWhile (\<lambda>c. c \<noteq> CHR '','') (x @ CHR '','' # y) = CHR '','' # y"
    if "CHR '','' \<notin> set x" for x y
    using that by (induction x) auto
  from this(1) [OF comma] this(2) [OF comma] eq'
  have "?A = ?B" "show_int (uint (sin_port a)) = show_int (uint (sin_port b))"
    by (metis, metis append_same_eq list.inject same_append_eq)
  then show "s_addr a = s_addr b \<and> sin_port a = sin_port b"
    by (metis show_int_inj signed_word_eqI unsigned_word_eqI)
qed (simp add: ToString_eq)

text \<open>The default address does not have the port it names: 88888 does not fit a \<open>short\<close>, and the
  port bound is 23352; and \<open>ToString\<close> prints that port with its bytes swapped, 14427.\<close>

theorem default_port_wraps:
  "unat (htons (sin_port (KaNetAddr_default inet))) = 23352 \<and>
   KaNetAddr_ToString (KaNetAddr_default inet) = ''IP:'' @ show_int (sint (inet IPADDR)) @ '',Port=14427''"
proof -
  have "sin_port (KaNetAddr_default inet) = 14427"
    by (simp add: KaNetAddr_default_def PORT_def htons_def)
  then show ?thesis
    by (simp add: KaNetAddr_default_def ToString_eq htons_def show_int_def show_nat.simps
        digit_char_def char_of_eq_iff)
qed

end
