(* ===== verification/Connections.thy ===== *)
theory Connections
  imports ByteBuffer Pollers Sockets
begin

text \<open>
  \<open>src/Net/TcpConnection.h\<close> and \<open>TcpConnection.cpp\<close>: a connection with its state, its channel in the
  poller of its loop, and its two buffers. An operation returns the new connection and poller and
  the trace of what it did: writes to the socket, socket calls and callbacks, in order. What a
  \<open>write\<close> returned is an argument. Callbacks are opaque values; calling an empty one throws.
\<close>

datatype StateE = DisConnected | Connecting | Connected | Disconnecting

datatype 'cb conn_event =
    Ev_Write "byte list"
  | Ev_Syscall syscall
  | Ev_Connection 'cb
  | Ev_Message 'cb Timestamp
  | Ev_WriteComplete 'cb
  | Ev_Close 'cb

record 'cb TcpConnection =
  c_loop :: "nat option"
  c_name :: string
  c_state :: StateE
  c_socket :: KaSocket
  c_channel :: nat
  c_localAddr :: sockaddr_in
  c_peerAddr :: sockaddr_in
  c_connectionCallback :: "'cb option"
  c_messageCallback :: "'cb option"
  c_writeConpleteCallback :: "'cb option"
  c_CloseCallback :: "'cb option"
  c_highWaterMarkCallback :: "'cb option"
  c_highWaterMark :: size_t
  c_inputBuffer :: Buffer
  c_outputBuffer :: Buffer

text \<open>The four callbacks bound to the connection at address \<open>this\<close> that its channel holds.\<close>

record 'cb conn_binds =
  bind_read :: "nat \<Rightarrow> 'cb"
  bind_write :: "nat \<Rightarrow> 'cb"
  bind_close :: "nat \<Rightarrow> 'cb"
  bind_error :: "nat \<Rightarrow> 'cb"

definition TcpConnection_new :: "'cb conn_binds \<Rightarrow> nat \<Rightarrow> nat \<Rightarrow> nat option \<Rightarrow> string \<Rightarrow> fd \<Rightarrow> sockaddr_in \<Rightarrow> sockaddr_in \<Rightarrow>
    ('k, 'cb) KaPoller \<Rightarrow> cxx_error + ('cb TcpConnection \<times> ('k, 'cb) KaPoller \<times> 'cb conn_event list)" where
  "TcpConnection_new binds this ch loop nm sockfd localAddr peerAddr p =
     bind_r (Buffer_new InitSize) (\<lambda>buf.
       (let chan = setErrorCallback (bind_error binds this) (setCloseCallback (bind_close binds this)
              (setWriteCallback (bind_write binds this) (setReadCallback (bind_read binds this)
                (KaChannel_new (case loop of None \<Rightarrow> 0 | Some l \<Rightarrow> l) sockfd))))
        in Inr (\<lparr>c_loop = loop, c_name = nm, c_state = Connecting, c_socket = KaSocket_of sockfd,
                 c_channel = ch, c_localAddr = localAddr, c_peerAddr = peerAddr,
                 c_connectionCallback = None, c_messageCallback = None, c_writeConpleteCallback = None,
                 c_CloseCallback = None, c_highWaterMarkCallback = None,
                 c_highWaterMark = 64 * 1024 * 1024, c_inputBuffer = buf, c_outputBuffer = buf\<rparr>,
                put_chan ch chan p, [Ev_Syscall (Sys_setsockopt sockfd SO_KEEPALIVE 1)])))"

definition TcpConnection_connected :: "'cb TcpConnection \<Rightarrow> bool" where
  "TcpConnection_connected c \<longleftrightarrow> c_state c = Connected"

definition conn_GetLoop :: "'cb TcpConnection \<Rightarrow> nat option" where
  "conn_GetLoop c = c_loop c"

definition conn_name :: "'cb TcpConnection \<Rightarrow> string" where
  "conn_name c = c_name c"

definition conn_localAddr :: "'cb TcpConnection \<Rightarrow> sockaddr_in" where
  "conn_localAddr c = c_localAddr c"

definition conn_peerAddr :: "'cb TcpConnection \<Rightarrow> sockaddr_in" where
  "conn_peerAddr c = c_peerAddr c"

definition inputBuffer :: "'cb TcpConnection \<Rightarrow> Buffer" where
  "inputBuffer c = c_inputBuffer c"

definition outputBuffer :: "'cb TcpConnection \<Rightarrow> Buffer" where
  "outputBuffer c = c_outputBuffer c"

definition setState :: "StateE \<Rightarrow> 'cb TcpConnection \<Rightarrow> 'cb TcpConnection" where
  "setState s c = c\<lparr>c_state := s\<rparr>"

definition setConnectionCallback :: "'cb option \<Rightarrow> 'cb TcpConnection \<Rightarrow> 'cb TcpConnection" where
  "setConnectionCallback cb c = c\<lparr>c_connectionCallback := cb\<rparr>"

definition setMessageCallback :: "'cb option \<Rightarrow> 'cb TcpConnection \<Rightarrow> 'cb TcpConnection" where
  "setMessageCallback cb c = c\<lparr>c_messageCallback := cb\<rparr>"

definition setWriteCompleteCallback :: "'cb option \<Rightarrow> 'cb TcpConnection \<Rightarrow> 'cb TcpConnection" where
  "setWriteCompleteCallback cb c = c\<lparr>c_writeConpleteCallback := cb\<rparr>"

definition setConnCloseCallback :: "'cb option \<Rightarrow> 'cb TcpConnection \<Rightarrow> 'cb TcpConnection" where
  "setConnCloseCallback cb c = c\<lparr>c_CloseCallback := cb\<rparr>"

definition setHighWaterMarkCallback :: "'cb option \<Rightarrow> size_t \<Rightarrow> 'cb TcpConnection \<Rightarrow> 'cb TcpConnection" where
  "setHighWaterMarkCallback cb highWaterMark c =
     c\<lparr>c_highWaterMarkCallback := cb, c_highWaterMark := highWaterMark\<rparr>"

definition GetSateToString :: "'cb TcpConnection \<Rightarrow> string" where
  "GetSateToString c =
     (case c_state c of DisConnected \<Rightarrow> ''DisConnected'' | Connecting \<Rightarrow> ''Connecting''
      | Connected \<Rightarrow> ''Connected'' | Disconnecting \<Rightarrow> ''Disconnection'')"

text \<open>Calling a \<open>std::function\<close>.\<close>

definition invoke :: "'cb option \<Rightarrow> ('cb \<Rightarrow> 'cb conn_event) \<Rightarrow> cxx_error + 'cb conn_event list" where
  "invoke f ev = (case f of None \<Rightarrow> Inl Bad_Function_Call | Some cb \<Rightarrow> Inr [ev cb])"

definition invoke_if :: "'cb option \<Rightarrow> ('cb \<Rightarrow> 'cb conn_event) \<Rightarrow> 'cb conn_event list" where
  "invoke_if f ev = (case f of None \<Rightarrow> [] | Some cb \<Rightarrow> [ev cb])"

type_synonym ('k, 'cb) conn_result = "cxx_error + ('cb TcpConnection \<times> ('k, 'cb) KaPoller \<times> 'cb conn_event list)"

section \<open>Closing\<close>

definition handleClose :: "'k epoll_ctl \<Rightarrow> 'cb TcpConnection \<Rightarrow> ('k, 'cb) KaPoller \<Rightarrow> ('k, 'cb) conn_result" where
  "handleClose ctl c p =
     (if c_state c = DisConnected then Inr (c, p, [])
      else
        (let c1 = setState DisConnected c in
         bind_r (disableAll ctl (c_channel c1) p) (\<lambda>(_, p1).
         bind_r (invoke (c_connectionCallback c1) Ev_Connection) (\<lambda>ev1.
         bind_r (invoke (c_CloseCallback c1) Ev_Close) (\<lambda>ev2.
           Inr (c1, p1, ev1 @ ev2))))))"

definition handleError :: "'k epoll_ctl \<Rightarrow> 'cb TcpConnection \<Rightarrow> ('k, 'cb) KaPoller \<Rightarrow> ('k, 'cb) conn_result" where
  "handleError ctl c p = handleClose ctl c p"

definition shutdown :: "'cb TcpConnection \<Rightarrow> ('k, 'cb) KaPoller \<Rightarrow> ('k, 'cb) conn_result" where
  "shutdown c p =
     (if c_state c = Connected then
        with_chan p (c_channel c) (\<lambda>ch.
          Inr (setState Disconnecting c, p,
               if isWriting ch then [Ev_Syscall (Sys_shutdown_write (so_fd (c_socket c)))] else []))
      else Inr (c, p, []))"

definition forceClose :: "'k epoll_ctl \<Rightarrow> 'cb TcpConnection \<Rightarrow> ('k, 'cb) KaPoller \<Rightarrow> ('k, 'cb) conn_result" where
  "forceClose ctl c p =
     (if c_state c = Connected \<or> c_state c = Disconnecting
      then handleClose ctl (setState Disconnecting c) p
      else Inr (c, p, []))"

definition setTcpNoDelay :: "bool \<Rightarrow> 'cb TcpConnection \<Rightarrow> ('k, 'cb) KaPoller \<Rightarrow> ('k, 'cb) conn_result" where
  "setTcpNoDelay on c p = Inr (c, p, [Ev_Syscall (Sys_setsockopt (so_fd (c_socket c)) TCP_NODELAY 1)])"

section \<open>Establishing\<close>

definition connectEatablished :: "'k epoll_ctl \<Rightarrow> nat \<Rightarrow> 'cb TcpConnection \<Rightarrow> ('k, 'cb) KaPoller \<Rightarrow> ('k, 'cb) conn_result" where
  "connectEatablished ctl this c p =
     (if c_state c \<noteq> Connecting then Inr (c, p, [])
      else
        (let c1 = setState Connected c in
         with_chan p (c_channel c1) (\<lambda>ch.
         bind_r (enableReading ctl (c_channel c1) (put_chan (c_channel c1) (KaChannel_tie this ch) p)) (\<lambda>(ok, p1).
           if \<not> ok then handleClose ctl c1 p1
           else bind_r (invoke (c_connectionCallback c1) Ev_Connection) (\<lambda>ev. Inr (c1, p1, ev))))))"

definition connectDestroyed :: "'cb TcpConnection \<Rightarrow> 'cb TcpConnection" where
  "connectDestroyed c = c"

section \<open>Sending and receiving\<close>

definition EWOULDBLOCK :: int where
  "EWOULDBLOCK = 11"

text \<open>\<open>send\<close> of \<open>len\<close> bytes at \<open>data\<close>; \<open>nw\<close> is what \<open>write\<close> returned. The comparison at the end has
  no effect on either branch, and nothing is kept of what was not written.\<close>

definition send_mem :: "int \<Rightarrow> byte list \<Rightarrow> int \<Rightarrow> int \<Rightarrow> 'cb TcpConnection \<Rightarrow> ('k, 'cb) KaPoller \<Rightarrow> ('k, 'cb) conn_result" where
  "send_mem len data nw errno c p =
     (if c_state c = Connected then
        with_chan p (c_channel c) (\<lambda>ch.
          if \<not> isWriting ch \<and> readableBytes (c_outputBuffer c) = 0 then
            (if len < 0 \<or> length data < nat len then Inl Undefined_Behaviour
             else if 0 \<le> nw then
               (let remaining = len - nw in
                Inr (c, p, Ev_Write (take (nat len) data) #
                  (if remaining = 0 then invoke_if (c_writeConpleteCallback c) Ev_WriteComplete else [])))
             else if errno \<noteq> EWOULDBLOCK then Inr (c, p, [Ev_Write (take (nat len) data)])
             else Inr (c, p, [Ev_Write (take (nat len) data)]))
          else Inr (c, p, []))
      else Inr (c, p, []))"

text \<open>The overloads for strings and buffers have empty bodies.\<close>

definition send_string :: "byte list \<Rightarrow> 'cb TcpConnection \<Rightarrow> ('k, 'cb) KaPoller \<Rightarrow> ('k, 'cb) conn_result" where
  "send_string message c p = Inr (c, p, [])"

definition send_buffer :: "Buffer \<Rightarrow> 'cb TcpConnection \<Rightarrow> ('k, 'cb) KaPoller \<Rightarrow> ('k, 'cb) conn_result" where
  "send_buffer message c p = Inr (c, p, [])"

definition conn_handleRead :: "'k epoll_ctl \<Rightarrow> readv_result \<Rightarrow> Timestamp \<Rightarrow> 'cb TcpConnection \<Rightarrow> ('k, 'cb) KaPoller \<Rightarrow>
    ('k, 'cb) conn_result" where
  "conn_handleRead ctl rv receiveTime c p =
     bind_r (readFd (c_inputBuffer c) rv) (\<lambda>(n, _, buf).
       (let c1 = c\<lparr>c_inputBuffer := buf\<rparr> in
        if n > 0 then
          bind_r (invoke (c_messageCallback c1) (\<lambda>cb. Ev_Message cb receiveTime)) (\<lambda>ev. Inr (c1, p, ev))
        else if n = 0 then handleClose ctl c1 p
        else handleError ctl c1 p))"

definition handleWrite :: "'k epoll_ctl \<Rightarrow> int \<Rightarrow> 'cb TcpConnection \<Rightarrow> ('k, 'cb) KaPoller \<Rightarrow> ('k, 'cb) conn_result" where
  "handleWrite ctl n c p =
     with_chan p (c_channel c) (\<lambda>ch.
       if isWriting ch then
         bind_r (read_range (c_outputBuffer c) (peek (c_outputBuffer c)) (readableBytes (c_outputBuffer c))) (\<lambda>bs.
           if n > 0 then
             (let c1 = c\<lparr>c_outputBuffer := snd (retrieve (c_outputBuffer c) (word_of_int n))\<rparr> in
              if readableBytes (c_outputBuffer c1) = 0 then
                bind_r (disableWriting ctl (c_channel c1) p) (\<lambda>(_, p1).
                  (let ev = Ev_Write bs # invoke_if (c_writeConpleteCallback c1) Ev_WriteComplete in
                   if c_state c1 = DisConnected
                   then bind_r (shutdown c1 p1) (\<lambda>(c2, p2, ev2). Inr (c2, p2, ev @ ev2))
                   else Inr (c1, p1, ev)))
              else Inr (c1, p, [Ev_Write bs]))
           else bind_r (handleClose ctl c p) (\<lambda>(c1, p1, ev). Inr (c1, p1, Ev_Write bs # ev)))
       else Inr (c, p, []))"


section \<open>Runs of a connection\<close>

text \<open>Any sequence of operations on one connection, with whatever the poller of its loop is at each
  of them, and the events of the whole run.\<close>

inductive conn_step :: "'k epoll_ctl \<Rightarrow> nat \<Rightarrow> 'cb TcpConnection \<Rightarrow> 'cb conn_event list \<Rightarrow> 'cb TcpConnection \<Rightarrow> bool"
  for ctl this where
  cs_establish: "connectEatablished ctl this c p = Inr (c', p', evs) \<Longrightarrow> conn_step ctl this c evs c'"
| cs_send: "send_mem len data nw errno c (p :: ('k, 'cb) KaPoller) = Inr (c', p', evs) \<Longrightarrow> conn_step ctl this c evs c'"
| cs_shutdown: "shutdown c (p :: ('k, 'cb) KaPoller) = Inr (c', p', evs) \<Longrightarrow> conn_step ctl this c evs c'"
| cs_force: "forceClose ctl c p = Inr (c', p', evs) \<Longrightarrow> conn_step ctl this c evs c'"
| cs_read: "conn_handleRead ctl rv t c p = Inr (c', p', evs) \<Longrightarrow> conn_step ctl this c evs c'"
| cs_write: "handleWrite ctl n c p = Inr (c', p', evs) \<Longrightarrow> conn_step ctl this c evs c'"
| cs_close: "handleClose ctl c p = Inr (c', p', evs) \<Longrightarrow> conn_step ctl this c evs c'"
| cs_error: "handleError ctl c p = Inr (c', p', evs) \<Longrightarrow> conn_step ctl this c evs c'"
| cs_set: "c' \<in> {setConnectionCallback cb c, setMessageCallback cb c, setWriteCompleteCallback cb c,
    setConnCloseCallback cb c, setHighWaterMarkCallback cb hw c, connectDestroyed c} \<Longrightarrow> conn_step ctl this c [] c'"

inductive conn_run :: "'k epoll_ctl \<Rightarrow> nat \<Rightarrow> 'cb TcpConnection \<Rightarrow> 'cb conn_event list \<Rightarrow> 'cb TcpConnection \<Rightarrow> bool"
  for ctl this c0 where
  run_init: "conn_run ctl this c0 [] c0"
| run_step: "conn_run ctl this c0 evs c \<Longrightarrow> conn_step ctl this c evs' c' \<Longrightarrow> conn_run ctl this c0 (evs @ evs') c'"

fun is_close :: "'cb conn_event \<Rightarrow> bool" where
  "is_close (Ev_Close cb) = True"
| "is_close _ = False"

definition closes :: "'cb conn_event list \<Rightarrow> nat" where
  "closes evs = length (filter is_close evs)"

lemma closes_simps [simp]: "closes [] = 0" "closes (e # evs) = (if is_close e then Suc (closes evs) else closes evs)"
    "closes (evs @ evs') = closes evs + closes evs'"
  by (simp_all add: closes_def)

fun state_rank :: "StateE \<Rightarrow> nat" where
  "state_rank Connecting = 0"
| "state_rank Connected = 1"
| "state_rank Disconnecting = 2"
| "state_rank DisConnected = 3"

lemma invoke_Inr: "invoke f ev = Inr evs \<longleftrightarrow> (\<exists>cb. f = Some cb \<and> evs = [ev cb])"
  by (auto simp: invoke_def split: option.splits)

lemma closes_invoke_if [simp]: "(\<And>cb. \<not> is_close (ev cb)) \<Longrightarrow> closes (invoke_if f ev) = 0"
  by (simp add: invoke_if_def split: option.split)

lemma state_setState [simp]: "c_state (setState s c) = s"
  by (simp add: setState_def)

text \<open>Closing closes once, and only what was not closed.\<close>

lemma handleClose_spec:
  assumes "handleClose ctl c p = Inr (c', p', evs)"
  shows "c' = setState DisConnected c \<and> closes evs = (if c_state c = DisConnected then 0 else 1)"
proof (cases "c_state c = DisConnected")
  case True
  with assms show ?thesis by (simp add: handleClose_def setState_def)
next
  case False
  with assms show ?thesis
    by (auto simp: handleClose_def Let_def bind_r_eq_Inr invoke_Inr)
qed

lemma shutdown_spec:
  "shutdown c p = Inr (c', p', evs) \<Longrightarrow>
   c' = (if c_state c = Connected then setState Disconnecting c else c) \<and> p' = p \<and> closes evs = 0"
  by (auto simp: shutdown_def with_chan_Inr split: if_splits)

lemma send_spec:
  "send_mem len data nw errno c p = Inr (c', p', evs) \<Longrightarrow> c' = c \<and> p' = p \<and> closes evs = 0"
  by (auto simp: send_mem_def with_chan_Inr Let_def split: if_splits)

text \<open>What a step may do to the state: it moves forward or stays, and it closes exactly when it
  enters the closed state.\<close>

definition advances :: "'cb TcpConnection \<Rightarrow> 'cb conn_event list \<Rightarrow> 'cb TcpConnection \<Rightarrow> bool" where
  "advances c evs c' \<longleftrightarrow> state_rank (c_state c) \<le> state_rank (c_state c') \<and>
     closes evs = (if c_state c \<noteq> DisConnected \<and> c_state c' = DisConnected then 1 else 0)"

lemma rank_closed [simp]: "state_rank s \<le> 3" "3 \<le> state_rank s \<longleftrightarrow> s = DisConnected"
  by (cases s; simp)+

lemma advances_close: "handleClose ctl c p = Inr (c', p', evs) \<Longrightarrow> advances c evs c'"
  using handleClose_spec by (fastforce simp: advances_def)

lemma handleWrite_spec:
  assumes "handleWrite ctl n c p = Inr (c', p', evs)"
  shows "(c_state c' = c_state c \<and> closes evs = 0) \<or>
    (\<exists>p1 evs1. handleClose ctl c p = Inr (c', p1, evs1) \<and> closes evs = closes evs1)"
proof -
  obtain ch where ch: "chans p (c_channel c) = Some ch"
    using assms by (auto simp: handleWrite_def with_chan_Inr)
  show ?thesis
  proof (cases "isWriting ch")
    case False
    with assms ch show ?thesis by (simp add: handleWrite_def)
  next
    case True
    with assms ch obtain bs where
      bs: "read_range (c_outputBuffer c) (peek (c_outputBuffer c)) (readableBytes (c_outputBuffer c)) = Inr bs"
      by (auto simp: handleWrite_def bind_r_eq_Inr)
    let ?c = "c\<lparr>c_outputBuffer := snd (retrieve (c_outputBuffer c) (word_of_int n))\<rparr>"
    show ?thesis
    proof (cases "n > 0")
      case False
      with assms ch True bs show ?thesis by (auto simp: handleWrite_def bind_r_eq_Inr)
    next
      case pos: True
      show ?thesis
      proof (cases "readableBytes (c_outputBuffer ?c) = 0")
        case False
        with assms ch True bs pos show ?thesis by (auto simp: handleWrite_def)
      next
        case empty: True
        obtain ok p1 where dw: "disableWriting ctl (c_channel c) p = Inr (ok, p1)"
          using assms ch True bs pos empty by (auto simp: handleWrite_def bind_r_eq_Inr Let_def)
        show ?thesis
        proof (cases "c_state c = DisConnected")
          case False
          with assms ch True bs pos empty dw show ?thesis by (auto simp: handleWrite_def Let_def)
        next
          case dis: True
          then have "shutdown ?c p1 = Inr (?c, p1, [])" by (simp add: shutdown_def)
          with assms ch True bs pos empty dw dis show ?thesis by (auto simp: handleWrite_def Let_def)
        qed
      qed
    qed
  qed
qed

lemma conn_step_advances:
  assumes "conn_step ctl this c evs c'"
  shows "advances c evs c'"
  using assms
proof cases
  case (cs_establish p p')
  show ?thesis
  proof (cases "c_state c = Connecting")
    case False
    with cs_establish show ?thesis by (simp add: connectEatablished_def advances_def)
  next
    case True
    with cs_establish obtain q ok p1 where
      "(\<not> ok \<and> handleClose ctl (setState Connected c) p1 = Inr (c', p', evs)) \<or>
       (\<exists>cb. c' = setState Connected c \<and> evs = [Ev_Connection cb])"
      by (auto simp: connectEatablished_def Let_def with_chan_Inr bind_r_eq_Inr invoke_Inr split: if_splits)
    with True show ?thesis
      using handleClose_spec [of ctl "setState Connected c" p1 c' p' evs] by (auto simp: advances_def)
  qed
next
  case (cs_send len data nw errno p p')
  then show ?thesis using send_spec by (fastforce simp: advances_def)
next
  case (cs_shutdown p p')
  then show ?thesis using shutdown_spec [of c p c' p' evs] by (auto simp: advances_def)
next
  case (cs_force p p')
  then show ?thesis using handleClose_spec [of ctl "setState Disconnecting c" p c' p' evs]
    by (auto simp: forceClose_def advances_def split: if_splits)
next
  case (cs_read rv t p p')
  then obtain n e buf where r: "readFd (c_inputBuffer c) rv = Inr (n, e, buf)"
    and d: "(\<exists>cb. c' = c\<lparr>c_inputBuffer := buf\<rparr> \<and> evs = [Ev_Message cb t]) \<or>
      handleClose ctl (c\<lparr>c_inputBuffer := buf\<rparr>) p = Inr (c', p', evs)"
    by (auto simp: conn_handleRead_def Let_def bind_r_eq_Inr invoke_Inr handleError_def split: if_splits)
  from d advances_close [of ctl "c\<lparr>c_inputBuffer := buf\<rparr>" p c' p' evs] show ?thesis
    by (auto simp: advances_def)
next
  case (cs_write n p p')
  from handleWrite_spec [OF cs_write] show ?thesis
  proof
    assume "c_state c' = c_state c \<and> closes evs = 0"
    then show ?thesis by (simp add: advances_def)
  next
    assume "\<exists>p1 evs1. handleClose ctl c p = Inr (c', p1, evs1) \<and> closes evs = closes evs1"
    then show ?thesis using advances_close by (fastforce simp: advances_def)
  qed
next
  case (cs_close p p')
  then show ?thesis by (rule advances_close)
next
  case (cs_error p p')
  then show ?thesis by (simp add: handleError_def advances_close)
next
  case (cs_set cb hw)
  then show ?thesis
    by (auto simp: advances_def setConnectionCallback_def setMessageCallback_def setWriteCompleteCallback_def
        setConnCloseCallback_def setHighWaterMarkCallback_def connectDestroyed_def)
qed


lemma conn_run_closes:
  "conn_run ctl this c0 evs c \<Longrightarrow> c_state c0 \<noteq> DisConnected \<Longrightarrow>
   state_rank (c_state c0) \<le> state_rank (c_state c) \<and> closes evs = (if c_state c = DisConnected then 1 else 0)"
proof (induction rule: conn_run.induct)
  case run_init
  then show ?case by simp
next
  case (run_step evs c evs' c')
  then have IH: "state_rank (c_state c0) \<le> state_rank (c_state c)"
    "closes evs = (if c_state c = DisConnected then 1 else 0)" by simp_all
  have adv: "state_rank (c_state c) \<le> state_rank (c_state c')"
    "closes evs' = (if c_state c \<noteq> DisConnected \<and> c_state c' = DisConnected then 1 else 0)"
    using conn_step_advances [OF run_step.hyps(2)] by (simp_all add: advances_def)
  have "c_state c = DisConnected \<Longrightarrow> c_state c' = DisConnected"
    using adv(1) rank_closed(2) [of "c_state c'"] by simp
  with IH adv show ?case by auto
qed

text \<open>A registration that the poller refuses closes the connection it was for.\<close>

lemma connect_refused:
  assumes un: "unregistered k0 p" and c: "c_state c = Connecting" "chans p (c_channel c) = Some ch"
    and cbs: "c_connectionCallback c = Some f" "c_CloseCallback c = Some g"
  shows "\<exists>p'. connectEatablished ctl this c p =
      Inr (setState DisConnected c, p', [Ev_Connection f, Ev_Close g]) \<and> unregistered k0 p'"
proof -
  let ?p = "put_chan (c_channel c) (KaChannel_tie this ch) p"
  have un': "unregistered k0 ?p"
    by (rule unregistered_put [OF un]) (use un c in \<open>simp add: KaChannel_tie_def unregistered_def\<close>)
  have "chans ?p (c_channel c) = Some (KaChannel_tie this ch)" by simp
  from unregistered_refuses [OF un' this, of ctl "\<lambda>e. e OR ReadEvent"]
  obtain p1 d where p1: "enableReading ctl (c_channel c) ?p = Inr (False, p1)" "unregistered k0 p1"
      "chans p1 (c_channel c) = Some d"
    by (auto simp: enableReading_def)
  from unregistered_refuses [OF p1(2,3), of ctl "\<lambda>e. NoneEvent"]
  obtain p2 where p2: "disableAll ctl (c_channel c) p1 = Inr (False, p2)" "unregistered k0 p2"
    by (auto simp: disableAll_def)
  show ?thesis
    using c cbs p1 p2 by (simp add: connectEatablished_def handleClose_def Let_def setState_def invoke_def)
qed

text \<open>A concrete connection on a channel of a poller.\<close>

definition demo_buffer :: Buffer where
  "demo_buffer = \<lparr>m_buffer = replicate 16 0, m_readIndex = 8, m_writeIndex = 8\<rparr>"

definition demo_conn :: "StateE \<Rightarrow> nat TcpConnection" where
  "demo_conn st = \<lparr>c_loop = Some 1, c_name = ''n'', c_state = st, c_socket = \<lparr>so_fd = 5\<rparr>, c_channel = 7,
     c_localAddr = zero_addr, c_peerAddr = zero_addr, c_connectionCallback = Some 1,
     c_messageCallback = Some 2, c_writeConpleteCallback = Some 3, c_CloseCallback = Some 4,
     c_highWaterMarkCallback = None, c_highWaterMark = 0, c_inputBuffer = demo_buffer,
     c_outputBuffer = demo_buffer\<rparr>"

lemma demo_buffer_front: "Buffer_front demo_buffer" "content demo_buffer = []"
    "readableBytes demo_buffer = 0"
  by (simp_all add: demo_buffer_def Buffer_front_def Buffer_inv_def content_def readableBytes_def)

lemma demo_poller_unregistered: "unregistered Map.empty (demo_poller KAdded)"
  using demo_poller_reached by (rule poller_reach_unregistered)

lemma demo_conn_simps [simp]:
  "c_state (demo_conn st) = st" "c_channel (demo_conn st) = 7" "c_outputBuffer (demo_conn st) = demo_buffer"
  "c_inputBuffer (demo_conn st) = demo_buffer" "c_connectionCallback (demo_conn st) = Some 1"
  "c_CloseCallback (demo_conn st) = Some 4" "c_messageCallback (demo_conn st) = Some 2"
  by (simp_all add: demo_conn_def)

lemma demo_send: "send_mem 3 [1, 2, 3] 1 0 (demo_conn Connected) (demo_poller KAdded)
    = Inr (demo_conn Connected, demo_poller KAdded, [Ev_Write [1, 2, 3]])"
  by (simp add: send_mem_def demo_poller_chan demo_buffer_front isWriting_def
      setIndex_def KaChannel_new_def Let_def)

lemma demo_run: "conn_run map_ctl 9 (demo_conn Connecting) [Ev_Connection 1, Ev_Close 4]
    (setState DisConnected (demo_conn Connecting))"
proof -
  obtain p' where "connectEatablished map_ctl 9 (demo_conn Connecting) (demo_poller KAdded) =
      Inr (setState DisConnected (demo_conn Connecting), p', [Ev_Connection 1, Ev_Close 4])"
    using connect_refused [OF demo_poller_unregistered, of "demo_conn Connecting" _ 1 4] demo_poller_chan
    by fastforce
  from run_step [OF run_init cs_establish [OF this]] show ?thesis by simp
qed

text \<open>What \<open>handleRead\<close> makes of data.\<close>

lemma handleRead_data:
  assumes "Buffer_front (c_inputBuffer c)" and "bs \<noteq> []" and "length bs \<le> 65536"
    and "length (m_buffer (c_inputBuffer c)) + length bs < 2 ^ 63"
  obtains buf where "conn_handleRead ctl \<lparr>rv_data = Some bs, rv_errno = e\<rparr> t c p =
      bind_r (invoke (c_messageCallback c) (\<lambda>cb. Ev_Message cb t)) (\<lambda>ev. Inr (c\<lparr>c_inputBuffer := buf\<rparr>, p, ev))"
    and "Buffer_front buf" and "content buf = content (c_inputBuffer c) @ bs"
    and "length (m_buffer buf) \<le> length (m_buffer (c_inputBuffer c)) + length bs"
proof -
  let ?rv = "\<lparr>rv_data = Some bs, rv_errno = e\<rparr>"
  obtain buf where buf: "readFd (c_inputBuffer c) ?rv = Inr (sint (word_of_nat (length bs) :: u32), None, buf)"
    "Buffer_front buf" "content buf = content (c_inputBuffer c) @ bs"
    "length (m_buffer buf) \<le> length (m_buffer (c_inputBuffer c)) + length bs"
    using readFd_front [of "c_inputBuffer c" ?rv bs] assms capacity_ge [of "c_inputBuffer c"] by auto
  have "sint (word_of_nat (length bs) :: u32) = int (length bs)"
    using assms(3) by (simp add: signed_of_nat signed_take_bit_int_eq_self del: of_nat_Suc)
  with buf(1) assms(2) have "conn_handleRead ctl ?rv t c p =
      bind_r (invoke (c_messageCallback c) (\<lambda>cb. Ev_Message cb t)) (\<lambda>ev. Inr (c\<lparr>c_inputBuffer := buf\<rparr>, p, ev))"
    by (simp add: conn_handleRead_def)
  from that [OF this buf(2-4)] show thesis .
qed

text \<open>The end of the stream and an error close the connection.\<close>

lemma handleRead_end:
  assumes "rv_data rv = None \<or> rv_data rv = Some []"
  shows "conn_handleRead ctl rv t c p = handleClose ctl c p"
proof -
  obtain n e where "readFd (c_inputBuffer c) rv = Inr (n, e, c_inputBuffer c)" "\<not> n > 0"
    using assms by (auto simp: readFd_def Let_def)
  then show ?thesis by (simp add: conn_handleRead_def handleError_def Let_def)
qed

section \<open>Properties\<close>

text \<open>C1. The life of a connection. However its operations are interleaved, its state only moves
  forward (connecting, connected, disconnecting, closed), the close callback runs at most once, it
  has run exactly when the state is closed, and a closed connection stays closed.\<close>

theorem connection_closes_once:
  assumes "conn_run ctl this c0 evs c" and "c_state c0 \<noteq> DisConnected"
  shows "closes evs = (if c_state c = DisConnected then 1 else 0) \<and>
    state_rank (c_state c0) \<le> state_rank (c_state c) \<and>
    (c_state c = DisConnected \<longrightarrow> (\<forall>evs' c'. conn_step ctl this c evs' c' \<longrightarrow>
      c_state c' = DisConnected \<and> closes evs' = 0))"
proof -
  have "c_state c' = DisConnected \<and> closes evs' = 0"
    if "c_state c = DisConnected" "conn_step ctl this c evs' c'" for evs' c'
    using conn_step_advances [OF that(2)] that(1) by (simp add: advances_def)
  then show ?thesis using conn_run_closes [OF assms] by blast
qed

theorem connection_closes_once_witness:
  "closes [Ev_Connection 1, Ev_Close (4 :: nat)] = 1"
  using connection_closes_once [OF demo_run] by simp

text \<open>\<open>send\<close> keeps nothing it could not write. It makes at most one \<open>write\<close>, of the whole
  message, and whatever that call returned it leaves the connection, its output buffer and the
  channel's events as they were: after a short or refused write the rest of the message is lost.
  The completion callback runs exactly when everything was written.\<close>

theorem send_keeps_nothing:
  assumes "send_mem len data nw errno c p = Inr (c', p', evs)"
  shows "c' = c \<and> p' = p \<and>
    (evs = [] \<or> hd evs = Ev_Write (take (nat len) data) \<and>
      tl evs = (if nw = len then invoke_if (c_writeConpleteCallback c) Ev_WriteComplete else []))"
proof (cases "evs = []")
  case True
  with send_spec [OF assms] show ?thesis by simp
next
  case False
  then show ?thesis
    using assms by (auto simp: send_mem_def with_chan_Inr Let_def split: if_splits)
qed

theorem send_keeps_nothing_witness:
  "send_mem 3 [1, 2, 3] 1 0 (demo_conn Connected) (demo_poller KAdded)
     = Inr (demo_conn Connected, demo_poller KAdded, [Ev_Write [1, 2, 3]]) \<and>
   tl [Ev_Write [1, 2, 3] :: nat conn_event] = []"
  using send_keeps_nothing [OF demo_send] demo_send by simp

text \<open>\<open>handleRead\<close> acts on what the socket gave: bytes are appended to the input buffer unchanged
  and announced to the message callback once, leaving the state alone; an end of stream or an error
  closes the connection and appends nothing.\<close>

theorem handleRead_dispatch:
  assumes "Buffer_front (c_inputBuffer c)"
    and "\<forall>bs. rv_data rv = Some bs \<longrightarrow> length bs \<le> 65536 \<and> length (m_buffer (c_inputBuffer c)) + length bs < 2 ^ 63"
    and "conn_handleRead ctl rv t c p = Inr (c', p', evs)"
  shows "case rv_data rv of
      Some (b # bs) \<Rightarrow> content (c_inputBuffer c') = content (c_inputBuffer c) @ b # bs \<and>
        c_state c' = c_state c \<and> p' = p \<and> (\<exists>cb. c_messageCallback c = Some cb \<and> evs = [Ev_Message cb t])
    | _ \<Rightarrow> content (c_inputBuffer c') = content (c_inputBuffer c) \<and> c_state c' = DisConnected"
proof (cases "\<exists>b bs. rv_data rv = Some (b # bs)")
  case True
  then obtain b bs e where rv: "rv = \<lparr>rv_data = Some (b # bs), rv_errno = e\<rparr>" by (metis readv_result.surjective unit.exhaust)
  have le: "length (b # bs) \<le> 65536" "length (m_buffer (c_inputBuffer c)) + length (b # bs) < 2 ^ 63"
    using assms(2) rv by auto
  obtain buf where "conn_handleRead ctl rv t c p =
      bind_r (invoke (c_messageCallback c) (\<lambda>cb. Ev_Message cb t)) (\<lambda>ev. Inr (c\<lparr>c_inputBuffer := buf\<rparr>, p, ev))"
    and buf: "content buf = content (c_inputBuffer c) @ b # bs"
    unfolding rv by (rule handleRead_data [OF assms(1) _ le]) simp_all
  with assms(3) have "c' = c\<lparr>c_inputBuffer := buf\<rparr> \<and> p' = p \<and> (\<exists>cb. c_messageCallback c = Some cb \<and> evs = [Ev_Message cb t])"
    by (auto simp: bind_r_eq_Inr invoke_Inr)
  with buf rv show ?thesis by simp
next
  case False
  then have none: "rv_data rv = None \<or> rv_data rv = Some []" by (metis list.exhaust option.exhaust)
  from handleClose_spec [OF assms(3) [unfolded handleRead_end [OF none]]] none show ?thesis
    by (auto simp: setState_def split: option.splits)
qed

theorem handleRead_dispatch_witness:
  "\<exists>c' p'. conn_handleRead map_ctl \<lparr>rv_data = Some [1, 2], rv_errno = 0\<rparr> (Timestamp 5) (demo_conn Connected)
      (demo_poller KAdded) = Inr (c', p', [Ev_Message 2 (Timestamp 5)]) \<and> content (c_inputBuffer c') = [1, 2]"
proof -
  let ?rv = "\<lparr>rv_data = Some [1, 2], rv_errno = 0\<rparr>" and ?c = "demo_conn Connected"
  have front: "Buffer_front (c_inputBuffer ?c)" by (simp add: demo_buffer_front)
  have size: "\<forall>bs. rv_data ?rv = Some bs \<longrightarrow> length bs \<le> 65536 \<and>
      length (m_buffer (c_inputBuffer ?c)) + length bs < 2 ^ 63"
    by (auto simp: demo_buffer_def)
  obtain buf where "readFd (c_inputBuffer ?c) ?rv = Inr (sint (word_of_nat (length [1, 2 :: byte]) :: u32), None, buf)"
    using readFd_front [OF front, of ?rv "[1, 2]"] capacity_ge [of "c_inputBuffer ?c"]
    by (auto simp: demo_buffer_def)
  then obtain c' p' evs where r: "conn_handleRead map_ctl ?rv (Timestamp 5) ?c (demo_poller KAdded) = Inr (c', p', evs)"
    by (simp add: conn_handleRead_def invoke_def)
  from handleRead_dispatch [OF front size r] r show ?thesis by (auto simp: demo_buffer_front)
qed

end
