(* ===== verification/ConnReads.thy ===== *)
theory ConnReads
  imports Connections
begin

text \<open>
  A connection that reads its socket to the end: \<open>TcpConnection::handleRead\<close> of
  \<open>src/Net/TcpConnection.cpp\<close>, called for one piece of the stream after the other and then for its end,
  with the input buffer of \<open>src/Net/Buffer.h\<close> that the receiver empties when it likes.
\<close>

section \<open>Reading in pieces\<close>

text \<open>One call of \<open>handleRead\<close> that reads \<open>bs\<close> at time \<open>t\<close>; then the receiver takes the whole content of the
  input buffer, or leaves it. What it took is the first component of the result.\<close>

definition read_piece :: "'k epoll_ctl \<Rightarrow> byte list \<times> Timestamp \<times> bool \<Rightarrow> 'cb TcpConnection \<Rightarrow> ('k, 'cb) KaPoller \<Rightarrow>
    cxx_error + (byte list \<times> 'cb TcpConnection \<times> ('k, 'cb) KaPoller \<times> 'cb conn_event list)" where
  "read_piece ctl x c p =
     (let (bs, t, taken) = x in
      bind_r (conn_handleRead ctl \<lparr>rv_data = Some bs, rv_errno = 0\<rparr> t c p) (\<lambda>(c1, p1, evs).
        if taken then
          bind_r (retrieveAllAsString (inputBuffer c1)) (\<lambda>(str, buf). Inr (str, c1\<lparr>c_inputBuffer := buf\<rparr>, p1, evs))
        else Inr ([], c1, p1, evs)))"

primrec read_pieces :: "'k epoll_ctl \<Rightarrow> (byte list \<times> Timestamp \<times> bool) list \<Rightarrow> 'cb TcpConnection \<Rightarrow> ('k, 'cb) KaPoller \<Rightarrow>
    cxx_error + (byte list \<times> 'cb TcpConnection \<times> ('k, 'cb) KaPoller \<times> 'cb conn_event list)" where
  "read_pieces ctl [] c p = Inr ([], c, p, [])"
| "read_pieces ctl (x # xs) c p =
     bind_r (read_piece ctl x c p) (\<lambda>(str, c1, p1, evs).
     bind_r (read_pieces ctl xs c1 p1) (\<lambda>(rest, c2, p2, evs2). Inr (str @ rest, c2, p2, evs @ evs2)))"

definition legal_piece :: "byte list \<times> Timestamp \<times> bool \<Rightarrow> bool" where
  "legal_piece x \<longleftrightarrow> fst x \<noteq> [] \<and> length (fst x) \<le> 65536"

section \<open>Lemmas\<close>

text \<open>A piece is read: what was taken and what is left is what was there with the piece behind it.\<close>

lemma read_piece_ok:
  assumes "Buffer_front (c_inputBuffer c)" and "legal_piece x"
    and "length (m_buffer (c_inputBuffer c)) + length (fst x) < 2 ^ 63" and "c_messageCallback c = Some m"
  obtains str buf where "read_piece ctl x c p = Inr (str, c\<lparr>c_inputBuffer := buf\<rparr>, p, [Ev_Message m (fst (snd x))])"
    and "Buffer_front buf" and "str @ content buf = content (c_inputBuffer c) @ fst x"
    and "length (m_buffer buf) \<le> length (m_buffer (c_inputBuffer c)) + length (fst x)"
proof -
  obtain bs t taken where x: "x = (bs, t, taken)" by (cases x) auto
  from handleRead_data [of c bs ctl 0 t p] assms(1-3) x obtain buf where
    "conn_handleRead ctl \<lparr>rv_data = Some bs, rv_errno = 0\<rparr> t c p =
      bind_r (invoke (c_messageCallback c) (\<lambda>cb. Ev_Message cb t)) (\<lambda>ev. Inr (c\<lparr>c_inputBuffer := buf\<rparr>, p, ev))"
    and buf: "Buffer_front buf" "content buf = content (c_inputBuffer c) @ bs"
    "length (m_buffer buf) \<le> length (m_buffer (c_inputBuffer c)) + length bs"
    unfolding legal_piece_def by auto
  with assms(4) have
    rd: "conn_handleRead ctl \<lparr>rv_data = Some bs, rv_errno = 0\<rparr> t c p = Inr (c\<lparr>c_inputBuffer := buf\<rparr>, p, [Ev_Message m t])"
    by (simp add: invoke_def)
  show thesis
  proof (cases taken)
    case False
    with rd buf x that [of "[]" buf] show thesis by (simp add: read_piece_def)
  next
    case True
    have inv: "Buffer_inv buf" using buf(1) by (rule Buffer_frontD)
    have "Buffer_front (retrieveAll buf)" "length (m_buffer (retrieveAll buf)) = length (m_buffer buf)"
      using retrieveAll_front [OF inv] by (simp_all add: retrieveAll_def)
    with True rd buf x that [of "content buf" "retrieveAll buf"] retrieveAllAsString_eq [OF inv]
    show thesis by (simp add: read_piece_def inputBuffer_def)
  qed
qed

lemma read_pieces_ok:
  assumes "Buffer_front (c_inputBuffer c)" and "\<forall>x \<in> set xs. legal_piece x"
    and "length (m_buffer (c_inputBuffer c)) + length (concat (map fst xs)) < 2 ^ 63" and "c_messageCallback c = Some m"
  shows "\<exists>str buf. read_pieces ctl xs c p = Inr (str, c\<lparr>c_inputBuffer := buf\<rparr>, p, map (\<lambda>x. Ev_Message m (fst (snd x))) xs) \<and>
    str @ content buf = content (c_inputBuffer c) @ concat (map fst xs)"
  using assms
proof (induction xs arbitrary: c)
  case Nil
  then show ?case by (intro exI [of _ "[]"] exI [of _ "c_inputBuffer c"]) simp
next
  case (Cons x xs)
  obtain str buf where x: "read_piece ctl x c p = Inr (str, c\<lparr>c_inputBuffer := buf\<rparr>, p, [Ev_Message m (fst (snd x))])"
    "Buffer_front buf" "str @ content buf = content (c_inputBuffer c) @ fst x"
    "length (m_buffer buf) \<le> length (m_buffer (c_inputBuffer c)) + length (fst x)"
    using read_piece_ok [of c x m ctl p] Cons.prems by auto
  then obtain str' buf' where
    "read_pieces ctl xs (c\<lparr>c_inputBuffer := buf\<rparr>) p = Inr (str', c\<lparr>c_inputBuffer := buf'\<rparr>, p, map (\<lambda>x. Ev_Message m (fst (snd x))) xs)"
    "str' @ content buf' = content buf @ concat (map fst xs)"
    using Cons.IH [of "c\<lparr>c_inputBuffer := buf\<rparr>"] Cons.prems by auto
  moreover have "(str @ str') @ content buf' = content (c_inputBuffer c) @ concat (map fst (x # xs))"
    using x(3) calculation(2) by (metis append.assoc concat.simps(2) list.simps(9))
  ultimately show ?case using x(1) by auto
qed

lemma handleClose_returns:
  assumes "c_state c \<noteq> DisConnected" and "chans p (c_channel c) = Some ch"
    and "c_connectionCallback c = Some f" and "c_CloseCallback c = Some g"
  obtains p' where "handleClose ctl c p = Inr (setState DisConnected c, p', [Ev_Connection f, Ev_Close g])"
proof -
  obtain ok p' where "disableAll ctl (c_channel c) p = Inr (ok, p')"
    using set_events_returns [OF assms(2)] unfolding disableAll_def by blast
  with assms that show thesis by (simp add: handleClose_def setState_def invoke_def)
qed

section \<open>Properties\<close>

text \<open>C4. A connection hands over what its peer sent and then closes once. Whatever pieces the stream comes
  in, and whether the receiver empties the input buffer after a piece or lets it grow, no call of
  \<open>handleRead\<close> fails; each announces its piece to the message callback with its time, and all that the
  receiver took followed by what is still in the buffer is the stream, with nothing lost, repeated or
  reordered. At the end of the stream, or at an error, the two callbacks of the owner run once, the
  buffer keeps what was not taken, and a later end does nothing more.\<close>

theorem connection_delivers_stream:
  assumes "Buffer_front (c_inputBuffer c)" and "\<forall>x \<in> set xs. legal_piece x"
    and "length (m_buffer (c_inputBuffer c)) + length (concat (map fst xs)) < 2 ^ 63"
    and "c_messageCallback c = Some m" "c_connectionCallback c = Some f" "c_CloseCallback c = Some g"
    and "c_state c \<noteq> DisConnected" and "chans p (c_channel c) = Some ch" and "rv_data rv = None \<or> rv_data rv = Some []"
  shows "\<exists>str c1 c2 p2. read_pieces ctl xs c p = Inr (str, c1, p, map (\<lambda>x. Ev_Message m (fst (snd x))) xs) \<and>
    str @ content (inputBuffer c1) = content (inputBuffer c) @ concat (map fst xs) \<and> c_state c1 = c_state c \<and>
    conn_handleRead ctl rv t c1 p = Inr (c2, p2, [Ev_Connection f, Ev_Close g]) \<and>
    c_state c2 = DisConnected \<and> inputBuffer c2 = inputBuffer c1 \<and>
    (\<forall>rv' t' p'. rv_data rv' = None \<or> rv_data rv' = Some [] \<longrightarrow> conn_handleRead ctl rv' t' c2 p' = Inr (c2, p', []))"
proof -
  from read_pieces_ok [OF assms(1-4), of ctl p] obtain str buf where
    rd: "read_pieces ctl xs c p = Inr (str, c\<lparr>c_inputBuffer := buf\<rparr>, p, map (\<lambda>x. Ev_Message m (fst (snd x))) xs)"
    "str @ content buf = content (c_inputBuffer c) @ concat (map fst xs)" by blast
  let ?c1 = "c\<lparr>c_inputBuffer := buf\<rparr>"
  obtain p2 where "handleClose ctl ?c1 p = Inr (setState DisConnected ?c1, p2, [Ev_Connection f, Ev_Close g])"
    using handleClose_returns [of ?c1 p ch f g ctl] assms(5-8) by auto
  then have cl: "conn_handleRead ctl rv t ?c1 p = Inr (setState DisConnected ?c1, p2, [Ev_Connection f, Ev_Close g])"
    by (simp add: handleRead_end [OF assms(9)])
  have later: "conn_handleRead ctl rv' t' (setState DisConnected ?c1) p' = Inr (setState DisConnected ?c1, p', [])"
    if "rv_data rv' = None \<or> rv_data rv' = Some []" for rv' t' p'
    unfolding handleRead_end [OF that] by (simp add: handleClose_def)
  have "inputBuffer (setState DisConnected ?c1) = inputBuffer ?c1" "c_state ?c1 = c_state c"
    by (simp_all add: inputBuffer_def setState_def)
  with rd cl later show ?thesis by (fastforce simp: inputBuffer_def)
qed

theorem connection_delivers_stream_witness:
  "\<exists>str c1 c2 p2. read_pieces map_ctl [([1, 2], Timestamp 5, True), ([3], Timestamp 6, False)] (demo_conn Connected) (demo_poller KAdded) =
      Inr (str, c1, demo_poller KAdded, [Ev_Message 2 (Timestamp 5), Ev_Message 2 (Timestamp 6)]) \<and>
    str @ content (inputBuffer c1) = [1, 2, 3] \<and>
    conn_handleRead map_ctl \<lparr>rv_data = Some [], rv_errno = 0\<rparr> (Timestamp 7) c1 (demo_poller KAdded) = Inr (c2, p2, [Ev_Connection 1, Ev_Close 4])"
proof -
  let ?c = "demo_conn Connected" and ?xs = "[([1, 2], Timestamp 5, True), ([3], Timestamp 6, False)] :: (byte list \<times> Timestamp \<times> bool) list"
  have "Buffer_front (c_inputBuffer ?c)" "\<forall>x \<in> set ?xs. legal_piece x"
    "length (m_buffer (c_inputBuffer ?c)) + length (concat (map fst ?xs)) < 2 ^ 63"
    "c_messageCallback ?c = Some 2" "c_connectionCallback ?c = Some 1" "c_CloseCallback ?c = Some 4" "c_state ?c \<noteq> DisConnected"
    "chans (demo_poller KAdded) (c_channel ?c) = Some (setIndex KAdded (KaChannel_new 1 5))"
    "rv_data \<lparr>rv_data = Some [], rv_errno = 0\<rparr> = None \<or> rv_data \<lparr>rv_data = Some [], rv_errno = 0\<rparr> = Some []"
    using demo_buffer_front(1) by (simp_all add: demo_buffer_def legal_piece_def demo_poller_chan demo_conn_def)
  from connection_delivers_stream [OF this, of map_ctl "Timestamp 7"] show ?thesis
    using demo_buffer_front(2) by (simp add: inputBuffer_def) blast
qed

end
