(* ===== verification/Servers.thy ===== *)
theory Servers
  imports Connections LoopPools
begin

text \<open>
  \<open>src/Net/KaAcceptor.h\<close>, \<open>KaAcceptor.cpp\<close>, \<open>TcpServer.h\<close> and \<open>TcpServer.cpp\<close>: the acceptor of a
  listening socket, and the server that turns an accepted descriptor into a connection of one of
  its loops. A \<open>shared_ptr<TcpConnection>\<close> is an address in a store, each loop has its poller.
  The close callback the server gives a connection is its own \<open>removeConnection\<close>; the server
  acts on the close events in the trace of an operation of the connection.
\<close>

section \<open>The acceptor\<close>

record 'cb KaAcceptor =
  a_loop :: nat
  m_acceptSocket :: KaSocket
  m_acceptChannel :: nat
  m_newConnectionCallback :: "'cb option"
  m_listening :: bool

definition KaAcceptor_new :: "'s system \<Rightarrow> 'cb \<Rightarrow> nat \<Rightarrow> nat \<Rightarrow> sockaddr_in \<Rightarrow> 's \<Rightarrow> ('k, 'cb) KaPoller \<Rightarrow>
    'cb KaAcceptor \<times> ('k, 'cb) KaPoller \<times> 's" where
  "KaAcceptor_new sys readcb ch loop listenAddr k p =
     (let (sock, k1) = KaSocket_new sys k;
          p1 = put_chan ch (KaChannel_new loop (so_fd sock)) p;
          (_, k2) = setReusePort sys sock True k1;
          (_, k3) = setReuseAddr sys sock True k2;
          (_, k4) = bindAddr sys sock listenAddr k3;
          p2 = put_chan ch (setReadCallback readcb (KaChannel_new loop (so_fd sock))) p1
      in (\<lparr>a_loop = loop, m_acceptSocket = sock, m_acceptChannel = ch, m_newConnectionCallback = None,
           m_listening = False\<rparr>, p2, k4))"

definition KaAcceptor_delete :: "'k epoll_ctl \<Rightarrow> 'cb KaAcceptor \<Rightarrow> ('k, 'cb) KaPoller \<Rightarrow> cxx_error + ('k, 'cb) KaPoller" where
  "KaAcceptor_delete ctl a p =
     bind_r (disableAll ctl (m_acceptChannel a) p) (\<lambda>(_, p1).
     with_chan p1 (m_acceptChannel a) (\<lambda>c. Inr (put_chan (m_acceptChannel a) (KaChannel_remove c) p1)))"

definition SOMAXCONN :: int where
  "SOMAXCONN = 4096"

definition KaAcceptor_listen :: "'s system \<Rightarrow> 'k epoll_ctl \<Rightarrow> 'cb KaAcceptor \<Rightarrow> 's \<Rightarrow> ('k, 'cb) KaPoller \<Rightarrow>
    cxx_error + ('cb KaAcceptor \<times> 's \<times> ('k, 'cb) KaPoller)" where
  "KaAcceptor_listen sys ctl a k p =
     (let a1 = a\<lparr>m_listening := True\<rparr>; (_, k1) = KaSocket_listen sys (m_acceptSocket a1) SOMAXCONN k
      in bind_r (enableReading ctl (m_acceptChannel a1) p) (\<lambda>(_, p1). Inr (a1, k1, p1)))"

text \<open>\<open>handleRead\<close>: the callback and its arguments when there is one to call.\<close>

definition KaAcceptor_handleRead :: "'s system \<Rightarrow> (string \<Rightarrow> u32) \<Rightarrow> 'cb KaAcceptor \<Rightarrow> 's \<Rightarrow>
    ('cb \<times> fd \<times> sockaddr_in) option \<times> 's" where
  "KaAcceptor_handleRead sys inet a k =
     (let (connfd, peeraddr, k1) = KaSocket_accept sys (m_acceptSocket a) (KaNetAddr_default inet) k in
      if connfd \<ge> 0 then
        (case m_newConnectionCallback a of
           Some cb \<Rightarrow> (Some (cb, connfd, peeraddr), k1)
         | None \<Rightarrow> (None, KaNet_close sys connfd k1))
      else (None, k1))"

definition setNewConnectionCallback :: "'cb option \<Rightarrow> 'cb KaAcceptor \<Rightarrow> 'cb KaAcceptor" where
  "setNewConnectionCallback cb a = a\<lparr>m_newConnectionCallback := cb\<rparr>"

definition listening :: "'cb KaAcceptor \<Rightarrow> bool" where
  "listening a = m_listening a"

section \<open>The server\<close>

record ('k, 'cb) TcpServer =
  s_loop :: nat
  m_hostPort :: string
  s_name :: string
  m_acceptor :: "'cb KaAcceptor"
  m_eventLoopThreadPool :: "EventLoopThreadPool option"
  m_connectionCallback :: "'cb option"
  m_messageCallback :: "'cb option"
  m_writeCompleteCallback :: "'cb option"
  m_threadInitCallback :: "'cb option"
  m_serverStarted :: int
  m_nextConnId :: int
  m_connections :: "(string \<times> nat option) list"
  conn_store :: "nat \<Rightarrow> 'cb TcpConnection option"
  pollers :: "nat \<Rightarrow> ('k, 'cb) KaPoller"

text \<open>\<open>std::map\<close>: looking up, inserting or overwriting, and erasing a key.\<close>

definition map_set :: "'a \<Rightarrow> 'b \<Rightarrow> ('a \<times> 'b) list \<Rightarrow> ('a \<times> 'b) list" where
  "map_set k v m = (k, v) # filter (\<lambda>e. fst e \<noteq> k) m"

definition map_erase :: "'a \<Rightarrow> ('a \<times> 'b) list \<Rightarrow> nat \<times> ('a \<times> 'b) list" where
  "map_erase k m = (if k \<in> fst ` set m then 1 else 0, filter (\<lambda>e. fst e \<noteq> k) m)"

definition TcpServer_new :: "'s system \<Rightarrow> 'cb \<Rightarrow> 'cb \<Rightarrow> 'cb \<Rightarrow> 'cb \<Rightarrow> nat \<Rightarrow> nat \<Rightarrow> sockaddr_in \<Rightarrow> string \<Rightarrow>
    (nat \<Rightarrow> ('k, 'cb) KaPoller) \<Rightarrow> 's \<Rightarrow> ('k, 'cb) TcpServer \<times> 's" where
  "TcpServer_new sys readcb newcb defconn defmsg ch loop listenAddr nameArg ps k =
     (let (a, p1, k1) = KaAcceptor_new sys readcb ch loop listenAddr k (ps loop)
      in (\<lparr>s_loop = loop, m_hostPort = KaNetAddr_ToString listenAddr, s_name = nameArg,
           m_acceptor = setNewConnectionCallback (Some newcb) a, m_eventLoopThreadPool = None,
           m_connectionCallback = Some defconn, m_messageCallback = Some defmsg,
           m_writeCompleteCallback = None, m_threadInitCallback = None, m_serverStarted = 0, m_nextConnId = 1, m_connections = [],
           conn_store = Map.empty, pollers = ps(loop := p1)\<rparr>, k1))"

definition hostport :: "('k, 'cb) TcpServer \<Rightarrow> string" where
  "hostport s = m_hostPort s"

definition server_name :: "('k, 'cb) TcpServer \<Rightarrow> string" where
  "server_name s = s_name s"

definition server_GetLoop :: "('k, 'cb) TcpServer \<Rightarrow> nat" where
  "server_GetLoop s = s_loop s"

definition setThreadInitCallback :: "'cb option \<Rightarrow> ('k, 'cb) TcpServer \<Rightarrow> ('k, 'cb) TcpServer" where
  "setThreadInitCallback cb s = s\<lparr>m_threadInitCallback := cb\<rparr>"

definition server_setConnectionCallback :: "'cb option \<Rightarrow> ('k, 'cb) TcpServer \<Rightarrow> ('k, 'cb) TcpServer" where
  "server_setConnectionCallback cb s = s\<lparr>m_connectionCallback := cb\<rparr>"

definition server_setMessageCallback :: "'cb option \<Rightarrow> ('k, 'cb) TcpServer \<Rightarrow> ('k, 'cb) TcpServer" where
  "server_setMessageCallback cb s = s\<lparr>m_messageCallback := cb\<rparr>"

definition server_setWriteCompleteCallback :: "'cb option \<Rightarrow> ('k, 'cb) TcpServer \<Rightarrow> ('k, 'cb) TcpServer" where
  "server_setWriteCompleteCallback cb s = s\<lparr>m_writeCompleteCallback := cb\<rparr>"

text \<open>\<open>start\<close>: \<open>started\<close> gives the loops the pool's threads return. The thread callback is not handed to
  the pool.\<close>

definition TcpServer_start :: "'s system \<Rightarrow> 'k epoll_ctl \<Rightarrow> (nat \<Rightarrow> nat) \<Rightarrow> int \<Rightarrow> ('k, 'cb) TcpServer \<Rightarrow> 's \<Rightarrow>
    cxx_error + (('k, 'cb) TcpServer \<times> 's)" where
  "TcpServer_start sys ctl started workThreadCount s k =
     (if m_serverStarted s = 0 then
        (let pool = fst (EventLoopThreadPool_start False started
                      (EventLoopThreadPool_init (Some (s_loop s)) workThreadCount EventLoopThreadPool_new))
         in bind_r (KaAcceptor_listen sys ctl (m_acceptor s) k (pollers s (s_loop s))) (\<lambda>(a, k1, p1).
              Inr (s\<lparr>m_eventLoopThreadPool := Some pool, m_acceptor := a, m_serverStarted := 1,
                     pollers := (pollers s)(s_loop s := p1)\<rparr>, k1)))
      else Inr (s, k))"

text \<open>The name of a connection: 32 bytes are offered to \<open>snprintf\<close>.\<close>

definition connName :: "string \<Rightarrow> string \<Rightarrow> int \<Rightarrow> string" where
  "connName nm hostPort i = nm @ snprintf_buf 32 ('':'' @ c_str hostPort @ ''#'' @ show_int i)"

definition removeConnectionInLoop :: "nat \<Rightarrow> ('k, 'cb) TcpServer \<Rightarrow> cxx_error + ('k, 'cb) TcpServer" where
  "removeConnectionInLoop conn s =
     (case conn_store s conn of
        None \<Rightarrow> Inl Undefined_Behaviour
      | Some c \<Rightarrow>
          (let (n, m) = map_erase (c_name c) (m_connections s); s1 = s\<lparr>m_connections := m\<rparr> in
           if n \<noteq> 1 then Inr s1
           else Inr (s1\<lparr>conn_store := (conn_store s1)(conn \<mapsto> connectDestroyed c)\<rparr>)))"

definition removeConnection :: "nat \<Rightarrow> ('k, 'cb) TcpServer \<Rightarrow> cxx_error + ('k, 'cb) TcpServer" where
  "removeConnection conn s = removeConnectionInLoop conn s"

text \<open>What the server does with the events of an operation of the connection at address \<open>conn\<close>.\<close>

primrec serve_events :: "nat \<Rightarrow> 'cb conn_event list \<Rightarrow> ('k, 'cb) TcpServer \<Rightarrow> cxx_error + ('k, 'cb) TcpServer" where
  "serve_events conn [] s = Inr s"
| "serve_events conn (e # es) s =
     bind_r (if is_close e then removeConnection conn s else Inr s) (serve_events conn es)"

text \<open>\<open>newConnection\<close>: \<open>conn\<close> and \<open>ch\<close> are the addresses of the new connection and its channel, \<open>rmcb\<close>
  is the bound \<open>removeConnection\<close>, \<open>localAddr\<close> what \<open>getLocalAddr\<close> returns.\<close>

definition newConnection :: "'k epoll_ctl \<Rightarrow> 'cb conn_binds \<Rightarrow> 'cb \<Rightarrow> nat \<Rightarrow> nat \<Rightarrow> sockaddr_in \<Rightarrow> fd \<Rightarrow> sockaddr_in \<Rightarrow>
    ('k, 'cb) TcpServer \<Rightarrow> cxx_error + (('k, 'cb) TcpServer \<times> 'cb conn_event list)" where
  "newConnection ctl binds rmcb conn ch localAddr sockfd peerAddr s =
     (case m_eventLoopThreadPool s of
        None \<Rightarrow> Inl Undefined_Behaviour
      | Some pool0 \<Rightarrow>
          bind_r (getNextLoop pool0) (\<lambda>(ioLoop, pool).
          bind_r (if m_nextConnId s < 2 ^ 31 - 1 then Inr (m_nextConnId s + 1) else Inl Undefined_Behaviour) (\<lambda>nextId.
            (let nm = connName (s_name s) (m_hostPort s) (m_nextConnId s) in
             case ioLoop of
               None \<Rightarrow> Inl Undefined_Behaviour
             | Some l \<Rightarrow>
                 bind_r (TcpConnection_new binds conn ch ioLoop nm sockfd localAddr peerAddr (pollers s l)) (\<lambda>(c, p1, ev1).
                   (let c1 = setConnCloseCallback (Some rmcb) (setWriteCompleteCallback (m_writeCompleteCallback s)
                          (setMessageCallback (m_messageCallback s) (setConnectionCallback (m_connectionCallback s) c)));
                        m = map_set nm (Some conn) (m_connections s)
                    in bind_r (connectEatablished ctl conn c1 p1) (\<lambda>(c2, p2, ev2).
                       bind_r (serve_events conn ev2 (s\<lparr>m_eventLoopThreadPool := Some pool, m_nextConnId := nextId,
                                m_connections := m, conn_store := (conn_store s)(conn \<mapsto> c2),
                                pollers := (pollers s)(l := p2)\<rparr>)) (\<lambda>s2.
                         Inr (s2, ev1 @ ev2))))))))) "

text \<open>\<open>stop\<close>: the loop over the map resets every pointer before it uses its copy. The result has whether
  \<open>stop\<close> returns, the server it has left by then, and the threads the pool has told to stop.\<close>

definition stop_connections :: "(string \<times> nat option) list \<Rightarrow> cxx_error + (string \<times> nat option) list" where
  "stop_connections m =
     (if \<exists>e \<in> set m. snd e = None then Inl Undefined_Behaviour else Inr (map (\<lambda>e. (fst e, None)) m))"

definition TcpServer_stop :: "(nat \<Rightarrow> bool) \<Rightarrow> ('k, 'cb) TcpServer \<Rightarrow>
    cxx_error + (bool \<times> ('k, 'cb) TcpServer \<times> string list)" where
  "TcpServer_stop joins s =
     (if m_serverStarted s = 0 then Inr (True, s, [])
      else bind_r (stop_connections (m_connections s)) (\<lambda>m.
        case m_eventLoopThreadPool s of
          None \<Rightarrow> Inl Undefined_Behaviour
        | Some pool \<Rightarrow>
            (let (told, ret) = EventLoopThreadPool_stop joins pool; s1 = s\<lparr>m_connections := m\<rparr>
             in Inr (ret, if ret then s1\<lparr>m_serverStarted := 0\<rparr> else s1, told))))"

text \<open>The destructor stops the server; the members are then destroyed.\<close>

definition TcpServer_delete :: "(nat \<Rightarrow> bool) \<Rightarrow> ('k, 'cb) TcpServer \<Rightarrow> cxx_error + (bool \<times> string list)" where
  "TcpServer_delete joins s = bind_r (TcpServer_stop joins s) (\<lambda>(ret, _, told). Inr (ret, told))"

section \<open>Lemmas\<close>

lemma TcpConnection_new_eq:
  "\<exists>c cch. TcpConnection_new binds this ch loop nm sockfd la pa p =
     Inr (c, put_chan ch cch p, [Ev_Syscall (Sys_setsockopt sockfd SO_KEEPALIVE 1)]) \<and>
     c_state c = Connecting \<and> c_name c = nm \<and> c_channel c = ch \<and> m_index cch = KAdded \<and> c_loop c = loop"
  by (simp add: TcpConnection_new_def Buffer_new_InitSize Let_def setErrorCallback_def setCloseCallback_def
      setWriteCallback_def setReadCallback_def KaChannel_new_def) (rule exI, rule conjI, rule refl, simp)

lemma KaAcceptor_new_channel:
  assumes "unregistered k0 p" and "KaAcceptor_new sys readcb ch loop listenAddr k p = (a, p', k')"
  shows "unregistered k0 p' \<and> m_acceptChannel a = ch \<and> (\<exists>c. chans p' ch = Some c)"
proof -
  obtain sock k1 where sock: "KaSocket_new sys k = (sock, k1)" by (cases "KaSocket_new sys k")
  let ?c = "KaChannel_new loop (so_fd sock)"
  have i: "m_index ?c = KAdded" "m_index (setReadCallback readcb ?c) = KAdded"
    by (simp_all add: KaChannel_new_def setReadCallback_def)
  have p: "p' = put_chan ch (setReadCallback readcb ?c) (put_chan ch ?c p)" and a: "m_acceptChannel a = ch"
    using assms(2) sock by (auto simp: KaAcceptor_new_def Let_def split: prod.splits)
  show ?thesis
    unfolding p using unregistered_put [OF unregistered_put [OF assms(1) i(1)] i(2)] a by simp
qed

lemma TcpServer_new_acceptor:
  assumes "unregistered k0 (ps loop)"
    and "TcpServer_new sys readcb newcb defconn defmsg ch loop listenAddr nameArg ps k = (s, k1)"
  shows "m_serverStarted s = 0 \<and> s_loop s = loop \<and> unregistered k0 (pollers s (s_loop s)) \<and>
    (\<exists>c. chans (pollers s (s_loop s)) (m_acceptChannel (m_acceptor s)) = Some c) \<and>
    m_connectionCallback s = Some defconn \<and> m_nextConnId s = 1"
proof -
  obtain a p1 k' where a: "KaAcceptor_new sys readcb ch loop listenAddr k (ps loop) = (a, p1, k')" by (metis prod_cases3)
  from KaAcceptor_new_channel [OF assms(1) a] assms(2) a show ?thesis
    by (auto simp: TcpServer_new_def setNewConnectionCallback_def)
qed

lemma TcpServer_start_returns:
  assumes "m_serverStarted s = 0" and "unregistered k0 (pollers s (s_loop s))"
    and "chans (pollers s (s_loop s)) (m_acceptChannel (m_acceptor s)) = Some c"
  shows "\<exists>a p k'. TcpServer_start sys ctl started workThreadCount s k = Inr (s\<lparr>m_eventLoopThreadPool :=
        Some (fst (EventLoopThreadPool_start False started
          (EventLoopThreadPool_init (Some (s_loop s)) workThreadCount EventLoopThreadPool_new))),
      m_acceptor := a, m_serverStarted := 1, pollers := (pollers s)(s_loop s := p)\<rparr>, k') \<and>
    m_listening a \<and> unregistered k0 p"
proof -
  from unregistered_refuses [OF assms(2,3)]
  obtain p where p: "enableReading ctl (m_acceptChannel (m_acceptor s)) (pollers s (s_loop s)) = Inr (False, p)"
    "unregistered k0 p" by (auto simp: enableReading_def)
  obtain r k' where "KaSocket_listen sys (m_acceptSocket (m_acceptor s)) SOMAXCONN k = (r, k')"
    by (cases "KaSocket_listen sys (m_acceptSocket (m_acceptor s)) SOMAXCONN k")
  with p assms(1) show ?thesis
    by (intro exI [of _ "m_acceptor s\<lparr>m_listening := True\<rparr>"] exI [of _ p] exI [of _ k'])
      (simp add: TcpServer_start_def KaAcceptor_listen_def Let_def)
qed

lemma stored_connection: "map_erase k (map_set k v m) = (1, filter (\<lambda>e. fst e \<noteq> k) m)"
  by (simp add: map_erase_def map_set_def)

lemma connName_eq:
  assumes "CHR 0x00 \<notin> set host" and "0 \<le> i"
  shows "connName nm host i = nm @ take 31 ('':'' @ host @ ''#'' @ show_nat (nat i))"
  using assms by (simp add: connName_def snprintf_buf_def c_str_no_nul show_int_def)

lemma connName_fits:
  assumes "CHR 0x00 \<notin> set host" and "0 \<le> i" and "i < 10 ^ Suc d" and "length host + Suc d \<le> 29"
  shows "connName nm host i = nm @ '':'' @ host @ ''#'' @ show_nat (nat i)"
proof -
  have "length (show_nat (nat i)) \<le> Suc d"
    unfolding length_show_nat_le using assms(2,3) by (simp add: nat_less_iff)
  with assms show ?thesis by (simp add: connName_eq)
qed

lemma length_show_nat_eq: "10 ^ k \<le> n \<Longrightarrow> n < 10 ^ Suc k \<Longrightarrow> length (show_nat n) = Suc k"
proof (cases k)
  case 0
  then show "n < 10 ^ Suc k \<Longrightarrow> length (show_nat n) = Suc k" by (simp add: show_nat_small)
next
  case (Suc j)
  assume a: "10 ^ k \<le> n" "n < 10 ^ Suc k"
  have "\<not> length (show_nat n) \<le> Suc j" unfolding length_show_nat_le using a Suc by simp
  moreover have "length (show_nat n) \<le> Suc k" unfolding length_show_nat_le using a by simp
  ultimately show ?thesis using Suc by simp
qed

lemma newConnection_closed:
  assumes "m_eventLoopThreadPool s = Some pool0" and "getNextLoop pool0 = Inr (Some l, pool)"
    and "unregistered k0 (pollers s l)" and "m_connectionCallback s = Some f"
    and "m_nextConnId s < 2 ^ 31 - 1" and "nm = connName (s_name s) (m_hostPort s) (m_nextConnId s)"
  shows "\<exists>c p. newConnection ctl binds rmcb conn ch localAddr sockfd peerAddr s =
      Inr (s\<lparr>m_eventLoopThreadPool := Some pool, m_nextConnId := m_nextConnId s + 1,
          m_connections := filter (\<lambda>e. fst e \<noteq> nm) (m_connections s),
          conn_store := (conn_store s)(conn \<mapsto> c), pollers := (pollers s)(l := p)\<rparr>,
        [Ev_Syscall (Sys_setsockopt sockfd SO_KEEPALIVE 1), Ev_Connection f, Ev_Close rmcb]) \<and>
    c_state c = DisConnected \<and> c_name c = nm \<and> unregistered k0 p"
proof -
  obtain c cch where c: "TcpConnection_new binds conn ch (Some l) nm sockfd localAddr peerAddr (pollers s l) =
      Inr (c, put_chan ch cch (pollers s l), [Ev_Syscall (Sys_setsockopt sockfd SO_KEEPALIVE 1)])"
    "c_state c = Connecting" "c_name c = nm" "c_channel c = ch" "m_index cch = KAdded"
    using TcpConnection_new_eq [of binds conn ch "Some l" nm sockfd localAddr peerAddr "pollers s l"] by blast
  let ?c1 = "setConnCloseCallback (Some rmcb) (setWriteCompleteCallback (m_writeCompleteCallback s)
     (setMessageCallback (m_messageCallback s) (setConnectionCallback (m_connectionCallback s) c)))"
  have set: "c_state ?c1 = Connecting" "c_channel ?c1 = ch" "c_name ?c1 = nm"
      "c_connectionCallback ?c1 = Some f" "c_CloseCallback ?c1 = Some rmcb"
    using c assms(4) by (simp_all add: setConnCloseCallback_def setWriteCompleteCallback_def
        setMessageCallback_def setConnectionCallback_def)
  have un: "unregistered k0 (put_chan ch cch (pollers s l))" by (rule unregistered_put [OF assms(3) c(5)])
  have "chans (put_chan ch cch (pollers s l)) (c_channel ?c1) = Some cch" by (simp add: set)
  from connect_refused [OF un set(1) this set(4,5), of ctl conn] obtain p2 where
    p2: "connectEatablished ctl conn ?c1 (put_chan ch cch (pollers s l)) =
      Inr (setState DisConnected ?c1, p2, [Ev_Connection f, Ev_Close rmcb])" "unregistered k0 p2" by blast
  have nm: "c_name (setState DisConnected ?c1) = nm" using set by (simp add: setState_def)
  let ?s = "s\<lparr>m_eventLoopThreadPool := Some pool, m_nextConnId := m_nextConnId s + 1,
     m_connections := map_set nm (Some conn) (m_connections s),
     conn_store := (conn_store s)(conn \<mapsto> setState DisConnected ?c1), pollers := (pollers s)(l := p2)\<rparr>"
  have "newConnection ctl binds rmcb conn ch localAddr sockfd peerAddr s =
      bind_r (serve_events conn [Ev_Connection f, Ev_Close rmcb] ?s)
      (\<lambda>s2. Inr (s2, [Ev_Syscall (Sys_setsockopt sockfd SO_KEEPALIVE 1), Ev_Connection f, Ev_Close rmcb]))"
    using assms(1,2,5,6) c(1) p2(1) by (simp add: newConnection_def Let_def)
  also have "serve_events conn [Ev_Connection f, Ev_Close rmcb] ?s
      = Inr (?s\<lparr>m_connections := filter (\<lambda>e. fst e \<noteq> nm) (m_connections s)\<rparr>)"
    using nm by (simp add: removeConnection_def removeConnectionInLoop_def stored_connection Let_def
        connectDestroyed_def)
  finally show ?thesis using nm p2(2) by (intro exI [of _ "setState DisConnected ?c1"] exI [of _ p2]) simp
qed

section \<open>Properties\<close>

text \<open>C2. No client is served. A descriptor accepted by a running server becomes a connection of the
  next loop, but its channel cannot be registered, so before \<open>newConnection\<close> returns the connection
  has been closed: the connection callback has seen it once, the close callback has removed it from
  the server's map, and its state is closed. The server's counter and pool move on.\<close>

theorem newConnection_closes_at_once:
  assumes "m_eventLoopThreadPool s = Some pool0" and "getNextLoop pool0 = Inr (Some l, pool)"
    and "unregistered k0 (pollers s l)" and "m_connectionCallback s = Some f"
    and "m_nextConnId s < 2 ^ 31 - 1" and "nm = connName (s_name s) (m_hostPort s) (m_nextConnId s)"
  shows "\<exists>s' c. newConnection ctl binds rmcb conn ch localAddr sockfd peerAddr s =
      Inr (s', [Ev_Syscall (Sys_setsockopt sockfd SO_KEEPALIVE 1), Ev_Connection f, Ev_Close rmcb]) \<and>
    m_connections s' = filter (\<lambda>e. fst e \<noteq> nm) (m_connections s) \<and>
    conn_store s' conn = Some c \<and> c_state c = DisConnected \<and> c_name c = nm \<and>
    m_nextConnId s' = m_nextConnId s + 1 \<and> m_eventLoopThreadPool s' = Some pool \<and>
    unregistered k0 (pollers s' l)"
proof -
  from newConnection_closed [OF assms, of ctl binds rmcb conn ch localAddr sockfd peerAddr]
  obtain c p where "newConnection ctl binds rmcb conn ch localAddr sockfd peerAddr s =
      Inr (s\<lparr>m_eventLoopThreadPool := Some pool, m_nextConnId := m_nextConnId s + 1,
          m_connections := filter (\<lambda>e. fst e \<noteq> nm) (m_connections s),
          conn_store := (conn_store s)(conn \<mapsto> c), pollers := (pollers s)(l := p)\<rparr>,
        [Ev_Syscall (Sys_setsockopt sockfd SO_KEEPALIVE 1), Ev_Connection f, Ev_Close rmcb])"
    "c_state c = DisConnected" "c_name c = nm" "unregistered k0 p" by blast
  then show ?thesis by simp
qed

text \<open>C35. Connection names are unique only while they fit. With a host text of length h, all ids of at
  most 29 - h digits get different names; with one digit more the last digit is cut off, so every
  such id gets the name of the id ten times smaller, and the map entry of a live connection is
  overwritten.\<close>

theorem connName_unique_while_it_fits:
  assumes "CHR 0x00 \<notin> set host" and "length host + Suc d = 29" and "0 \<le> i" and "0 \<le> j"
  shows "(i < 10 ^ Suc d \<and> j < 10 ^ Suc d \<longrightarrow> (connName nm host i = connName nm host j \<longleftrightarrow> i = j)) \<and>
    (10 ^ Suc d \<le> i \<and> i < 10 ^ Suc (Suc d) \<longrightarrow> connName nm host i = connName nm host (i div 10))"
proof (intro conjI impI)
  assume "i < 10 ^ Suc d \<and> j < 10 ^ Suc d"
  then show "connName nm host i = connName nm host j \<longleftrightarrow> i = j"
    using assms by (auto simp: connName_fits [of host _ d] eq_nat_nat_iff)
next
  assume big: "10 ^ Suc d \<le> i \<and> i < 10 ^ Suc (Suc d)"
  let ?n = "nat i"
  have n: "10 ^ Suc d \<le> ?n" "?n < 10 ^ Suc (Suc d)"
    using big assms(3) by (auto simp: le_nat_iff nat_less_iff)
  have "(1 :: nat) \<le> 10 ^ d" by simp
  then have "10 \<le> (10 :: nat) ^ Suc d" unfolding power_Suc by linarith
  with n(1) have ten: "10 \<le> ?n" by (rule order_trans [rotated])
  have split: "show_nat ?n = show_nat (?n div 10) @ [digit_char (?n mod 10)]"
    using ten by (rule show_nat_step)
  have "length (show_nat ?n) = Suc (Suc d)" using n by (rule length_show_nat_eq)
  then have len: "length (show_nat (?n div 10)) = Suc d" using split by simp
  have "nat (i div 10) = ?n div 10" using assms(3) by (simp add: nat_div_distrib)
  moreover have "30 - length host = Suc (Suc d)" using assms(2) by simp
  ultimately show "connName nm host i = connName nm host (i div 10)"
    using assms len split
    by (simp add: connName_eq pos_imp_zdiv_nonneg_iff)
qed

definition demo_server :: "(fd \<Rightarrow> epoll_event option, nat) TcpServer" where
  "demo_server = \<lparr>s_loop = 1, m_hostPort = ''IP:16777343,Port=14427'', s_name = ''chat'',
     m_acceptor = \<lparr>a_loop = 1, m_acceptSocket = \<lparr>so_fd = 3\<rparr>, m_acceptChannel = 5,
       m_newConnectionCallback = Some 8, m_listening = True\<rparr>,
     m_eventLoopThreadPool = Some \<lparr>m_baseLoop = Some 1, m_name = '''', m_started = True,
       m_numberThreads = 0, m_next = 0, m_threads = [], m_loops = []\<rparr>,
     m_connectionCallback = Some 6, m_messageCallback = Some 7, m_writeCompleteCallback = None, m_threadInitCallback = None,
     m_serverStarted = 1, m_nextConnId = 1, m_connections = [], conn_store = Map.empty,
     pollers = (\<lambda>_. KaPoller_new 1 Map.empty Map.empty)\<rparr>"

text \<open>A kernel that gives every call the answer 3.\<close>

definition quiet_system :: "nat system" where
  "quiet_system k c = (\<lparr>ret_val = 3, ret_addr = None, ret_opt = 0, ret_errno = 0\<rparr>, Suc k)"

theorem newConnection_closes_at_once_witness:
  "\<exists>s' c. newConnection map_ctl \<lparr>bind_read = id, bind_write = id, bind_close = id, bind_error = id\<rparr> 9 20 21
      zero_addr 12 zero_addr demo_server =
      Inr (s', [Ev_Syscall (Sys_setsockopt 12 SO_KEEPALIVE 1), Ev_Connection 6, Ev_Close 9]) \<and>
    m_connections s' = [] \<and> conn_store s' 20 = Some c \<and> c_state c = DisConnected"
proof -
  let ?pool = "\<lparr>m_baseLoop = Some 1, m_name = '''', m_started = True,
       m_numberThreads = 0, m_next = 0, m_threads = [], m_loops = []\<rparr>"
  have 1: "m_eventLoopThreadPool demo_server = Some ?pool" "getNextLoop ?pool = Inr (Some 1, ?pool)"
    "unregistered Map.empty (pollers demo_server 1)" "m_connectionCallback demo_server = Some 6"
    "m_nextConnId demo_server < 2 ^ 31 - 1" and 2: "m_connections demo_server = []"
    by (simp_all add: demo_server_def getNextLoop_def unregistered_def KaPoller_new_def)
  from newConnection_closes_at_once [OF 1 refl] show ?thesis unfolding 2 filter.simps(1) by blast
qed

theorem connName_unique_while_it_fits_witness:
  "connName ''chat'' ''IP:-1073741824,Port=14427'' 10007 = connName ''chat'' ''IP:-1073741824,Port=14427'' 1000"
  using connName_unique_while_it_fits [of "''IP:-1073741824,Port=14427''" 3 10007 0 "''chat''"] by simp

end
