(* ===== verification/ServerRuns.thy ===== *)
theory ServerRuns
  imports Servers
begin

text \<open>
  Histories of a \<open>TcpServer\<close> (\<open>src/Net/TcpServer.cpp\<close>): it is made, its callbacks are set, it is
  started and stopped, again and again; its acceptor and its loops poll; connections are made, used
  by their owners and removed. The invariant of every state such a history reaches.
\<close>

section \<open>The states a server reaches\<close>

text \<open>\<open>k0\<close> gives the interest list of each loop's \<open>epoll\<close> before the server is made; the loops may have
  used their pollers before. The owner of a connection may call its operations at any time.\<close>

inductive server_reach :: "'s system \<Rightarrow> 'k epoll_ctl \<Rightarrow> 'cb conn_binds \<Rightarrow> 'cb \<Rightarrow> (nat \<Rightarrow> 'k) \<Rightarrow>
    ('k, 'cb) TcpServer \<Rightarrow> 's \<Rightarrow> bool" for sys ctl binds rmcb k0 where
  sr_new: "(\<And>l. poller_reach ctl l (k0 l) (ps l)) \<Longrightarrow>
    TcpServer_new sys readcb newcb defconn defmsg ch loop listenAddr nameArg ps k = (s, k1) \<Longrightarrow>
    server_reach sys ctl binds rmcb k0 s k1"
| sr_start: "server_reach sys ctl binds rmcb k0 s k \<Longrightarrow>
    TcpServer_start sys ctl started workThreadCount s k = Inr (s', k') \<Longrightarrow> server_reach sys ctl binds rmcb k0 s' k'"
| sr_connection: "server_reach sys ctl binds rmcb k0 s k \<Longrightarrow>
    newConnection ctl binds rmcb conn ch localAddr sockfd peerAddr s = Inr (s', evs) \<Longrightarrow>
    server_reach sys ctl binds rmcb k0 s' k"
| sr_remove: "server_reach sys ctl binds rmcb k0 s k \<Longrightarrow> removeConnection conn s = Inr s' \<Longrightarrow>
    server_reach sys ctl binds rmcb k0 s' k"
| sr_poll: "server_reach sys ctl binds rmcb k0 s k \<Longrightarrow>
    KaPoller_poll r now (pollers s l) = Inr (t, active, e, p') \<Longrightarrow>
    server_reach sys ctl binds rmcb k0 (s\<lparr>pollers := (pollers s)(l := p')\<rparr>) k"
| sr_owner: "server_reach sys ctl binds rmcb k0 s k \<Longrightarrow> conn_store s conn = Some c \<Longrightarrow> c_loop c = Some l \<Longrightarrow>
    r \<in> {send_mem len bytes nw errno c (pollers s l), shutdown c (pollers s l), forceClose ctl c (pollers s l),
      connectEatablished ctl conn c (pollers s l), handleClose ctl c (pollers s l)} \<Longrightarrow>
    r = Inr (c', p', evs) \<Longrightarrow> server_reach sys ctl binds rmcb k0
      (s\<lparr>conn_store := (conn_store s)(conn \<mapsto> c'), pollers := (pollers s)(l := p')\<rparr>) k"
| sr_set: "server_reach sys ctl binds rmcb k0 s k \<Longrightarrow>
    s' \<in> {server_setConnectionCallback cb s, server_setMessageCallback cb s,
      server_setWriteCompleteCallback cb s, setThreadInitCallback cb s} \<Longrightarrow>
    server_reach sys ctl binds rmcb k0 s' k"
| sr_stop: "server_reach sys ctl binds rmcb k0 s k \<Longrightarrow> TcpServer_stop joins s = Inr (ret, s', told) \<Longrightarrow>
    server_reach sys ctl binds rmcb k0 s' k"

text \<open>No connection is in the map, every connection that was made is closed, no channel is registered
  with any loop, and a server that counts as started has its pool.\<close>

definition serves_nobody :: "(nat \<Rightarrow> 'k) \<Rightarrow> ('k, 'cb) TcpServer \<Rightarrow> bool" where
  "serves_nobody k0 s \<longleftrightarrow> m_connections s = [] \<and>
     (\<forall>conn c. conn_store s conn = Some c \<longrightarrow> c_state c = DisConnected) \<and>
     (\<forall>l. unregistered (k0 l) (pollers s l)) \<and>
     (m_serverStarted s \<noteq> 0 \<longrightarrow> m_eventLoopThreadPool s \<noteq> None)"

lemma serves_nobodyI:
  "m_connections s = [] \<Longrightarrow> (\<And>conn c. conn_store s conn = Some c \<Longrightarrow> c_state c = DisConnected) \<Longrightarrow>
   (\<And>l. unregistered (k0 l) (pollers s l)) \<Longrightarrow> (m_serverStarted s \<noteq> 0 \<Longrightarrow> m_eventLoopThreadPool s \<noteq> None) \<Longrightarrow>
   serves_nobody k0 s"
  by (simp add: serves_nobody_def)

section \<open>Lemmas\<close>

lemma establish_needs_callback:
  "connectEatablished ctl this c p = Inr r \<Longrightarrow> c_state c = Connecting \<Longrightarrow> c_connectionCallback c \<noteq> None"
  by (auto simp: connectEatablished_def handleClose_def with_chan_Inr bind_r_eq_Inr invoke_def setState_def Let_def
      split: if_splits option.splits)

text \<open>What a call of \<open>newConnection\<close> that returns has found.\<close>

lemma newConnection_returns:
  assumes "newConnection ctl binds rmcb conn ch localAddr sockfd peerAddr s = Inr (s', evs)"
  shows "\<exists>pool0 l pool f. m_eventLoopThreadPool s = Some pool0 \<and> getNextLoop pool0 = Inr (Some l, pool) \<and>
    m_connectionCallback s = Some f \<and> m_nextConnId s < 2 ^ 31 - 1"
proof -
  obtain pool0 where pool0: "m_eventLoopThreadPool s = Some pool0"
    using assms by (auto simp: newConnection_def split: option.splits)
  show ?thesis
  proof (cases "\<exists>l pool. getNextLoop pool0 = Inr (Some l, pool) \<and> m_nextConnId s < 2 ^ 31 - 1")
    case False
    with assms pool0 show ?thesis
      by (auto simp: newConnection_def Let_def bind_r_eq_Inr split: option.splits if_splits)
  next
    case True
    then obtain l pool where l: "getNextLoop pool0 = Inr (Some l, pool)" "m_nextConnId s < 2 ^ 31 - 1" by blast
    obtain c p1 evs1 where c: "TcpConnection_new binds conn ch (Some l) (connName (s_name s) (m_hostPort s) (m_nextConnId s))
        sockfd localAddr peerAddr (pollers s l) = Inr (c, p1, evs1)" "c_state c = Connecting"
      using TcpConnection_new_eq [of binds conn ch "Some l" "connName (s_name s) (m_hostPort s) (m_nextConnId s)"
          sockfd localAddr peerAddr "pollers s l"] by blast
    let ?c1 = "setConnCloseCallback (Some rmcb) (setWriteCompleteCallback (m_writeCompleteCallback s)
       (setMessageCallback (m_messageCallback s) (setConnectionCallback (m_connectionCallback s) c)))"
    have c1: "c_state ?c1 = Connecting" "c_connectionCallback ?c1 = m_connectionCallback s"
      using c(2) by (simp_all add: setConnCloseCallback_def setWriteCompleteCallback_def
          setMessageCallback_def setConnectionCallback_def)
    obtain r where "connectEatablished ctl conn ?c1 p1 = Inr r"
      using assms pool0 l c(1) by (auto simp: newConnection_def Let_def bind_r_eq_Inr)
    from establish_needs_callback [OF this c1(1)] c1(2) pool0 l show ?thesis by auto
  qed
qed

text \<open>The owner of a closed connection changes nothing: every operation returns at once.\<close>

lemma closed_connection_inert:
  assumes "c_state c = DisConnected"
  shows "send_mem len bytes nw errno c p = Inr (c, p, [])" "shutdown c p = Inr (c, p, [])"
    "forceClose ctl c p = Inr (c, p, [])" "connectEatablished ctl this c p = Inr (c, p, [])"
    "handleClose ctl c p = Inr (c, p, [])"
  using assms by (simp_all add: send_mem_def shutdown_def forceClose_def connectEatablished_def handleClose_def)

lemma TcpServer_new_serves_nobody:
  assumes "\<And>l. unregistered (k0 l) (ps l)"
    and "TcpServer_new sys readcb newcb defconn defmsg ch loop listenAddr nameArg ps k = (s, k1)"
  shows "serves_nobody k0 s"
proof -
  obtain a p1 k' where a: "KaAcceptor_new sys readcb ch loop listenAddr k (ps loop) = (a, p1, k')" by (metis prod_cases3)
  from KaAcceptor_new_channel [OF assms(1) a] assms show ?thesis
    by (auto simp: TcpServer_new_def a serves_nobody_def)
qed

lemma TcpServer_start_serves_nobody:
  assumes "serves_nobody k0 s" and "TcpServer_start sys ctl started n s k = Inr (s', k')"
  shows "serves_nobody k0 s'"
proof (cases "m_serverStarted s = 0")
  case False
  with assms show ?thesis by (simp add: TcpServer_start_def)
next
  case True
  obtain r k2 where k2: "KaSocket_listen sys (m_acceptSocket (m_acceptor s)) SOMAXCONN k = (r, k2)"
    by (cases "KaSocket_listen sys (m_acceptSocket (m_acceptor s)) SOMAXCONN k")
  with assms(2) True obtain ok p1 where
    p1: "enableReading ctl (m_acceptChannel (m_acceptor s)) (pollers s (s_loop s)) = Inr (ok, p1)"
    and s': "m_connections s' = m_connections s" "conn_store s' = conn_store s"
      "pollers s' = (pollers s)(s_loop s := p1)" "m_eventLoopThreadPool s' \<noteq> None"
    by (auto simp: TcpServer_start_def KaAcceptor_listen_def Let_def bind_r_eq_Inr)
  have "unregistered (k0 (s_loop s)) p1"
    using unregistered_set_events p1 assms(1) unfolding enableReading_def serves_nobody_def by metis
  with assms(1) s' show ?thesis by (auto simp: serves_nobody_def)
qed

lemma newConnection_serves_nobody:
  assumes "serves_nobody k0 s" and "newConnection ctl binds rmcb conn ch localAddr sockfd peerAddr s = Inr (s', evs)"
  shows "serves_nobody k0 s'"
proof -
  from newConnection_returns [OF assms(2)] obtain pool0 l pool f where
    r: "m_eventLoopThreadPool s = Some pool0" "getNextLoop pool0 = Inr (Some l, pool)" 
      "m_connectionCallback s = Some f" "m_nextConnId s < 2 ^ 31 - 1" by blast
  have "unregistered (k0 l) (pollers s l)" using assms(1) by (simp add: serves_nobody_def)
  from newConnection_closed [OF r(1,2) this r(3,4) refl, of ctl binds rmcb conn ch localAddr sockfd peerAddr] assms
  show ?thesis by (auto simp: serves_nobody_def split: if_splits)
qed

lemma removeConnection_serves_nobody:
  "serves_nobody k0 s \<Longrightarrow> removeConnection conn s = Inr s' \<Longrightarrow> s' = s"
  by (auto simp: serves_nobody_def removeConnection_def removeConnectionInLoop_def map_erase_def
      split: option.splits)

text \<open>With an empty map no pointer has been reset, so \<open>stop\<close> is defined.\<close>

lemma TcpServer_stop_serves_nobody:
  assumes "serves_nobody k0 s"
  shows "\<exists>ret s' told. TcpServer_stop joins s = Inr (ret, s', told) \<and> serves_nobody k0 s' \<and>
    m_serverStarted s' = (if ret then 0 else m_serverStarted s) \<and>
    (ret \<longleftrightarrow> m_serverStarted s = 0 \<or> (\<forall>i < length (m_threads (the (m_eventLoopThreadPool s))). joins i))"
proof (cases "m_serverStarted s = 0")
  case True
  then have "TcpServer_stop joins s = Inr (True, s, [])" by (simp add: TcpServer_stop_def)
  with assms True show ?thesis by fastforce
next
  case False
  with assms obtain pool where pool: "m_eventLoopThreadPool s = Some pool" by (auto simp: serves_nobody_def)
  obtain told ret where st: "EventLoopThreadPool_stop joins pool = (told, ret)" by (cases "EventLoopThreadPool_stop joins pool")
  then have ret: "ret \<longleftrightarrow> (\<forall>i < length (m_threads pool). joins i)"
    using stop_threads_returns [of joins 0 "m_threads pool"] by (simp add: EventLoopThreadPool_stop_def)
  have "TcpServer_stop joins s = Inr (ret, if ret then s\<lparr>m_connections := [], m_serverStarted := 0\<rparr> else s\<lparr>m_connections := []\<rparr>, told)"
    using assms False pool st by (simp add: serves_nobody_def TcpServer_stop_def stop_connections_def)
  with assms False pool ret show ?thesis by (auto simp: serves_nobody_def)
qed

lemma server_reach_serves_nobody:
  "server_reach sys ctl binds rmcb k0 s k \<Longrightarrow> serves_nobody k0 s"
proof (induction rule: server_reach.induct)
  case (sr_new ps readcb newcb defconn defmsg ch loop listenAddr nameArg k s k1)
  then show ?case using TcpServer_new_serves_nobody [of k0 ps] poller_reach_unregistered by metis
next
  case (sr_start s k started n s' k')
  then show ?case by (blast intro: TcpServer_start_serves_nobody)
next
  case (sr_connection s k conn ch localAddr sockfd peerAddr s' evs)
  then show ?case by (blast intro: newConnection_serves_nobody)
next
  case (sr_remove s k conn s')
  then show ?case using removeConnection_serves_nobody by metis
next
  case (sr_poll s k r now l t active e p')
  then have "unregistered (k0 l) p'" using unregistered_poll unfolding serves_nobody_def by metis
  with sr_poll.IH show ?case by (auto simp: serves_nobody_def)
next
  case (sr_owner s k conn c l r len bytes nw errno c' p' evs)
  then have "c_state c = DisConnected" by (auto simp: serves_nobody_def)
  with sr_owner.hyps have "r = Inr (c, pollers s l, [])" by (auto simp: closed_connection_inert)
  with sr_owner show ?case by (auto simp: serves_nobody_def)
next
  case (sr_set s k s' cb)
  then show ?case by (auto simp: serves_nobody_def server_setConnectionCallback_def server_setMessageCallback_def
        server_setWriteCompleteCallback_def setThreadInitCallback_def)
next
  case (sr_stop s k joins ret s' told)
  then show ?case using TcpServer_stop_serves_nobody [of k0 s joins] by auto
qed

section \<open>Properties\<close>

text \<open>C3. In every state a server reaches, however its operations are ordered, its map of connections is
  empty, every connection it made is closed, and no \<open>poll\<close> of any loop, whatever the kernel
  reports, delivers an event to a channel. So \<open>stop\<close>, which resets each pointer of the map before it
  uses its copy, and the destructor are always defined; they return exactly if the server is not
  started or every thread of its pool can be joined, and only then does it count as stopped.\<close>

theorem server_serves_nobody:
  assumes "server_reach sys ctl binds rmcb k0 s k"
  shows "m_connections s = [] \<and> (\<forall>conn c. conn_store s conn = Some c \<longrightarrow> c_state c = DisConnected) \<and>
    (\<forall>l r now t active e p'. KaPoller_poll r now (pollers s l) = Inr (t, active, e, p') \<longrightarrow> active = []) \<and>
    (\<forall>joins. \<exists>ret s' told. TcpServer_stop joins s = Inr (ret, s', told) \<and> TcpServer_delete joins s = Inr (ret, told) \<and>
       m_serverStarted s' = (if ret then 0 else m_serverStarted s) \<and>
       (ret \<longleftrightarrow> m_serverStarted s = 0 \<or> (\<forall>i < length (m_threads (the (m_eventLoopThreadPool s))). joins i)))"
proof -
  have inv: "serves_nobody k0 s" using assms by (rule server_reach_serves_nobody)
  have "\<exists>ret s' told. TcpServer_stop joins s = Inr (ret, s', told) \<and> TcpServer_delete joins s = Inr (ret, told) \<and>
      m_serverStarted s' = (if ret then 0 else m_serverStarted s) \<and>
      (ret \<longleftrightarrow> m_serverStarted s = 0 \<or> (\<forall>i < length (m_threads (the (m_eventLoopThreadPool s))). joins i))" for joins
    using TcpServer_stop_serves_nobody [OF inv, of joins] by (auto simp: TcpServer_delete_def)
  moreover have "active = []" if "KaPoller_poll r now (pollers s l) = Inr (t, active, e, p')" for l r now t active e p'
    using unregistered_poll that inv unfolding serves_nobody_def by metis
  ultimately show ?thesis using inv unfolding serves_nobody_def by blast
qed

theorem server_serves_nobody_witness:
  "\<exists>(s :: (fd \<Rightarrow> epoll_event option, nat) TcpServer) k c.
     server_reach quiet_system map_ctl \<lparr>bind_read = id, bind_write = id, bind_close = id, bind_error = id\<rparr> 9
       (\<lambda>l. Map.empty) s k \<and>
     m_serverStarted s = 1 \<and> m_nextConnId s = 2 \<and> conn_store s 20 = Some c \<and>
     c_state c = DisConnected \<and> m_connections s = []"
proof -
  let ?ps = "\<lambda>l :: nat. KaPoller_new l Map.empty Map.empty :: (fd \<Rightarrow> epoll_event option, nat) KaPoller"
  let ?b = "\<lparr>bind_read = id, bind_write = id, bind_close = id, bind_error = id\<rparr> :: nat conn_binds"
  let ?pool = "fst (EventLoopThreadPool_start False id (EventLoopThreadPool_init (Some 5) 1 EventLoopThreadPool_new))"
  have un: "unregistered Map.empty (?ps l)" for l by (simp add: unregistered_def KaPoller_new_def)
  obtain s k where n: "TcpServer_new quiet_system 1 2 3 4 7 5 zero_addr ''im'' ?ps 0 = (s, k)"
    by (cases "TcpServer_new quiet_system 1 2 3 4 7 5 zero_addr ''im'' ?ps 0")
  note r1 = sr_new [OF pr_new n, where ctl = map_ctl and binds = ?b and rmcb = 9]
  from TcpServer_new_acceptor [OF un n] obtain ch where s: "m_serverStarted s = 0" "s_loop s = 5"
    "unregistered Map.empty (pollers s (s_loop s))" "chans (pollers s (s_loop s)) (m_acceptChannel (m_acceptor s)) = Some ch"
    "m_connectionCallback s = Some 3" "m_nextConnId s = 1" by auto
  from TcpServer_start_returns [OF s(1,3,4), of quiet_system map_ctl id 1 k] obtain a p k' where
    st: "TcpServer_start quiet_system map_ctl id 1 s k = Inr (s\<lparr>m_eventLoopThreadPool := Some ?pool,
       m_acceptor := a, m_serverStarted := 1, pollers := (pollers s)(s_loop s := p)\<rparr>, k')" "unregistered Map.empty p"
    by (auto simp: s(2))
  let ?s = "s\<lparr>m_eventLoopThreadPool := Some ?pool, m_acceptor := a, m_serverStarted := 1, pollers := (pollers s)(s_loop s := p)\<rparr>"
  note r2 = sr_start [OF r1 st(1)]
  have un0: "unregistered Map.empty (pollers ?s 0)"
    using server_reach_serves_nobody [OF r2] unfolding serves_nobody_def by blast
  obtain pool where pool: "getNextLoop ?pool = Inr (Some 0, pool)"
    by (simp add: getNextLoop_def EventLoopThreadPool_start_def EventLoopThreadPool_init_def EventLoopThreadPool_new_def Let_def)
  from newConnection_closed [OF _ pool un0 _ _ refl, of 3 map_ctl ?b 9 20 21 zero_addr 12 zero_addr] s
  obtain s' evs c where c: "newConnection map_ctl ?b 9 20 21 zero_addr 12 zero_addr ?s = Inr (s', evs)"
    "m_serverStarted s' = 1" "m_nextConnId s' = 2" "conn_store s' 20 = Some c" by auto
  from server_serves_nobody [OF sr_connection [OF r2 c(1)]] sr_connection [OF r2 c(1)] c show ?thesis by blast
qed

end
