(* ===== verification/ZlibUtil.thy ===== *)
theory ZlibUtil
  imports Prelude
begin

text \<open>
  \<open>src/Util/KaZlibUtil.h\<close> and \<open>KaZlibUtil.cpp\<close>: compression of byte strings with zlib. The library is
  a parameter, the three functions the code calls; \<open>compress\<close> and \<open>uncompress\<close> take the source and
  the size of the destination and give the return code and the bytes written.
\<close>

definition Z_OK :: int where "Z_OK = 0"

definition MAX_COMPRESS_BUF_SIZE :: nat where
  "MAX_COMPRESS_BUF_SIZE = 10 * 1024 * 1024"

record zlib =
  z_bound :: "nat \<Rightarrow> nat"
  z_compress :: "byte list \<Rightarrow> nat \<Rightarrow> int \<times> byte list"
  z_uncompress :: "byte list \<Rightarrow> nat \<Rightarrow> int \<times> byte list"

text \<open>The first overload. \<open>src\<close> and \<open>dest\<close> are null or the memory they point to; \<open>nDest\<close> is the
  caller's length variable, which the function overwrites before it uses it. Writing past the
  caller's memory is undefined.\<close>

definition compressBuf_mem :: "zlib \<Rightarrow> byte list option \<Rightarrow> nat \<Rightarrow> byte list option \<Rightarrow> nat \<Rightarrow>
    cxx_error + (bool \<times> byte list option \<times> nat)" where
  "compressBuf_mem z src nSrcBufLength dest nDest =
     (case (src, dest) of
        (Some s, Some d) \<Rightarrow>
          if nSrcBufLength > MAX_COMPRESS_BUF_SIZE \<or> nSrcBufLength = 0 then Inr (False, dest, nDest)
          else if length s < nSrcBufLength then Inl Undefined_Behaviour
          else
            (let bound = z_bound z nSrcBufLength;
                 (ret, out) = z_compress z (take nSrcBufLength s) bound in
             if length d < length out then Inl Undefined_Behaviour
             else if ret \<noteq> Z_OK then Inr (False, Some (splice_at 0 out d), length out)
             else Inr (True, Some (splice_at 0 out d), length out))
      | _ \<Rightarrow> Inr (False, dest, nDest))"

text \<open>The string overload. Its length is an \<open>int\<close>; for \<open>compressBound\<close> it is converted to the unsigned long
  of 64 bits. The \<open>int\<close> with the size of the destination is then passed as a pointer to an unsigned long:
  \<open>compress\<close> reads and writes four bytes behind it, so a call that gets that far is undefined.\<close>

definition compressBuf :: "zlib \<Rightarrow> byte list \<Rightarrow> byte list \<Rightarrow> cxx_error + (bool \<times> byte list)" where
  "compressBuf z strSrcBuf strDestBuf =
     (if strSrcBuf = [] then Inr (False, strDestBuf)
      else
        (let nSrcLength = word_of_nat (length strSrcBuf) :: u32 in
         if sint nSrcLength > int MAX_COMPRESS_BUF_SIZE then Inr (False, strDestBuf)
         else
           (let nDestBuflength = word_of_nat (z_bound z (unat (scast nSrcLength :: u64))) :: u32 in
            if sint nDestBuflength \<le> 0 then Inr (False, strDestBuf)
            else Inl Undefined_Behaviour)))"

definition uncompressBuf :: "zlib \<Rightarrow> byte list \<Rightarrow> byte list \<Rightarrow> nat \<Rightarrow> cxx_error + (bool \<times> byte list)" where
  "uncompressBuf z strSrcBuf strDestBuf nDestBufLength =
     (let (ret, out) = z_uncompress z strSrcBuf nDestBufLength in
      if nDestBufLength < length out then Inl Undefined_Behaviour
      else if ret \<noteq> Z_OK then Inr (False, strDestBuf)
      else Inr (True, strDestBuf @ out))"

section \<open>What zlib promises\<close>

text \<open>With a destination of at least \<open>compressBound\<close> bytes \<open>compress\<close> succeeds within the bound, and
  \<open>uncompress\<close> into enough room gives the data back; neither writes more than it was offered. The
  bound of the sizes the code accepts is positive and fits an \<open>int\<close>.\<close>

definition zlib_contract :: "zlib \<Rightarrow> bool" where
  "zlib_contract z \<longleftrightarrow>
     (\<forall>src cap. length (snd (z_compress z src cap)) \<le> cap \<and> length (snd (z_uncompress z src cap)) \<le> cap) \<and>
     (\<forall>src cap. z_bound z (length src) \<le> cap \<longrightarrow>
        fst (z_compress z src cap) = Z_OK \<and> length (snd (z_compress z src cap)) \<le> z_bound z (length src) \<and>
        (\<forall>cap'. length src \<le> cap' \<longrightarrow> z_uncompress z (snd (z_compress z src cap)) cap' = (Z_OK, src))) \<and>
     (\<forall>n. 0 < n \<and> n \<le> MAX_COMPRESS_BUF_SIZE \<longrightarrow> 0 < z_bound z n \<and> z_bound z n < 2 ^ 31)"

lemma compressBuf_undefined:
  assumes z: "zlib_contract z" and s: "s \<noteq> []" "length s \<le> MAX_COMPRESS_BUF_SIZE"
  shows "compressBuf z s d = Inl Undefined_Behaviour"
proof -
  have n: "sint (word_of_nat (length s) :: u32) = int (length s)"
    using s(2) by (simp add: signed_of_nat signed_take_bit_int_eq_self MAX_COMPRESS_BUF_SIZE_def)
  then have "(scast (word_of_nat (length s) :: u32) :: u64) = word_of_int (int (length s))"
    by (metis scast_eq)
  then have u: "unat (scast (word_of_nat (length s) :: u32) :: u64) = length s"
    using s(2) by (simp add: unat_of_nat_small MAX_COMPRESS_BUF_SIZE_def)
  let ?b = "z_bound z (length s)"
  have b: "0 < ?b" "?b < 2 ^ 31" using z s by (simp_all add: zlib_contract_def)
  have "sint (word_of_nat ?b :: u32) = int ?b"
    using b by (simp add: signed_of_nat signed_take_bit_int_eq_self)
  then show ?thesis using s b n u by (simp add: compressBuf_def)
qed

lemma compressBuf_mem_ok:
  assumes z: "zlib_contract z" and s: "s \<noteq> []" "length s \<le> MAX_COMPRESS_BUF_SIZE" and m: "z_bound z (length s) \<le> length m"
  shows "\<exists>out. compressBuf_mem z (Some s) (length s) (Some m) n = Inr (True, Some (out @ drop (length out) m), length out) \<and>
    length out \<le> z_bound z (length s) \<and> (\<forall>cap. length s \<le> cap \<longrightarrow> z_uncompress z out cap = (Z_OK, s))"
proof -
  let ?b = "z_bound z (length s)"
  have c: "fst (z_compress z s ?b) = Z_OK" "length (snd (z_compress z s ?b)) \<le> ?b"
    "\<forall>cap. length s \<le> cap \<longrightarrow> z_uncompress z (snd (z_compress z s ?b)) cap = (Z_OK, s)"
    using z unfolding zlib_contract_def by blast+
  obtain out where out: "z_compress z s ?b = (Z_OK, out)" using c(1) by (cases "z_compress z s ?b") auto
  then have "compressBuf_mem z (Some s) (length s) (Some m) n = Inr (True, Some (out @ drop (length out) m), length out)"
    using s c(2) m by (simp add: compressBuf_mem_def Let_def splice_at_def)
  with c out show ?thesis by auto
qed

section \<open>Properties\<close>


text \<open>A library that stores its data behind one byte.\<close>

definition store_zlib :: zlib where
  "store_zlib = \<lparr>z_bound = Suc, z_compress = (\<lambda>s cap. if length s < cap then (0, 7 # s) else (-5, [])),
     z_uncompress = (\<lambda>s cap. case s of [] \<Rightarrow> (-5, []) | _ # t \<Rightarrow> if length t \<le> cap then (0, t) else (-5, []))\<rparr>"

lemma store_zlib_contract: "zlib_contract store_zlib"
  by (auto simp: zlib_contract_def store_zlib_def Z_OK_def MAX_COMPRESS_BUF_SIZE_def split: list.split)


end
