(* ===== verification/ChatSessions.thy ===== *)
theory ChatSessions
  imports Connections ZlibUtil Codec
begin

text \<open>
  \<open>src/ChatServer/ChatSession.h\<close>, \<open>ChatSession.cpp\<close>, \<open>src/MsgDefine/MsgDefine.h\<close> and
  \<open>src/Net/TcpSessin.h\<close>: the session of a chat client, which cuts packets out of the input buffer.
  A packet is a packed header of 20 bytes and a body. \<open>OnRead\<close> loops until the buffer has no
  complete packet; the model runs it with fuel, and \<open>None\<close> means that the fuel was used up.
\<close>

section \<open>The header\<close>

datatype COMPRESS_FLAG = UNCOMPRESSED | COMPRESSED

definition flag_value :: "COMPRESS_FLAG \<Rightarrow> u32" where
  "flag_value f = (case f of UNCOMPRESSED \<Rightarrow> 0 | COMPRESSED \<Rightarrow> 1)"

datatype MainCMD = SID_LOGIN | SID_BUDDY_LIST | SID_MSG | SID_GROUP | SID_FILE | SID_SWITCH_SERVICE
  | SID_OTHER | SID_INTERNAL

definition MainCMD_value :: "MainCMD \<Rightarrow> u32" where
  "MainCMD_value c =
     (case c of SID_LOGIN \<Rightarrow> 1 | SID_BUDDY_LIST \<Rightarrow> 2 | SID_MSG \<Rightarrow> 3 | SID_GROUP \<Rightarrow> 4 | SID_FILE \<Rightarrow> 5
        | SID_SWITCH_SERVICE \<Rightarrow> 6 | SID_OTHER \<Rightarrow> 7 | SID_INTERNAL \<Rightarrow> 8)"

text \<open>The five fields as they come from memory; the enumerations keep their 32-bit values.\<close>

record KaHead_t =
  h_flag :: u32
  h_originSize :: u32
  h_compressSize :: u32
  h_mainCMD :: u32
  h_seq :: u32

definition KaHead_size :: size_t where
  "KaHead_size = 20"

definition head_bytes :: "KaHead_t \<Rightarrow> byte list" where
  "head_bytes h = le_bytes32 (h_flag h) @ le_bytes32 (h_originSize h) @ le_bytes32 (h_compressSize h) @
     le_bytes32 (h_mainCMD h) @ le_bytes32 (h_seq h)"

definition head_of_bytes :: "byte list \<Rightarrow> KaHead_t" where
  "head_of_bytes bs =
     \<lparr>h_flag = le_word32 (take 4 bs), h_originSize = le_word32 (take 4 (drop 4 bs)),
      h_compressSize = le_word32 (take 4 (drop 8 bs)), h_mainCMD = le_word32 (take 4 (drop 12 bs)),
      h_seq = le_word32 (take 4 (drop 16 bs))\<rparr>"

definition parse_head :: "byte list \<Rightarrow> (KaHead_t \<times> byte list) option" where
  "parse_head bs = (if length bs < 20 then None else Some (head_of_bytes (take 20 bs), drop 20 bs))"

lemma length_head_bytes [simp]: "length (head_bytes h) = 20"
  by (simp add: head_bytes_def)

lemma head_of_head_bytes [simp]: "head_of_bytes (head_bytes h) = h"
  by (simp add: head_of_bytes_def head_bytes_def)

interpretation head: prefix_codec head_bytes parse_head
  by unfold_locales (simp add: parse_head_def)

section \<open>The session\<close>

record UserInfo =
  userId :: int
  userName :: string
  password :: string
  status :: int

record ChatSession =
  m_tmpConn :: "nat option"
  cs_id :: int
  m_userInfo :: UserInfo
  m_seq :: int
  m_isLogin :: bool
  m_lastPackageTime :: int

text \<open>\<open>unset\<close> gives the status the constructor leaves uninitialised, \<open>time_null\<close> is \<open>time(NULL)\<close>.\<close>

definition ChatSession_new :: "int \<Rightarrow> nat \<Rightarrow> int \<Rightarrow> int \<Rightarrow> ChatSession" where
  "ChatSession_new unset conn sessionId time_null =
     \<lparr>m_tmpConn = Some conn, cs_id = sessionId,
      m_userInfo = \<lparr>userId = 0, userName = '''', password = '''', status = unset\<rparr>,
      m_seq = 0, m_isLogin = False, m_lastPackageTime = time_null\<rparr>"

definition getSessionId :: "ChatSession \<Rightarrow> int" where
  "getSessionId s = cs_id s"

definition getUserId :: "ChatSession \<Rightarrow> int" where
  "getUserId s = userId (m_userInfo s)"

definition getUsername :: "ChatSession \<Rightarrow> string" where
  "getUsername s = userName (m_userInfo s)"

definition getPassword :: "ChatSession \<Rightarrow> string" where
  "getPassword s = password (m_userInfo s)"

text \<open>\<open>GetConnectionPtr\<close>: null once the connection is gone.\<close>

definition GetConnectionPtr :: "(nat \<Rightarrow> bool) \<Rightarrow> ChatSession \<Rightarrow> nat option" where
  "GetConnectionPtr alive s =
     (case m_tmpConn s of None \<Rightarrow> None | Some c \<Rightarrow> if alive c then Some c else None)"

text \<open>\<open>process\<close> has an empty body and no return value.\<close>

definition ChatSession_process :: "byte list \<Rightarrow> cxx_error + bool" where
  "ChatSession_process buf = Inl Undefined_Behaviour"

definition MAX_PACKAGESIZE :: int where
  "MAX_PACKAGESIZE = 10 * 1024 * 1024"

datatype outcome = Return | Force_Close | Again

text \<open>One turn of the loop of \<open>OnRead\<close>: what it does next, the message handed to \<open>process\<close> if any,
  and the session and buffer after it. \<open>proc\<close> stands for \<open>process\<close>.\<close>

definition deliver :: "(byte list \<Rightarrow> cxx_error + bool) \<Rightarrow> int \<Rightarrow> byte list \<Rightarrow> ChatSession \<Rightarrow> Buffer \<Rightarrow>
    cxx_error + (outcome \<times> byte list list \<times> ChatSession \<times> Buffer)" where
  "deliver proc time_null msg s buf =
     bind_r (proc msg) (\<lambda>ok.
       if ok then Inr (Again, [msg], s\<lparr>m_lastPackageTime := time_null\<rparr>, buf)
       else Inr (Force_Close, [msg], s, buf))"

definition take_packet :: "Buffer \<Rightarrow> u32 \<Rightarrow> cxx_error + (byte list \<times> Buffer)" where
  "take_packet buf n =
     (let buf1 = snd (retrieve buf KaHead_size) in
      bind_r (string_of_range buf1 (peek buf1) (scast n)) (\<lambda>inBuf.
        Inr (inBuf, snd (retrieve buf1 (scast n)))))"

definition OnRead_turn :: "zlib \<Rightarrow> (byte list \<Rightarrow> cxx_error + bool) \<Rightarrow> int \<Rightarrow> ChatSession \<Rightarrow> Buffer \<Rightarrow>
    cxx_error + (outcome \<times> byte list list \<times> ChatSession \<times> Buffer)" where
  "OnRead_turn z proc time_null s buf =
     (if readableBytes buf < KaHead_size then Inr (Return, [], s, buf)
      else
        bind_r (read_range buf (peek buf) KaHead_size) (\<lambda>hb.
          (let head = head_of_bytes hb; orig = sint (h_originSize head); comp = sint (h_compressSize head) in
           if h_flag head = flag_value COMPRESSED then
             (if comp \<le> 0 \<or> comp > MAX_PACKAGESIZE \<or> orig \<le> 0 \<or> orig > MAX_PACKAGESIZE
              then Inr (Force_Close, [], s, buf)
              else if readableBytes buf < scast (h_compressSize head) + KaHead_size then Inr (Return, [], s, buf)
              else
                bind_r (take_packet buf (h_compressSize head)) (\<lambda>(inBuf, buf1).
                bind_r (uncompressBuf z inBuf [] (nat orig)) (\<lambda>(ok, destBuf).
                  if \<not> ok then Inr (Force_Close, [], s, buf1)
                  else deliver proc time_null destBuf s buf1)))
           else
             (if orig \<le> 0 \<or> orig > MAX_PACKAGESIZE then Inr (Force_Close, [], s, buf)
              else if readableBytes buf < scast (h_originSize head) + KaHead_size then Inr (Return, [], s, buf)
              else
                bind_r (take_packet buf (h_originSize head)) (\<lambda>(inBuf, buf1).
                  deliver proc time_null inBuf s buf1)))))"

text \<open>\<open>OnRead\<close> with its fuel: the messages processed, the session and the buffer after it, and the
  connection, which a forced close goes through.\<close>

fun OnRead :: "'k epoll_ctl \<Rightarrow> zlib \<Rightarrow> (byte list \<Rightarrow> cxx_error + bool) \<Rightarrow> int \<Rightarrow> nat \<Rightarrow> ChatSession \<Rightarrow> Buffer \<Rightarrow>
    'cb TcpConnection \<Rightarrow> ('k, 'cb) KaPoller \<Rightarrow>
    (cxx_error + (byte list list \<times> ChatSession \<times> Buffer \<times> 'cb TcpConnection \<times> ('k, 'cb) KaPoller \<times> 'cb conn_event list)) option" where
  "OnRead ctl z proc time_null 0 s buf c p = None"
| "OnRead ctl z proc time_null (Suc fuel) s buf c p =
     (case OnRead_turn z proc time_null s buf of
        Inl e \<Rightarrow> Some (Inl e)
      | Inr (Return, msgs, s1, buf1) \<Rightarrow> Some (Inr (msgs, s1, buf1, c, p, []))
      | Inr (Force_Close, msgs, s1, buf1) \<Rightarrow>
          Some (bind_r (forceClose ctl c p) (\<lambda>(c1, p1, ev). Inr (msgs, s1, buf1, c1, p1, ev)))
      | Inr (Again, msgs, s1, buf1) \<Rightarrow>
          map_option (\<lambda>r. bind_r r (\<lambda>(msgs', rest). Inr (msgs @ msgs', rest)))
            (OnRead ctl z proc time_null fuel s1 buf1 c p))"

section \<open>Lemmas\<close>

lemma read_head:
  assumes "Buffer_inv buf" and "content buf = head_bytes h @ rest"
  shows "read_range buf (peek buf) KaHead_size = Inr (head_bytes h)" and "\<not> readableBytes buf < KaHead_size"
proof -
  have "length (content buf) = 20 + length rest" using assms(2) by simp
  then have n: "20 \<le> unat (readableBytes buf)" using assms(1) by (simp add: length_content)
  then show "\<not> readableBytes buf < KaHead_size" by (simp add: KaHead_size_def word_less_nat_alt)
  show "read_range buf (peek buf) KaHead_size = Inr (head_bytes h)"
    using read_range_content [OF assms(1), of KaHead_size] n assms(2) by (simp add: KaHead_size_def)
qed

text \<open>A positive size of at most 10 MB is the same number in every width.\<close>

lemma package_size:
  assumes "0 < sint (n :: u32)" and "sint n \<le> MAX_PACKAGESIZE"
  shows "unat (scast n :: size_t) = nat (sint n)" and "unat (scast n + KaHead_size) = nat (sint n) + 20"
proof -
  have "uint (scast n :: size_t) = take_bit 64 (sint n)"
    unfolding scast_eq by (simp only: uint_word_of_int_eq) simp
  also have "\<dots> = sint n" using assms by (simp add: take_bit_int_eq_self MAX_PACKAGESIZE_def)
  finally have "uint (scast n :: size_t) = sint n" .
  then show 1: "unat (scast n :: size_t) = nat (sint n)" by (metis unat_eq_nat_uint)
  then show "unat (scast n + KaHead_size) = nat (sint n) + 20"
    using assms by (simp add: unat_add_small KaHead_size_def MAX_PACKAGESIZE_def)
qed

text \<open>With a complete packet in the buffer neither \<open>retrieve\<close> takes anything: the message is the
  front of the buffer, header included, and the buffer stays as it is.\<close>

lemma take_packet_keeps:
  assumes inv: "Buffer_inv buf" and n: "0 < sint n" "sint n \<le> MAX_PACKAGESIZE"
    and complete: "nat (sint n) + 20 \<le> length (content buf)"
  shows "take_packet buf n = Inr (take (nat (sint n)) (content buf), buf)"
proof -
  have "retrieve buf KaHead_size = (False, buf)"
    using complete n inv by (simp add: retrieve_cases length_content word_less_nat_alt KaHead_size_def)
  moreover have "retrieve buf (scast n) = (False, buf)"
    using complete n inv package_size [OF n] by (simp add: retrieve_cases length_content word_less_nat_alt)
  moreover have "string_of_range buf (peek buf) (scast n) = Inr (take (nat (sint n)) (content buf))"
    using string_of_range_content [OF inv, of "scast n"] package_size [OF n] complete inv
    by (simp add: length_content)
  ultimately show ?thesis by (simp add: take_packet_def)
qed

lemma turn_uncompressed:
  assumes inv: "Buffer_inv buf" and content: "content buf = head_bytes h @ rest"
    and plain: "h_flag h \<noteq> flag_value COMPRESSED"
  shows "OnRead_turn z proc now s buf =
    (if sint (h_originSize h) \<le> 0 \<or> sint (h_originSize h) > MAX_PACKAGESIZE then Inr (Force_Close, [], s, buf)
     else if length rest < nat (sint (h_originSize h)) then Inr (Return, [], s, buf)
     else deliver proc now (take (nat (sint (h_originSize h))) (head_bytes h @ rest)) s buf)"
proof (cases "sint (h_originSize h) \<le> 0 \<or> sint (h_originSize h) > MAX_PACKAGESIZE")
  case True
  with read_head [OF inv content] plain show ?thesis by (auto simp: OnRead_turn_def Let_def)
next
  case False
  then have n: "0 < sint (h_originSize h)" "sint (h_originSize h) \<le> MAX_PACKAGESIZE" by simp_all
  have len: "length (content buf) = 20 + length rest" using content by simp
  have short: "readableBytes buf < scast (h_originSize h) + KaHead_size \<longleftrightarrow>
      length rest < nat (sint (h_originSize h))"
    using package_size [OF n] len inv by (auto simp: length_content word_less_nat_alt)
  show ?thesis
  proof (cases "length rest < nat (sint (h_originSize h))")
    case True
    with False short read_head [OF inv content] plain show ?thesis by (simp add: OnRead_turn_def Let_def)
  next
    case complete: False
    then have "take_packet buf (h_originSize h) = Inr (take (nat (sint (h_originSize h))) (content buf), buf)"
      using len by (intro take_packet_keeps [OF inv n]) simp
    with False complete short read_head [OF inv content] plain show ?thesis
      by (simp add: OnRead_turn_def Let_def content)
  qed
qed

lemma turn_compressed:
  assumes inv: "Buffer_inv buf" and content: "content buf = head_bytes h @ rest"
    and packed: "h_flag h = flag_value COMPRESSED"
  shows "OnRead_turn z proc now s buf =
    (if sint (h_compressSize h) \<le> 0 \<or> sint (h_compressSize h) > MAX_PACKAGESIZE \<or>
        sint (h_originSize h) \<le> 0 \<or> sint (h_originSize h) > MAX_PACKAGESIZE then Inr (Force_Close, [], s, buf)
     else if length rest < nat (sint (h_compressSize h)) then Inr (Return, [], s, buf)
     else bind_r (uncompressBuf z (take (nat (sint (h_compressSize h))) (head_bytes h @ rest)) []
         (nat (sint (h_originSize h)))) (\<lambda>(ok, destBuf).
       if \<not> ok then Inr (Force_Close, [], s, buf) else deliver proc now destBuf s buf))"
proof (cases "sint (h_compressSize h) \<le> 0 \<or> sint (h_compressSize h) > MAX_PACKAGESIZE \<or>
    sint (h_originSize h) \<le> 0 \<or> sint (h_originSize h) > MAX_PACKAGESIZE")
  case True
  with read_head [OF inv content] packed show ?thesis by (auto simp: OnRead_turn_def Let_def)
next
  case False
  then have n: "0 < sint (h_compressSize h)" "sint (h_compressSize h) \<le> MAX_PACKAGESIZE" by simp_all
  have len: "length (content buf) = 20 + length rest" using content by simp
  have short: "readableBytes buf < scast (h_compressSize h) + KaHead_size \<longleftrightarrow>
      length rest < nat (sint (h_compressSize h))"
    using package_size [OF n] len inv by (auto simp: length_content word_less_nat_alt)
  show ?thesis
  proof (cases "length rest < nat (sint (h_compressSize h))")
    case True
    with False short read_head [OF inv content] packed show ?thesis by (simp add: OnRead_turn_def Let_def)
  next
    case complete: False
    then have "take_packet buf (h_compressSize h) = Inr (take (nat (sint (h_compressSize h))) (content buf), buf)"
      using len by (intro take_packet_keeps [OF inv n]) simp
    with False complete short read_head [OF inv content] packed show ?thesis
      by (simp add: OnRead_turn_def Let_def content)
  qed
qed

definition head_size :: "KaHead_t \<Rightarrow> int" where
  "head_size h = (if h_flag h = flag_value COMPRESSED then sint (h_compressSize h) else sint (h_originSize h))"

definition head_legal :: "KaHead_t \<Rightarrow> bool" where
  "head_legal h \<longleftrightarrow> 0 < sint (h_originSize h) \<and> sint (h_originSize h) \<le> MAX_PACKAGESIZE \<and>
     0 < head_size h \<and> head_size h \<le> MAX_PACKAGESIZE"

lemma turn_guards:
  assumes "Buffer_inv buf" and "content buf = head_bytes h @ rest"
  shows "\<not> head_legal h \<Longrightarrow> OnRead_turn z proc now s buf = Inr (Force_Close, [], s, buf)"
    and "head_legal h \<Longrightarrow> int (length rest) < head_size h \<Longrightarrow>
      OnRead_turn z proc now s buf = Inr (Return, [], s, buf)"
  using turn_compressed [OF assms] turn_uncompressed [OF assms]
  by (cases "h_flag h = flag_value COMPRESSED"; auto simp: head_legal_def head_size_def)+

text \<open>What the code hands to \<open>process\<close> for a complete packet at the front of \<open>bs\<close>: as many of these bytes as
  the header gives the body, inflated if the packet is compressed; \<open>None\<close> when that fails.\<close>

definition packet_message :: "zlib \<Rightarrow> KaHead_t \<Rightarrow> byte list \<Rightarrow> cxx_error + byte list option" where
  "packet_message z h bs =
     (if h_flag h = flag_value COMPRESSED then
        bind_r (uncompressBuf z (take (nat (head_size h)) bs) [] (nat (sint (h_originSize h))))
          (\<lambda>(ok, destBuf). Inr (if ok then Some destBuf else None))
      else Inr (Some (take (nat (head_size h)) bs)))"

lemma turn_repeats:
  assumes "Buffer_inv buf" and "content buf = head_bytes h @ rest"
    and "head_legal h" and "head_size h \<le> int (length rest)"
  shows "OnRead_turn z proc now s buf =
    bind_r (packet_message z h (head_bytes h @ rest)) (\<lambda>m. case m of
      None \<Rightarrow> Inr (Force_Close, [], s, buf) | Some msg \<Rightarrow> deliver proc now msg s buf)"
proof (cases "h_flag h = flag_value COMPRESSED")
  case True
  then have "\<not> (sint (h_compressSize h) \<le> 0 \<or> sint (h_compressSize h) > MAX_PACKAGESIZE \<or>
      sint (h_originSize h) \<le> 0 \<or> sint (h_originSize h) > MAX_PACKAGESIZE)" "\<not> length rest < nat (sint (h_compressSize h))"
    using assms(3,4) by (auto simp: head_legal_def head_size_def)
  with turn_compressed [OF assms(1,2) True] True show ?thesis
    by (auto simp: packet_message_def head_size_def bind_r_def split: sum.split)
next
  case False
  with turn_uncompressed [OF assms(1,2) False] assms(3,4) show ?thesis
    by (auto simp: packet_message_def head_legal_def head_size_def)
qed

lemma OnRead_repeats:
  assumes "Buffer_inv buf" and "content buf = head_bytes h @ rest"
    and "head_legal h" and "head_size h \<le> int (length rest)"
  shows "packet_message z h (head_bytes h @ rest) = Inr (Some msg) \<Longrightarrow> proc msg = Inr True \<Longrightarrow>
      OnRead ctl z proc now fuel s buf c p = None"
    and "OnRead ctl z proc now fuel s buf c p = Some (Inr (msgs, s', buf', r)) \<Longrightarrow> buf' = buf \<and>
      (\<exists>c1 p1 ev. forceClose ctl c p = Inr (c1, p1, ev) \<and> r = (c1, p1, ev))"
proof -
  note turn = turn_repeats [OF assms, of z proc now]
  show "OnRead ctl z proc now fuel s buf c p = None"
    if "packet_message z h (head_bytes h @ rest) = Inr (Some msg)" "proc msg = Inr True"
    using that by (induction fuel arbitrary: s) (simp_all add: turn deliver_def)
  show "buf' = buf \<and> (\<exists>c1 p1 ev. forceClose ctl c p = Inr (c1, p1, ev) \<and> r = (c1, p1, ev))"
    if "OnRead ctl z proc now fuel s buf c p = Some (Inr (msgs, s', buf', r))"
    using that
  proof (induction fuel arbitrary: s msgs s' buf' r)
    case (Suc fuel)
    show ?case
    proof (cases "OnRead_turn z proc now s buf")
      case (Inr t)
      then obtain out ms s1 where t: "t = (out, ms, s1, buf)" "out \<noteq> Return"
        unfolding turn by (auto simp: bind_r_eq_Inr deliver_def split: option.splits if_splits)
      show ?thesis
      proof (cases out)
        case Again
        with Suc Inr t show ?thesis by (cases "OnRead ctl z proc now fuel s1 buf c p") (auto simp: bind_r_eq_Inr)
      qed (use Suc.prems Inr t in \<open>auto simp: bind_r_eq_Inr\<close>)
    qed (use Suc.prems in simp)
  qed simp
qed

section \<open>Properties\<close>

text \<open>What a client sends before it has sent a whole packet, and a header with illegal sizes, never
  reach \<open>process\<close>: with less than a header, or a legal header and a shorter body than it
  announces, \<open>OnRead\<close> returns and leaves everything as it is; with a size that is not positive or
  above 10 MB it forces the connection closed, consuming nothing.\<close>

theorem OnRead_guards:
  assumes "Buffer_inv buf"
  shows "(length (content buf) < 20 \<longrightarrow>
      OnRead ctl z proc now (Suc fuel) s buf c p = Some (Inr ([], s, buf, c, p, []))) \<and>
    (\<forall>h rest. content buf = head_bytes h @ rest \<and> \<not> head_legal h \<longrightarrow>
      OnRead ctl z proc now (Suc fuel) s buf c p =
        Some (bind_r (forceClose ctl c p) (\<lambda>(c1, p1, ev). Inr ([], s, buf, c1, p1, ev)))) \<and>
    (\<forall>h rest. content buf = head_bytes h @ rest \<and> head_legal h \<and> int (length rest) < head_size h \<longrightarrow>
      OnRead ctl z proc now (Suc fuel) s buf c p = Some (Inr ([], s, buf, c, p, [])))"
proof -
  have "OnRead_turn z proc now s buf = Inr (Return, [], s, buf)" if "length (content buf) < 20"
    using that assms by (simp add: OnRead_turn_def length_content word_less_nat_alt KaHead_size_def)
  then show ?thesis using turn_guards [OF assms] by simp
qed

text \<open>C13. A complete packet is never consumed, plain or compressed. The header is never taken off the
  buffer, because \<open>retrieve\<close> refuses to take less than everything: the body is read from the first bytes of the
  header, and the buffer stays as it was, so if \<open>process\<close> accepts the message, \<open>OnRead\<close> handles the same
  packet again without end, and no number of turns lets it return. The only way to return is a forced close,
  which leaves the packet in the buffer. With the repository's own \<open>process\<close>, which returns nothing,
  the first complete packet is undefined behaviour unless it cannot be inflated.\<close>

theorem OnRead_never_finishes:
  assumes "Buffer_inv buf" and "content buf = head_bytes h @ rest"
    and "head_legal h" and "head_size h \<le> int (length rest)"
  shows "(\<forall>msg. packet_message z h (head_bytes h @ rest) = Inr (Some msg) \<and> proc msg = Inr True \<longrightarrow>
      OnRead ctl z proc now fuel s buf c p = None) \<and>
    (\<forall>msgs s' buf' r. OnRead ctl z proc now fuel s buf c p = Some (Inr (msgs, s', buf', r)) \<longrightarrow>
      buf' = buf \<and> forceClose ctl c p = Inr r) \<and>
    OnRead ctl z ChatSession_process now (Suc fuel) s buf c p =
      (case packet_message z h (head_bytes h @ rest) of
         Inr None \<Rightarrow> Some (bind_r (forceClose ctl c p) (\<lambda>(c1, p1, ev). Inr ([], s, buf, c1, p1, ev)))
       | Inr (Some msg) \<Rightarrow> Some (Inl Undefined_Behaviour)
       | Inl e \<Rightarrow> Some (Inl e))"
proof (intro conjI allI impI)
  show "OnRead ctl z proc now fuel s buf c p = None"
    if "packet_message z h (head_bytes h @ rest) = Inr (Some msg) \<and> proc msg = Inr True" for msg
    using OnRead_repeats(1) [OF assms] that by blast
  show "OnRead ctl z ChatSession_process now (Suc fuel) s buf c p =
      (case packet_message z h (head_bytes h @ rest) of
         Inr None \<Rightarrow> Some (bind_r (forceClose ctl c p) (\<lambda>(c1, p1, ev). Inr ([], s, buf, c1, p1, ev)))
       | Inr (Some msg) \<Rightarrow> Some (Inl Undefined_Behaviour)
       | Inl e \<Rightarrow> Some (Inl e))"
    using turn_repeats [OF assms, of z ChatSession_process now s]
    by (auto simp: deliver_def ChatSession_process_def bind_r_def split: sum.split option.split)
qed (use OnRead_repeats(2) [OF assms] in blast)+

definition demo_head :: "u32 \<Rightarrow> KaHead_t" where
  "demo_head n = \<lparr>h_flag = 0, h_originSize = n, h_compressSize = 0, h_mainCMD = 1, h_seq = 1\<rparr>"

definition demo_packet :: "u32 \<Rightarrow> byte list \<Rightarrow> Buffer" where
  "demo_packet n body = \<lparr>m_buffer = replicate 8 0 @ head_bytes (demo_head n) @ body, m_readIndex = 8,
     m_writeIndex = 28 + word_of_nat (length body)\<rparr>"

lemma demo_packet_ok:
  assumes "length body < 100"
  shows "Buffer_inv (demo_packet n body)" and "content (demo_packet n body) = head_bytes (demo_head n) @ body"
proof -
  have w: "unat (28 + word_of_nat (length body) :: size_t) = 28 + length body"
    using assms by (simp add: unat_add_small unat_of_nat_small)
  show "Buffer_inv (demo_packet n body)"
    using w assms by (simp add: Buffer_inv_def demo_packet_def)
  show "content (demo_packet n body) = head_bytes (demo_head n) @ body"
    using w by (simp add: content_def demo_packet_def segment_def)
qed

lemma demo_head_legal: "head_legal (demo_head 2)" "head_size (demo_head 2) = 2" "\<not> head_legal (demo_head 0)"
    "h_flag (demo_head n) \<noteq> flag_value COMPRESSED"
  by (simp_all add: head_legal_def head_size_def demo_head_def flag_value_def MAX_PACKAGESIZE_def)

definition demo_session :: ChatSession where
  "demo_session = ChatSession_new 0 1 1 5"

theorem OnRead_guards_witness:
  "OnRead map_ctl store_zlib (\<lambda>_. Inr True) 5 1 demo_session (demo_packet 2 [65]) (demo_conn Connected) (demo_poller KAdded)
    = Some (Inr ([], demo_session, demo_packet 2 [65], demo_conn Connected, demo_poller KAdded, []))"
proof -
  have "length [65 :: byte] < 100" by simp
  note pk = demo_packet_ok [OF this, of 2]
  show ?thesis
    using OnRead_guards [OF pk(1), of map_ctl store_zlib "\<lambda>_. Inr True" 5 0 demo_session
        "demo_conn Connected" "demo_poller KAdded"] pk(2) demo_head_legal by (auto simp del: OnRead.simps)
qed

theorem OnRead_never_finishes_witness:
  "OnRead map_ctl store_zlib (\<lambda>_. Inr True) 5 1000 demo_session (demo_packet 2 [65, 66]) (demo_conn Connected)
     (demo_poller KAdded) = None"
proof -
  have "length [65, 66 :: byte] < 100" by simp
  note pk = demo_packet_ok [OF this, of 2]
  have "head_size (demo_head 2) \<le> int (length [65, 66 :: byte])" by (simp add: demo_head_legal)
  from OnRead_never_finishes [OF pk demo_head_legal(1) this, where proc = "\<lambda>_. Inr True"
      and ctl = map_ctl and z = store_zlib and now = 5 and fuel = 1000 and s = demo_session
      and c = "demo_conn Connected" and p = "demo_poller KAdded"]
  show ?thesis using demo_head_legal(4) by (auto simp: packet_message_def simp del: OnRead.simps)
qed

end
