(* ===== verification/ConfigReader.thy ===== *)
theory ConfigReader
  imports CLib "HOL-Library.List_Lexorder" "HOL-Library.Char_ord"
begin

text \<open>
  \<open>src/Util/ConfigFileReader.h\<close> and \<open>ConfigFileReader.cpp\<close>: a configuration file of lines
  \<open>key=value\<close> with comments after \<open>#\<close>. A file is its text; the map of the reader is a list of pairs
  in key order, as \<open>std::map\<close> iterates. \<open>m_has_load\<close> is not initialised by the constructor: \<open>None\<close> is
  its indeterminate value.
\<close>

section \<open>The map\<close>

type_synonym config_map = "(string \<times> string) list"

primrec map_insert :: "string \<Rightarrow> string \<Rightarrow> config_map \<Rightarrow> config_map" where
  "map_insert k v [] = [(k, v)]"
| "map_insert k v (e # es) =
     (if k < fst e then (k, v) # e # es else if k = fst e then e # es else e # map_insert k v es)"

definition map_assign :: "string \<Rightarrow> string \<Rightarrow> config_map \<Rightarrow> config_map" where
  "map_assign k v m = map (\<lambda>e. if fst e = k then (k, v) else e) m"

record ConfigFileReader =
  m_has_load :: "bool option"
  m_config_map :: config_map
  m_configfile :: string

section \<open>Parsing a line\<close>

definition blank :: "char \<Rightarrow> bool" where
  "blank c \<longleftrightarrow> c = CHR '' '' \<or> c = CHR 0x09 \<or> c = CHR 0x0D"

text \<open>\<open>TrimSpace\<close>: \<open>stop\<close> tells that the byte before \<open>name\<close> is a zero of the same array. When the name
  has nothing but blanks the backward loop runs past its start: it stops at that zero, or leaves the
  array.\<close>

definition TrimSpace :: "bool \<Rightarrow> string \<Rightarrow> cxx_error + string option" where
  "TrimSpace stop name =
     (if list_all blank name then (if stop then Inr None else Inl Undefined_Behaviour)
      else Inr (Some (dropWhile blank (rev (dropWhile blank (rev name))))))"

definition ParseLine :: "string \<Rightarrow> config_map \<Rightarrow> cxx_error + config_map" where
  "ParseLine line m =
     (if CHR ''='' \<notin> set line then Inr m
      else
        bind_r (TrimSpace False (takeWhile (\<lambda>c. c \<noteq> CHR ''='') line)) (\<lambda>key.
        bind_r (TrimSpace True (drop 1 (dropWhile (\<lambda>c. c \<noteq> CHR ''='') line))) (\<lambda>val.
          Inr (case (key, val) of (Some k, Some v) \<Rightarrow> map_insert k v m | _ \<Rightarrow> m))))"

section \<open>Loading\<close>

text \<open>\<open>fgets\<close> with 256 bytes: at most 255 characters, up to and including a newline.\<close>

definition fgets :: "string \<Rightarrow> (string \<times> string) option" where
  "fgets s =
     (if s = [] then None
      else
        (let l = take 255 (takeWhile (\<lambda>c. c \<noteq> CHR 0x0A) s @ take 1 (dropWhile (\<lambda>c. c \<noteq> CHR 0x0A) s))
         in Some (l, drop (length l) s)))"

lemma fgets_shorter: "fgets s = Some (l, rest) \<Longrightarrow> length rest < length s"
proof -
  assume "fgets s = Some (l, rest)"
  then have l: "l = take 255 (takeWhile (\<lambda>c. c \<noteq> CHR 0x0A) s @ take 1 (dropWhile (\<lambda>c. c \<noteq> CHR 0x0A) s))"
    and rest: "rest = drop (length l) s" and s: "s \<noteq> []"
    by (auto simp: fgets_def Let_def split: if_splits)
  have "takeWhile P s @ take 1 (dropWhile P s) \<noteq> []" for P :: "char \<Rightarrow> bool"
    using s by (cases s) auto
  from this [of "\<lambda>c. c \<noteq> CHR 0x0A"] have "l \<noteq> []" unfolding l take_eq_Nil by simp
  with s show ?thesis by (simp add: rest)
qed

text \<open>The body of the loading loop for one line in the buffer.\<close>

definition load_line :: "string \<Rightarrow> config_map \<Rightarrow> cxx_error + config_map" where
  "load_line chunk m =
     (let buf = c_str chunk in
      if buf = [] then Inl Undefined_Behaviour
      else
        (let buf1 = (if last buf = CHR 0x0A then butlast buf else buf);
             buf2 = takeWhile (\<lambda>c. c \<noteq> CHR ''#'') buf1
         in if buf2 = [] then Inr m else ParseLine buf2 m))"

function load_lines :: "string \<Rightarrow> config_map \<Rightarrow> cxx_error + config_map" where
  "load_lines s m =
     (case fgets s of
        None \<Rightarrow> Inr m
      | Some (chunk, rest) \<Rightarrow> bind_r (load_line chunk m) (\<lambda>m'. load_lines rest m'))"
  by pat_completeness auto
termination
  by (relation "measure (\<lambda>(s, m). length s)") (auto dest: fgets_shorter)

declare load_lines.simps [simp del]

text \<open>\<open>LoadFile\<close>: \<open>file\<close> is the text of the file, \<open>None\<close> when it cannot be opened.\<close>

definition LoadFile :: "string option \<Rightarrow> string \<Rightarrow> ConfigFileReader \<Rightarrow> cxx_error + ConfigFileReader" where
  "LoadFile file fileName r =
     (let r1 = r\<lparr>m_configfile := fileName\<rparr> in
      case file of
        None \<Rightarrow> Inr r1
      | Some s \<Rightarrow> bind_r (load_lines s (m_config_map r1)) (\<lambda>m.
          Inr (r1\<lparr>m_config_map := m, m_has_load := Some True\<rparr>)))"

definition ConfigFileReader_new :: "string option \<Rightarrow> string \<Rightarrow> cxx_error + ConfigFileReader" where
  "ConfigFileReader_new file fileName =
     LoadFile file fileName \<lparr>m_has_load = None, m_config_map = [], m_configfile = ''''\<rparr>"

section \<open>Reading and changing values\<close>

definition GetConfigName :: "string \<Rightarrow> ConfigFileReader \<Rightarrow> cxx_error + string option" where
  "GetConfigName name r =
     (case m_has_load r of
        None \<Rightarrow> Inl Undefined_Behaviour
      | Some loaded \<Rightarrow> if \<not> loaded then Inr None else Inr (map_of (m_config_map r) name))"

text \<open>\<open>WriteToFile\<close>: \<open>disk\<close> is \<open>None\<close> when the file cannot be opened and otherwise the number of \<open>fwrite\<close>
  calls that succeed. The result is the return value and the text written.\<close>

definition config_line :: "string \<times> string \<Rightarrow> string" where
  "config_line e = snprintf_buf 128 (c_str (fst e) @ ''='' @ c_str (snd e) @ [CHR 0x0A])"

fun write_entries :: "nat \<Rightarrow> config_map \<Rightarrow> string \<Rightarrow> int \<times> string" where
  "write_entries n [] out = (0, out)"
| "write_entries 0 (e # es) out = (-1, out)"
| "write_entries (Suc n) (e # es) out = write_entries n es (out @ config_line e)"

definition WriteToFile :: "nat option \<Rightarrow> ConfigFileReader \<Rightarrow> int \<times> string option" where
  "WriteToFile disk r =
     (case disk of
        None \<Rightarrow> (-1, None)
      | Some n \<Rightarrow> (let (ret, out) = write_entries n (m_config_map r) [] in (ret, Some out)))"

definition SetConfigValue :: "nat option \<Rightarrow> string \<Rightarrow> string \<Rightarrow> ConfigFileReader \<Rightarrow>
    cxx_error + (int \<times> string option \<times> ConfigFileReader)" where
  "SetConfigValue disk name val r =
     (case m_has_load r of
        None \<Rightarrow> Inl Undefined_Behaviour
      | Some loaded \<Rightarrow>
          if \<not> loaded then Inr (-1, None, r)
          else
            (let r1 = r\<lparr>m_config_map := (if map_of (m_config_map r) name \<noteq> None
                         then map_assign name val (m_config_map r)
                         else map_insert name val (m_config_map r))\<rparr>;
                 (ret, out) = WriteToFile disk r1
             in Inr (ret, out, r1)))"

section \<open>Lemmas\<close>

lemma keys_insert: "fst ` set (map_insert k v m) = insert k (fst ` set m)"
  by (induction m) (auto simp: image_iff)

lemma sorted_insert: "sorted_wrt (<) (map fst m) \<Longrightarrow> sorted_wrt (<) (map fst (map_insert k v m))"
proof (induction m)
  case Nil
  then show ?case by simp
next
  case (Cons e m)
  have "set (map fst (map_insert k v m)) = insert k (set (map fst m))"
    using keys_insert [of k v m] by simp
  with Cons show ?case by auto
qed

lemma map_of_insert: "sorted_wrt (<) (map fst m) \<Longrightarrow>
    map_of (map_insert k v m) = (if map_of m k = None then (map_of m)(k \<mapsto> v) else map_of m)"
proof (induction m)
  case Nil
  then show ?case by auto
next
  case (Cons e m)
  have less: "k < fst e \<Longrightarrow> map_of (e # m) k = None"
    using Cons.prems by (auto simp: map_of_eq_None_iff image_iff)
  from Cons less show ?case by (cases e) (auto simp: fun_eq_iff)
qed

lemma map_of_assign:
  "map_of (map_assign k v m) x = (if x = k \<and> map_of m k \<noteq> None then Some v else map_of m x)"
  by (induction m) (auto simp: map_assign_def)

lemma keys_assign [simp]: "map fst (map_assign k v m) = map fst m"
  by (induction m) (auto simp: map_assign_def)

lemma insert_last: "sorted_wrt (<) (map fst (m @ [(k, v)])) \<Longrightarrow> map_insert k v m = m @ [(k, v)]"
proof (induction m)
  case Nil
  then show ?case by simp
next
  case (Cons e m)
  then have "fst e < k" "sorted_wrt (<) (map fst (m @ [(k, v)]))" by auto
  with Cons.IH show ?case by auto
qed

text \<open>Names and values that survive a line of a file.\<close>

definition clean :: "string \<Rightarrow> bool" where
  "clean s \<longleftrightarrow> s \<noteq> [] \<and> \<not> blank (hd s) \<and> \<not> blank (last s) \<and>
     list_all (\<lambda>c. c \<noteq> CHR ''#'' \<and> c \<noteq> CHR 0x0A \<and> c \<noteq> CHR 0x00) s"

definition clean_entry :: "string \<times> string \<Rightarrow> bool" where
  "clean_entry e \<longleftrightarrow> clean (fst e) \<and> clean (snd e) \<and> CHR ''='' \<notin> set (fst e) \<and>
     length (fst e) + length (snd e) \<le> 125"

lemma TrimSpace_clean: "clean s \<Longrightarrow> TrimSpace stop s = Inr (Some s)"
proof -
  assume c: "clean s"
  then have s: "s \<noteq> []" "\<not> blank (hd s)" "\<not> blank (last s)" by (simp_all add: clean_def)
  then have "\<not> list_all blank s" by (cases s) auto
  moreover have "dropWhile blank (rev s) = rev s"
    using s by (cases "rev s") (auto simp: hd_rev [symmetric])
  moreover have "dropWhile blank s = s" using s by (cases s) auto
  ultimately show ?thesis by (simp add: TrimSpace_def)
qed

lemma ParseLine_clean:
  assumes "clean_entry (k, v)"
  shows "ParseLine (k @ CHR ''='' # v) m = Inr (map_insert k v m)"
proof -
  have k: "CHR ''='' \<notin> set k" using assms by (simp add: clean_entry_def)
  have "takeWhile (\<lambda>c. c \<noteq> CHR ''='') (k @ CHR ''='' # v) = k"
    "dropWhile (\<lambda>c. c \<noteq> CHR ''='') (k @ CHR ''='' # v) = CHR ''='' # v"
    using k by (induction k) auto
  with assms show ?thesis by (simp add: ParseLine_def clean_entry_def TrimSpace_clean)
qed

lemma list_all_takeWhile: "list_all P xs \<Longrightarrow> takeWhile P xs = xs"
  by (simp add: list_all_iff takeWhile_eq_all_conv)

lemma config_line_clean:
  assumes "clean_entry (k, v)"
  shows "config_line (k, v) = k @ CHR ''='' # v @ [CHR 0x0A]"
proof -
  have "c_str k = k" "c_str v = v"
    using assms by (auto simp: c_str_def clean_entry_def clean_def list_all_iff takeWhile_eq_all_conv)
  with assms show ?thesis by (simp add: config_line_def clean_entry_def snprintf_buf_fits)
qed

lemma load_line_plain:
  assumes "list_all (\<lambda>c. c \<noteq> CHR ''#'' \<and> c \<noteq> CHR 0x0A \<and> c \<noteq> CHR 0x00) x" and "x \<noteq> []"
  shows "load_line (x @ [CHR 0x0A]) m = ParseLine x m"
proof -
  have "takeWhile (\<lambda>c. c \<noteq> CHR ''#'') x = x"
    by (rule list_all_takeWhile) (use assms in \<open>auto simp: list_all_iff\<close>)
  moreover have "c_str (x @ [CHR 0x0A]) = x @ [CHR 0x0A]"
    unfolding c_str_def by (rule list_all_takeWhile) (use assms in \<open>auto simp: list_all_iff\<close>)
  ultimately show ?thesis using assms(2) by (simp add: load_line_def Let_def del: takeWhile_eq_all_conv)
qed

lemma load_line_clean:
  assumes "clean_entry (k, v)"
  shows "load_line (k @ CHR ''='' # v @ [CHR 0x0A]) m = Inr (map_insert k v m)"
  using load_line_plain [of "k @ CHR ''='' # v" m] ParseLine_clean [OF assms] assms
  by (simp add: clean_entry_def clean_def)

lemma fgets_plain:
  assumes "CHR 0x0A \<notin> set x" and "length x \<le> 254"
  shows "fgets (x @ CHR 0x0A # rest) = Some (x @ [CHR 0x0A], rest)"
proof -
  have "takeWhile (\<lambda>c. c \<noteq> CHR 0x0A) (x @ CHR 0x0A # rest) = x"
      "dropWhile (\<lambda>c. c \<noteq> CHR 0x0A) (x @ CHR 0x0A # rest) = CHR 0x0A # rest"
    using assms(1) by (induction x) auto
  with assms(2) show ?thesis by (simp add: fgets_def Let_def)
qed

lemma fgets_clean:
  assumes "clean_entry (k, v)"
  shows "fgets (k @ CHR ''='' # v @ CHR 0x0A # rest) = Some (k @ CHR ''='' # v @ [CHR 0x0A], rest)"
  using fgets_plain [of "k @ CHR ''='' # v" rest] assms
  by (auto simp: clean_entry_def clean_def list_all_iff)

lemma load_lines_entries:
  "\<forall>e \<in> set es. clean_entry e \<Longrightarrow> sorted_wrt (<) (map fst (m @ es)) \<Longrightarrow>
   load_lines (concat (map config_line es)) m = Inr (m @ es)"
proof (induction es arbitrary: m)
  case Nil
  then show ?case by (simp add: load_lines.simps fgets_def)
next
  case (Cons e es)
  obtain k v where e: "e = (k, v)" by (cases e)
  have c: "clean_entry (k, v)" using Cons.prems(1) e by simp
  have "sorted_wrt (<) (map fst (m @ [(k, v)]))"
    using Cons.prems(2) e by (auto simp: sorted_wrt_append)
  then have ins: "map_insert k v m = m @ [(k, v)]" by (rule insert_last)
  have "load_lines (concat (map config_line (e # es))) m = load_lines (concat (map config_line es)) (m @ [(k, v)])"
    by (simp add: e config_line_clean [OF c] load_lines.simps [of "_ @ _"] fgets_clean [OF c]
        load_line_clean [OF c] ins)
  also have "\<dots> = Inr (m @ e # es)" using Cons.IH [of "m @ [(k, v)]"] Cons.prems e by simp
  finally show ?case .
qed

lemma write_entries_all: "length es \<le> n \<Longrightarrow> write_entries n es out = (0, out @ concat (map config_line es))"
  by (induction n es out rule: write_entries.induct) auto

section \<open>Properties\<close>

text \<open>C19. Writing a configuration and loading it again gives the same configuration, as long as every
  entry survives a line: names and values without line breaks, comment signs or blanks at their ends,
  names without an equals sign, and a line short enough for the 128-byte buffer.\<close>

theorem config_roundtrip:
  assumes "sorted_wrt (<) (map fst (m_config_map r))" and "\<forall>e \<in> set (m_config_map r). clean_entry e"
    and "length (m_config_map r) \<le> n"
  shows "\<exists>text. WriteToFile (Some n) r = (0, Some text) \<and>
    ConfigFileReader_new (Some text) name =
      Inr \<lparr>m_has_load = Some True, m_config_map = m_config_map r, m_configfile = name\<rparr>"
  using write_entries_all [OF assms(3), of "[]"] load_lines_entries [OF assms(2), of "[]"] assms(1)
  by (simp add: WriteToFile_def ConfigFileReader_new_def LoadFile_def)

text \<open>\<open>SetConfigValue\<close> on a loaded configuration makes the name map to the new value, leaves every
  other name alone, keeps the names in order and each once, and reports -1 when the file cannot be
  opened; the entry is in memory then although it is not on disk.\<close>

theorem SetConfigValue_sets:
  assumes "m_has_load r = Some True" and "sorted_wrt (<) (map fst (m_config_map r))"
  shows "\<exists>ret out r'. SetConfigValue disk k v r = Inr (ret, out, r') \<and>
    map_of (m_config_map r') = (map_of (m_config_map r))(k \<mapsto> v) \<and>
    sorted_wrt (<) (map fst (m_config_map r')) \<and> GetConfigName k r' = Inr (Some v) \<and>
    (disk = None \<longrightarrow> ret = -1 \<and> out = None)"
proof -
  let ?m = "if map_of (m_config_map r) k \<noteq> None then map_assign k v (m_config_map r)
    else map_insert k v (m_config_map r)"
  have "map_of ?m = (map_of (m_config_map r))(k \<mapsto> v)"
    using map_of_insert [OF assms(2), of k v] by (auto simp: map_of_assign fun_eq_iff)
  moreover have "sorted_wrt (<) (map fst ?m)" using sorted_insert [OF assms(2)] assms(2) by simp
  ultimately show ?thesis
    using assms(1) by (auto simp: SetConfigValue_def Let_def GetConfigName_def WriteToFile_def split: prod.split)
qed

text \<open>A line whose name is empty or blank reads before the start of the line buffer: \<open>TrimSpace\<close>
  walks backward from the end of the name without a bound. A blank value is only ignored, because
  the zero that replaced the equals sign stops the walk. Every other line with an equals sign adds
  its trimmed pair unless the name is there already.\<close>

theorem ParseLine_blank_name:
  assumes "line = k @ CHR ''='' # v" and "CHR ''='' \<notin> set k"
  shows "ParseLine line m =
    (if list_all blank k then Inl Undefined_Behaviour
     else if list_all blank v then Inr m
     else Inr (map_insert (dropWhile blank (rev (dropWhile blank (rev k))))
                 (dropWhile blank (rev (dropWhile blank (rev v)))) m))"
proof -
  have "takeWhile (\<lambda>c. c \<noteq> CHR ''='') (k @ CHR ''='' # v) = k"
    "dropWhile (\<lambda>c. c \<noteq> CHR ''='') (k @ CHR ''='' # v) = CHR ''='' # v"
    using assms(2) by (induction k) auto
  then show ?thesis by (simp add: assms(1) ParseLine_def TrimSpace_def)
qed

lemma demo_clean: "clean_entry (''ip'', ''10.0.0.1'')" "clean_entry (''port'', ''3306'')"
  by (simp_all add: clean_entry_def clean_def blank_def)

theorem config_roundtrip_witness:
  "\<exists>text. WriteToFile (Some 5) \<lparr>m_has_load = Some True,
      m_config_map = [(''ip'', ''10.0.0.1''), (''port'', ''3306'')], m_configfile = ''a''\<rparr> = (0, Some text) \<and>
    ConfigFileReader_new (Some text) ''b'' = Inr \<lparr>m_has_load = Some True,
      m_config_map = [(''ip'', ''10.0.0.1''), (''port'', ''3306'')], m_configfile = ''b''\<rparr>"
  using config_roundtrip [of "\<lparr>m_has_load = Some True,
      m_config_map = [(''ip'', ''10.0.0.1''), (''port'', ''3306'')], m_configfile = ''a''\<rparr>" 5 "''b''"] demo_clean
  by (simp add: less_char_def)

theorem SetConfigValue_sets_witness:
  "\<exists>r'. SetConfigValue None ''port'' ''80'' \<lparr>m_has_load = Some True,
      m_config_map = [(''port'', ''3306'')], m_configfile = ''a''\<rparr> = Inr (-1, None, r') \<and> GetConfigName ''port'' r' = Inr (Some ''80'')"
  using SetConfigValue_sets [of "\<lparr>m_has_load = Some True,
      m_config_map = [(''port'', ''3306'')], m_configfile = ''a''\<rparr>" None "''port''" "''80''"] by auto

theorem ParseLine_blank_name_witness:
  "ParseLine '' =3306'' [] = Inl Undefined_Behaviour"
  using ParseLine_blank_name [of "'' =3306''" "'' ''" "''3306''" "[]"] by (simp add: blank_def)

end
