(* ===== verification/LogWriter.thy ===== *)
theory LogWriter
  imports CLib "HOL-Library.Sublist"
begin

text \<open>
  \<open>src/Util/KaLog.h\<close> and \<open>KaLog.cpp\<close>: the logger. Callers format a line and append it to a list
  under a mutex, a writer thread takes lines from the front, prints them and writes them to the
  current log file. The clock, the thread id and what \<open>fwrite\<close> returns are arguments. A log file is
  recorded with what was written to it, in the order the files were opened.
\<close>

section \<open>State\<close>

definition LOG_LEVEL_TRACE :: int where "LOG_LEVEL_TRACE = 0"
definition LOG_LEVEL_DEBUG :: int where "LOG_LEVEL_DEBUG = 1"
definition LOG_LEVEL_INFO :: int where "LOG_LEVEL_INFO = 2"
definition LOG_LEVEL_WARNING :: int where "LOG_LEVEL_WARNING = 3"
definition LOG_LEVEL_ERROR :: int where "LOG_LEVEL_ERROR = 4"
definition LOG_LEVEL_SYSTEM_ERROR :: int where "LOG_LEVEL_SYSTEM_ERROR = 5"
definition LOG_LEVEL_FATAL :: int where "LOG_LEVEL_FATAL = 6"
definition LOG_LEVEL_CRITICAL :: int where "LOG_LEVEL_CRITICAL = 7"

lemmas log_levels = LOG_LEVEL_TRACE_def LOG_LEVEL_DEBUG_def LOG_LEVEL_INFO_def LOG_LEVEL_WARNING_def
  LOG_LEVEL_ERROR_def LOG_LEVEL_SYSTEM_ERROR_def LOG_LEVEL_FATAL_def LOG_LEVEL_CRITICAL_def

definition DEFAULT_ROLL_SIZE :: int where
  "DEFAULT_ROLL_SIZE = 10 * 1024 * 1024"

definition MAX_LINE_LENGTH :: nat where
  "MAX_LINE_LENGTH = 256"

record Ka_Log =
  m_bToFile :: bool
  m_hLogFile :: bool
  m_FileName :: string
  m_FileNamePid :: string
  m_bTrunc :: bool
  m_nCurrentLevel :: int
  m_MaxLogSize :: int
  m_CurrentWrittenSize :: int
  m_listLine :: "string list"
  m_Exit :: bool
  m_Running :: bool
  lg_files :: "(string \<times> string) list"
  lg_console :: "string list"

definition Ka_Log_initial :: Ka_Log where
  "Ka_Log_initial = \<lparr>m_bToFile = True, m_hLogFile = False, m_FileName = '''', m_FileNamePid = '''', m_bTrunc = False,
     m_nCurrentLevel = LOG_LEVEL_INFO, m_MaxLogSize = DEFAULT_ROLL_SIZE, m_CurrentWrittenSize = 0,
     m_listLine = [], m_Exit = False, m_Running = False, lg_files = [], lg_console = []\<rparr>"

text \<open>\<open>init\<close>, without the start of the thread.\<close>

definition Ka_Log_init :: "string option \<Rightarrow> bool \<Rightarrow> int \<Rightarrow> int \<Rightarrow> Ka_Log \<Rightarrow> bool \<times> Ka_Log" where
  "Ka_Log_init LogFileName bTrunc RollSize pid l =
     (True, l\<lparr>m_bTrunc := bTrunc, m_MaxLogSize := RollSize,
       m_FileName := (case LogFileName of None \<Rightarrow> '''' | Some f \<Rightarrow> c_str f),
       m_FileNamePid := snprintf_buf 8 (show_int_pad 5 pid)\<rparr>)"

definition setLevel :: "int \<Rightarrow> Ka_Log \<Rightarrow> Ka_Log" where
  "setLevel nLevel l =
     (if nLevel < LOG_LEVEL_TRACE \<or> nLevel > LOG_LEVEL_FATAL then l else l\<lparr>m_nCurrentLevel := nLevel\<rparr>)"

definition isRunning :: "Ka_Log \<Rightarrow> bool" where
  "isRunning l = m_Running l"

section \<open>Formatting a line\<close>

record log_time =
  lt_year :: int
  lt_mon :: int
  lt_mday :: int
  lt_hour :: int
  lt_min :: int
  lt_sec :: int
  lt_millitm :: int

definition Ka_Log_getTime :: "nat \<Rightarrow> log_time \<Rightarrow> string" where
  "Ka_Log_getTime nTimeStrLength t =
     snprintf_buf nTimeStrLength (''['' @ show_int_pad 4 (lt_year t + 1900) @ ''-'' @ show_int_pad 2 (lt_mon t + 1) @
       ''-'' @ show_int_pad 2 (lt_mday t) @ '' '' @ show_int_pad 2 (lt_hour t) @ '':'' @ show_int_pad 2 (lt_min t) @
       '':'' @ show_int_pad 2 (lt_sec t) @ '':'' @ show_int_pad 3 (lt_millitm t) @ '']'')"

definition level_name :: "int \<Rightarrow> string" where
  "level_name nLevel =
     (if nLevel = LOG_LEVEL_TRACE then ''[TARCE]''
      else if nLevel = LOG_LEVEL_DEBUG then ''[DEBUG]''
      else if nLevel = LOG_LEVEL_WARNING then ''[WARNING]''
      else if nLevel = LOG_LEVEL_ERROR then ''[ERROR]''
      else if nLevel = LOG_LEVEL_SYSTEM_ERROR then ''[SYS_ERROR]''
      else if nLevel = LOG_LEVEL_FATAL then ''[SYS_FATAL]''
      else if nLevel = LOG_LEVEL_CRITICAL then ''[CRIRICAL]''
      else ''[INFO]'')"

definition makeLinePrefix :: "int \<Rightarrow> log_time \<Rightarrow> string \<Rightarrow> string" where
  "makeLinePrefix nLevel t threadId =
     level_name nLevel @ ''['' @ Ka_Log_getTime 64 t @ '']'' @
     snprintf_buf 32 (''['' @ threadId @ '']'')"

text \<open>The text between the file name and the line number, and the one after it, in UTF-8.\<close>

definition utf8_file :: string where
  "utf8_file = [CHR 0xE6, CHR 0x96, CHR 0x87, CHR 0xE4, CHR 0xBB, CHR 0xB6, CHR 0x3A, CHR 0xE7, CHR 0xAC, CHR 0xAC]"

definition utf8_line :: string where
  "utf8_line = [CHR 0xE8, CHR 0xA1, CHR 0x8C]"

text \<open>The line for a message \<open>msg\<close>, the text that \<open>vsnprintf\<close> makes of the format and its arguments.\<close>

definition log_line :: "int \<Rightarrow> string \<Rightarrow> int \<Rightarrow> string \<Rightarrow> log_time \<Rightarrow> string \<Rightarrow> Ka_Log \<Rightarrow> string" where
  "log_line nLevel fileName nLineNumber msg t threadId l =
     makeLinePrefix nLevel t threadId @
     snprintf_buf 512 (''['' @ c_str fileName @ utf8_file @ show_int nLineNumber @ utf8_line @ '']'') @
     (if m_bTrunc l then take MAX_LINE_LENGTH msg else msg) @
     (if m_FileName l \<noteq> [] then [CHR 0x0A] else [])"

text \<open>\<open>EasyDebug\<close> prints at once. It hands its \<open>va_list\<close> to \<open>snprintf\<close>, which reads it as the arguments
  themselves: with a conversion in the format that is undefined.\<close>

definition EasyDebug :: "string \<Rightarrow> string \<Rightarrow> int \<Rightarrow> string \<Rightarrow> Ka_Log \<Rightarrow> cxx_error + Ka_Log" where
  "EasyDebug fileName functionName LineNumber pszFmt l =
     (let szFileName = snprintf_buf 512 (''['' @ c_str fileName @ take 6 utf8_file @ '','' @ drop 7 utf8_file @
            show_int LineNumber @ utf8_line @ '','' @ c_str functionName @
            [CHR 0xE5, CHR 0x87, CHR 0xBD, CHR 0xE6, CHR 0x95, CHR 0xB0] @ '']: '')
      in if CHR ''%'' \<in> set (c_str pszFmt) then Inl Undefined_Behaviour
         else Inr (l\<lparr>lg_console := lg_console l @ [szFileName @ c_str pszFmt]\<rparr>))"

section \<open>Files\<close>

text \<open>\<open>createNewFile\<close>: \<open>ok\<close> tells whether \<open>fopen\<close> succeeds.\<close>

definition createNewFile :: "bool \<Rightarrow> string \<Rightarrow> Ka_Log \<Rightarrow> bool \<times> Ka_Log" where
  "createNewFile ok pszLogFileName l =
     (if ok then (True, l\<lparr>m_hLogFile := True, lg_files := lg_files l @ [(pszLogFileName, [])]\<rparr>)
      else (False, l\<lparr>m_hLogFile := False\<rparr>))"

definition logFileName :: "string \<Rightarrow> Ka_Log \<Rightarrow> string" where
  "logFileName szNow l = m_FileName l @ ''.'' @ szNow @ ''.'' @ m_FileNamePid l @ ''.log''"

text \<open>The loop of \<open>writeToFile\<close>: \<open>rets\<close> are the numbers of bytes the calls of \<open>fwrite\<close> store, one per
  turn. The result has what was stored; \<open>None\<close> is a loop that did not end with the given answers.\<close>

fun write_loop :: "nat list \<Rightarrow> string \<Rightarrow> (bool \<times> string) option" where
  "write_loop [] strLocal = None"
| "write_loop (r # rets) strLocal =
     (let ret = min r (length strLocal) in
      if ret = 0 then Some (False, [])
      else if drop ret strLocal = [] then Some (True, take ret strLocal)
      else map_option (\<lambda>(ok, out). (ok, take ret strLocal @ out)) (write_loop rets (drop ret strLocal)))"

definition append_current :: "string \<Rightarrow> (string \<times> string) list \<Rightarrow> (string \<times> string) list" where
  "append_current out fs = (if fs = [] then [] else butlast fs @ [(fst (last fs), snd (last fs) @ out)])"

text \<open>\<open>fwrite\<close> to a null handle is undefined.\<close>

definition writeToFile :: "nat list \<Rightarrow> string \<Rightarrow> Ka_Log \<Rightarrow> cxx_error + (bool \<times> Ka_Log) option" where
  "writeToFile rets data l =
     (if \<not> m_hLogFile l then Inl Undefined_Behaviour
      else Inr (map_option (\<lambda>(ok, out). (ok, l\<lparr>lg_files := append_current out (lg_files l)\<rparr>)) (write_loop rets data)))"

section \<open>Output\<close>

text \<open>\<open>crash\<close> writes through a null pointer to end the program.\<close>

datatype log_result = Returned bool | Crashed

text \<open>\<open>output\<close>; \<open>szNow\<close>, \<open>ok\<close> and \<open>rets\<close> are what the clock, \<open>fopen\<close> and \<open>fwrite\<close> do when the line is
  fatal. \<open>None\<close> is an unfinished write. A fatal line is written to a file that is open, so the write is
  never undefined; then \<open>crash\<close> is called.\<close>

definition log_output :: "int \<Rightarrow> string \<Rightarrow> int \<Rightarrow> string \<Rightarrow> log_time \<Rightarrow> string \<Rightarrow> string \<Rightarrow> bool \<Rightarrow> nat list \<Rightarrow> Ka_Log \<Rightarrow>
    (log_result \<times> Ka_Log) option" where
  "log_output nLevel fileName nLineNumber msg t threadId szNow ok rets l =
     (if nLevel < m_nCurrentLevel l then Some (Returned False, l)
      else
        (let strLine = log_line nLevel fileName nLineNumber msg t threadId l in
         if nLevel \<noteq> LOG_LEVEL_FATAL then Some (Returned True, l\<lparr>m_listLine := m_listLine l @ [strLine]\<rparr>)
         else
           (let l1 = l\<lparr>lg_console := lg_console l @ [strLine]\<rparr> in
            if m_FileName l1 = [] then Some (Crashed, l1)
            else
              (let (created, l2) = (if m_hLogFile l1 then (True, l1) else createNewFile ok (logFileName szNow l1) l1) in
               if \<not> created then Some (Returned False, l2)
               else (case writeToFile rets strLine l2 of
                       Inl _ \<Rightarrow> Some (Crashed, l2)
                     | Inr r \<Rightarrow> map_option (\<lambda>(_, l3). (Crashed, l3)) r)))))"

text \<open>The macros, with the file and the line they are used in. \<open>LOGT\<close> and \<open>LOGW\<close> name levels that do not exist.\<close>

definition LOGD :: "string \<Rightarrow> int \<Rightarrow> string \<Rightarrow> log_time \<Rightarrow> string \<Rightarrow> string \<Rightarrow> bool \<Rightarrow> nat list \<Rightarrow> Ka_Log \<Rightarrow>
    (log_result \<times> Ka_Log) option" where
  "LOGD = log_output LOG_LEVEL_DEBUG"

definition LOGI :: "string \<Rightarrow> int \<Rightarrow> string \<Rightarrow> log_time \<Rightarrow> string \<Rightarrow> string \<Rightarrow> bool \<Rightarrow> nat list \<Rightarrow> Ka_Log \<Rightarrow>
    (log_result \<times> Ka_Log) option" where
  "LOGI = log_output LOG_LEVEL_INFO"

definition LOGE :: "string \<Rightarrow> int \<Rightarrow> string \<Rightarrow> log_time \<Rightarrow> string \<Rightarrow> string \<Rightarrow> bool \<Rightarrow> nat list \<Rightarrow> Ka_Log \<Rightarrow>
    (log_result \<times> Ka_Log) option" where
  "LOGE = log_output LOG_LEVEL_ERROR"

definition LOGSYSE :: "string \<Rightarrow> int \<Rightarrow> string \<Rightarrow> log_time \<Rightarrow> string \<Rightarrow> string \<Rightarrow> bool \<Rightarrow> nat list \<Rightarrow> Ka_Log \<Rightarrow>
    (log_result \<times> Ka_Log) option" where
  "LOGSYSE = log_output LOG_LEVEL_SYSTEM_ERROR"

definition LOGF :: "string \<Rightarrow> int \<Rightarrow> string \<Rightarrow> log_time \<Rightarrow> string \<Rightarrow> string \<Rightarrow> bool \<Rightarrow> nat list \<Rightarrow> Ka_Log \<Rightarrow>
    (log_result \<times> Ka_Log) option" where
  "LOGF = log_output LOG_LEVEL_FATAL"

definition LOGC :: "string \<Rightarrow> int \<Rightarrow> string \<Rightarrow> log_time \<Rightarrow> string \<Rightarrow> string \<Rightarrow> bool \<Rightarrow> nat list \<Rightarrow> Ka_Log \<Rightarrow>
    (log_result \<times> Ka_Log) option" where
  "LOGC = log_output LOG_LEVEL_CRITICAL"

definition LOGB :: "string \<Rightarrow> string \<Rightarrow> int \<Rightarrow> string \<Rightarrow> Ka_Log \<Rightarrow> cxx_error + Ka_Log" where
  "LOGB = EasyDebug"

section \<open>The writer thread\<close>

datatype writer_pc = W_Start | W_Top | W_Take | W_Write string | W_Done | W_Failed

record log_system =
  sys_log :: Ka_Log
  sys_pc :: writer_pc
  sys_accepted :: "string list"

text \<open>One step of \<open>writeThreadProc\<close>: it starts, opens a file when there is none or the written size
  has reached the limit, takes the first line or returns when there is none and \<open>m_Exit\<close> is set, and
  prints and writes the line. Waiting on the condition variable is not taking a step.\<close>

inductive writer_step :: "log_system \<Rightarrow> log_system \<Rightarrow> bool" where
  ws_start: "sys_pc s = W_Start \<Longrightarrow>
    writer_step s (s\<lparr>sys_pc := W_Top, sys_log := (sys_log s)\<lparr>m_Running := True\<rparr>\<rparr>)"
| ws_no_roll: "sys_pc s = W_Top \<Longrightarrow>
    m_FileName (sys_log s) = [] \<or> m_hLogFile (sys_log s) \<and> m_CurrentWrittenSize (sys_log s) < m_MaxLogSize (sys_log s) \<Longrightarrow>
    writer_step s (s\<lparr>sys_pc := W_Take\<rparr>)"
| ws_roll: "sys_pc s = W_Top \<Longrightarrow> m_FileName (sys_log s) \<noteq> [] \<Longrightarrow>
    \<not> m_hLogFile (sys_log s) \<or> m_MaxLogSize (sys_log s) \<le> m_CurrentWrittenSize (sys_log s) \<Longrightarrow>
    createNewFile ok (logFileName szNow (sys_log s)) (sys_log s) = (created, l) \<Longrightarrow>
    writer_step s (s\<lparr>sys_pc := (if created then W_Take else W_Failed), sys_log := l\<rparr>)"
| ws_take: "sys_pc s = W_Take \<Longrightarrow> m_listLine (sys_log s) = x # xs \<Longrightarrow>
    writer_step s (s\<lparr>sys_pc := W_Write x, sys_log := (sys_log s)\<lparr>m_listLine := xs\<rparr>\<rparr>)"
| ws_exit: "sys_pc s = W_Take \<Longrightarrow> m_listLine (sys_log s) = [] \<Longrightarrow> m_Exit (sys_log s) \<Longrightarrow>
    writer_step s (s\<lparr>sys_pc := W_Done\<rparr>)"
| ws_print: "sys_pc s = W_Write x \<Longrightarrow> m_FileName (sys_log s) = [] \<Longrightarrow>
    writer_step s (s\<lparr>sys_pc := W_Top, sys_log := (sys_log s)\<lparr>lg_console := lg_console (sys_log s) @ [x]\<rparr>\<rparr>)"
| ws_write: "sys_pc s = W_Write x \<Longrightarrow> m_FileName (sys_log s) \<noteq> [] \<Longrightarrow>
    writeToFile rets x ((sys_log s)\<lparr>lg_console := lg_console (sys_log s) @ [x]\<rparr>) = Inr (Some (ok, l)) \<Longrightarrow>
    writer_step s (s\<lparr>sys_pc := (if ok then W_Top else W_Failed),
      sys_log := (if ok then l\<lparr>m_CurrentWrittenSize := m_CurrentWrittenSize l + int (length x)\<rparr> else l)\<rparr>)"

text \<open>The other threads: they log lines that are not fatal, change the level, and call \<open>uninit\<close>, which
  sets \<open>m_Exit\<close> and closes the file once the writer has returned.\<close>

inductive client_step :: "log_system \<Rightarrow> log_system \<Rightarrow> bool" where
  cl_output: "log_output nLevel fileName nLineNumber msg t threadId szNow ok rets (sys_log s) = Some (Returned r, l) \<Longrightarrow>
    nLevel \<noteq> LOG_LEVEL_FATAL \<Longrightarrow>
    client_step s (s\<lparr>sys_log := l, sys_accepted := sys_accepted s @
      (if r then [log_line nLevel fileName nLineNumber msg t threadId (sys_log s)] else [])\<rparr>)"
| cl_level: "client_step s (s\<lparr>sys_log := setLevel nLevel (sys_log s)\<rparr>)"
| cl_uninit: "client_step s (s\<lparr>sys_log := (sys_log s)\<lparr>m_Exit := True\<rparr>\<rparr>)"
| cl_joined: "m_Exit (sys_log s) \<Longrightarrow> sys_pc s = W_Done \<or> sys_pc s = W_Failed \<Longrightarrow>
    client_step s (s\<lparr>sys_log := (sys_log s)\<lparr>m_hLogFile := False\<rparr>\<rparr>)"

inductive log_reach :: "log_system \<Rightarrow> bool" where
  lr_init: "log_reach \<lparr>sys_log = snd (Ka_Log_init f trunc roll pid Ka_Log_initial), sys_pc = W_Start, sys_accepted = []\<rparr>"
| lr_writer: "log_reach s \<Longrightarrow> writer_step s s' \<Longrightarrow> log_reach s'"
| lr_client: "log_reach s \<Longrightarrow> client_step s s' \<Longrightarrow> log_reach s'"

section \<open>What the file gets\<close>

fun positive_answers :: "nat list \<Rightarrow> bool" where
  "positive_answers [] = True"
| "positive_answers (r # rets) = (0 < r \<and> positive_answers rets)"

lemma write_loop_result:
  "write_loop rets d = Some (ok, out) \<Longrightarrow> prefix out d \<and> (ok \<longrightarrow> out = d)"
proof (induction rets arbitrary: d ok out)
  case (Cons r rets)
  let ?n = "min r (length d)"
  consider "?n = 0" | "?n \<noteq> 0" "drop ?n d = []" | "?n \<noteq> 0" "drop ?n d \<noteq> []" by blast
  then show ?case
  proof cases
    case 3
    then obtain out' where *: "write_loop rets (drop ?n d) = Some (ok, out')" "out = take ?n d @ out'"
      using Cons.prems by (auto simp: Let_def)
    have "prefix out' (drop ?n d) \<and> (ok \<longrightarrow> out' = drop ?n d)" using Cons.IH[OF *(1)] .
    then show ?thesis using *(2) by (metis append_take_drop_id same_prefix_prefix)
  qed (use Cons.prems in \<open>auto simp: Let_def take_is_prefix\<close>)
qed simp

lemma write_loop_returns:
  "positive_answers rets \<Longrightarrow> d \<noteq> [] \<Longrightarrow> length d \<le> length rets \<Longrightarrow> write_loop rets d = Some (True, d)"
proof (induction rets arbitrary: d)
  case (Cons r rets)
  let ?n = "min r (length d)"
  have n: "?n \<noteq> 0" using Cons.prems by (cases r) auto
  show ?case
  proof (cases "drop ?n d = []")
    case True
    then have "take ?n d = d" by (metis append_Nil2 append_take_drop_id)
    then show ?thesis using n True by (simp add: Let_def)
  next
    case False
    have "write_loop rets (drop ?n d) = Some (True, drop ?n d)"
    proof (rule Cons.IH)
      show "length (drop ?n d) \<le> length rets" using Cons.prems(3) n by simp linarith
    qed (use Cons.prems False in auto)
    then show ?thesis using n False by (simp add: Let_def)
  qed
qed simp

lemma append_current_snoc [simp]:
  "append_current out (fs @ [(f, d)]) = fs @ [(f, d @ out)]"
  by (simp add: append_current_def)

text \<open>C37. Writing a line to the log file: whatever counts \<open>fwrite\<close> answers, what is stored is a
  prefix of the line, and all of it when \<open>writeToFile\<close> returns true; only the contents of the current
  file change; and the loop does end, with all of the line stored, when every call stores at least
  one byte. Without an open file the call is undefined.\<close>

theorem writeToFile_stores_line:
  assumes "lg_files l = fs @ [(f, d)]" and "data \<noteq> []"
  shows "if m_hLogFile l
    then (\<forall>ok l'. writeToFile rets data l = Inr (Some (ok, l')) \<longrightarrow>
             (\<exists>out. prefix out data \<and> (ok \<longrightarrow> out = data) \<and> l' = l\<lparr>lg_files := fs @ [(f, d @ out)]\<rparr>)) \<and>
         (positive_answers rets \<and> length data \<le> length rets \<longrightarrow>
             writeToFile rets data l = Inr (Some (True, l\<lparr>lg_files := fs @ [(f, d @ data)]\<rparr>)))
    else writeToFile rets data l = Inl Undefined_Behaviour"
proof (cases "m_hLogFile l")
  case True
  have "\<exists>out. prefix out data \<and> (ok \<longrightarrow> out = data) \<and> l' = l\<lparr>lg_files := fs @ [(f, d @ out)]\<rparr>"
    if w: "writeToFile rets data l = Inr (Some (ok, l'))" for ok l'
  proof -
    obtain out where "write_loop rets data = Some (ok, out)" "l' = l\<lparr>lg_files := fs @ [(f, d @ out)]\<rparr>"
      using w True assms(1) by (auto simp: writeToFile_def)
    then show ?thesis using write_loop_result by blast
  qed
  moreover have "writeToFile rets data l = Inr (Some (True, l\<lparr>lg_files := fs @ [(f, d @ data)]\<rparr>))"
    if "positive_answers rets \<and> length data \<le> length rets"
    using that True assms write_loop_returns[of rets data] by (simp add: writeToFile_def)
  ultimately show ?thesis using True by simp
qed (simp add: writeToFile_def)

theorem writeToFile_stores_line_witness:
  "writeToFile [1, 2, 9] ''abcde'' (Ka_Log_initial\<lparr>m_hLogFile := True, lg_files := [(''a.log'', ''x'')]\<rparr>) =
     Inr (Some (True, Ka_Log_initial\<lparr>m_hLogFile := True, lg_files := [(''a.log'', ''xabcde'')]\<rparr>))"
proof -
  let ?l = "Ka_Log_initial\<lparr>m_hLogFile := True, lg_files := [(''a.log'', ''x'')]\<rparr>"
  have "writeToFile [1, 2, 9, 1, 1] ''abcde'' ?l = Inr (Some (True, ?l\<lparr>lg_files := [] @ [(''a.log'', ''x'' @ ''abcde'')]\<rparr>))"
    using writeToFile_stores_line[of ?l "[]" "''a.log''" "''x''" "''abcde''" "[1, 2, 9, 1, 1]"] by simp
  moreover have "writeToFile [1, 2, 9, 1, 1] ''abcde'' l = writeToFile [1, 2, 9] ''abcde'' l" for l
    by (simp add: writeToFile_def)
  ultimately show ?thesis by simp
qed

section \<open>The level\<close>

lemma setLevel_range:
  "m_nCurrentLevel l \<le> LOG_LEVEL_FATAL \<Longrightarrow> m_nCurrentLevel (setLevel n l) \<le> LOG_LEVEL_FATAL"
  by (simp add: setLevel_def)

lemma log_output_filtered:
  "nLevel < m_nCurrentLevel l \<Longrightarrow> log_output nLevel f n msg t tid szNow ok rets l = Some (Returned False, l)"
  by (simp add: log_output_def)

lemma log_output_queued:
  "m_nCurrentLevel l \<le> nLevel \<Longrightarrow> nLevel \<noteq> LOG_LEVEL_FATAL \<Longrightarrow>
   log_output nLevel f n msg t tid szNow ok rets l =
     Some (Returned True, l\<lparr>m_listLine := m_listLine l @ [log_line nLevel f n msg t tid l]\<rparr>)"
  by (simp add: log_output_def)

lemma log_output_fatal_new_file:
  assumes "m_nCurrentLevel l \<le> LOG_LEVEL_FATAL" "m_FileName l \<noteq> []" "\<not> m_hLogFile l" "positive_answers rets"
    and "line = log_line LOG_LEVEL_FATAL f n msg t tid l" "line \<noteq> []" "length line \<le> length rets"
  shows "log_output LOG_LEVEL_FATAL f n msg t tid szNow True rets l =
    Some (Crashed, l\<lparr>m_hLogFile := True, lg_console := lg_console l @ [line],
      lg_files := lg_files l @ [(logFileName szNow l, line)]\<rparr>)"
proof -
  have "logFileName szNow (l\<lparr>lg_console := c\<rparr>) = logFileName szNow l" for c by (simp add: logFileName_def)
  then show ?thesis
    using assms write_loop_returns[of rets line]
    by (simp add: log_output_def createNewFile_def writeToFile_def Let_def)
qed

section \<open>Order\<close>

fun in_hand :: "writer_pc \<Rightarrow> string list" where
  "in_hand (W_Write x) = [x]"
| "in_hand _ = []"

text \<open>What the list promises to its users: every accepted line is printed, in the writer's hand or
  still in the list, in the order in which the lines were accepted.\<close>

definition log_fifo :: "log_system \<Rightarrow> bool" where
  "log_fifo s \<longleftrightarrow> sys_accepted s = lg_console (sys_log s) @ in_hand (sys_pc s) @ m_listLine (sys_log s)"

lemma createNewFile_fields:
  "createNewFile ok f l = (c, l') \<Longrightarrow>
   lg_console l' = lg_console l \<and> m_listLine l' = m_listLine l \<and> m_FileName l' = m_FileName l \<and>
   m_MaxLogSize l' = m_MaxLogSize l \<and> m_CurrentWrittenSize l' = m_CurrentWrittenSize l \<and> m_Running l' = m_Running l \<and>
   m_hLogFile l' = c \<and> c = ok \<and> lg_files l' = lg_files l @ (if ok then [(f, [])] else [])"
  by (auto simp: createNewFile_def split: if_splits)

lemma writeToFile_fields:
  "writeToFile rets d l = Inr (Some (ok, l')) \<Longrightarrow>
   lg_console l' = lg_console l \<and> m_listLine l' = m_listLine l \<and> m_FileName l' = m_FileName l \<and>
   m_MaxLogSize l' = m_MaxLogSize l \<and> m_CurrentWrittenSize l' = m_CurrentWrittenSize l \<and> m_Running l' = m_Running l \<and>
   m_hLogFile l' = m_hLogFile l \<and> length (lg_files l') = length (lg_files l)"
proof -
  assume "writeToFile rets d l = Inr (Some (ok, l'))"
  then obtain out where "l' = l\<lparr>lg_files := append_current out (lg_files l)\<rparr>"
    by (cases "m_hLogFile l") (auto simp: writeToFile_def)
  then show ?thesis by (simp add: append_current_def)
qed

lemma log_output_fields:
  assumes "log_output nLevel f n msg t tid szNow ok rets l = Some (Returned r, l')" "nLevel \<noteq> LOG_LEVEL_FATAL"
  shows "l' = l\<lparr>m_listLine := m_listLine l @ (if r then [log_line nLevel f n msg t tid l] else [])\<rparr>"
  using assms by (auto simp: log_output_def Let_def split: if_splits)

lemma writer_step_fifo: "writer_step s s' \<Longrightarrow> log_fifo s \<Longrightarrow> log_fifo s'"
proof (induction rule: writer_step.induct)
  case (ws_roll s ok szNow created l)
  then show ?case using createNewFile_fields[OF ws_roll(4)] by (simp add: log_fifo_def)
next
  case (ws_write s x rets ok l)
  then show ?case using writeToFile_fields[OF ws_write(3)] by (simp add: log_fifo_def)
qed (auto simp: log_fifo_def)

lemma client_step_fifo: "client_step s s' \<Longrightarrow> log_fifo s \<Longrightarrow> log_fifo s'"
proof (induction rule: client_step.induct)
  case (cl_output nLevel fileName nLineNumber msg t threadId szNow ok rets s r l)
  show ?case using log_output_fields[OF cl_output(1,2)] cl_output(3) by (auto simp: log_fifo_def)
qed (auto simp: log_fifo_def setLevel_def)

lemma log_reach_fifo: "log_reach s \<Longrightarrow> log_fifo s"
proof (induction rule: log_reach.induct)
  case lr_init
  show ?case by (simp add: log_fifo_def Ka_Log_init_def Ka_Log_initial_def)
qed (auto intro: writer_step_fifo client_step_fifo)

lemma writer_returns: "writer_step s s' \<Longrightarrow> sys_pc s' = W_Done \<Longrightarrow> s' = s\<lparr>sys_pc := W_Done\<rparr> \<and> m_listLine (sys_log s) = [] \<and> m_Exit (sys_log s)"
  by (induction rule: writer_step.induct) (auto split: if_splits)

lemma writer_running: "writer_step s s' \<Longrightarrow> sys_pc s' \<noteq> W_Start \<and> (sys_pc s = W_Start \<or> m_Running (sys_log s) \<longrightarrow> m_Running (sys_log s'))"
proof (induction rule: writer_step.induct)
  case (ws_roll s ok szNow created l)
  then show ?case using createNewFile_fields[OF ws_roll(4)] by simp
next
  case (ws_write s x rets ok l)
  then show ?case using writeToFile_fields[OF ws_write(3)] by simp
qed auto

lemma client_running: "client_step s s' \<Longrightarrow> sys_pc s' = sys_pc s \<and> m_Running (sys_log s') = m_Running (sys_log s)"
proof (induction rule: client_step.induct)
  case (cl_output nLevel fileName nLineNumber msg t threadId szNow ok rets s r l)
  show ?case using log_output_fields[OF cl_output(1,2)] by simp
qed (auto simp: setLevel_def)

lemma log_reach_running: "log_reach s \<Longrightarrow> sys_pc s \<noteq> W_Start \<longrightarrow> m_Running (sys_log s)"
proof (induction rule: log_reach.induct)
  case (lr_writer s s') then show ?case using writer_running by blast
next
  case (lr_client s s') then show ?case using client_running by metis
qed simp

definition log_step :: "log_system \<Rightarrow> log_system \<Rightarrow> bool" where
  "log_step s s' \<longleftrightarrow> writer_step s s' \<or> client_step s s'"

text \<open>The writer writes only to an open file.\<close>

lemma file_open: "log_reach s \<Longrightarrow> sys_pc s = W_Take \<or> (\<exists>x. sys_pc s = W_Write x) \<Longrightarrow> m_FileName (sys_log s) \<noteq> [] \<Longrightarrow> m_hLogFile (sys_log s)"
proof (induction rule: log_reach.induct)
  case (lr_writer s s')
  from lr_writer(2,1,3-5) show ?case
  proof (induction rule: writer_step.induct)
    case (ws_roll s ok szNow created l)
    then show ?case using createNewFile_fields[OF ws_roll(4)] by (auto split: if_splits)
  next
    case (ws_write s x rets ok l)
    then show ?case by (auto split: if_splits)
  qed auto
next
  case (lr_client s s')
  from lr_client(2,1,3-5) show ?case
  proof (induction rule: client_step.induct)
    case (cl_output nLevel fileName nLineNumber msg t threadId szNow ok rets s r l)
    then show ?case using log_output_fields[OF cl_output(1,2)] by simp
  qed (auto simp: setLevel_def)
qed simp

text \<open>After the writer has returned nothing is printed, and what is accepted stays in the list.\<close>

definition writer_returned :: "log_system \<Rightarrow> bool" where
  "writer_returned s \<longleftrightarrow> sys_pc s = W_Done \<or> sys_pc s = W_Failed"

lemma returned_step:
  assumes "log_step s s'" and "writer_returned s"
  shows "writer_returned s' \<and> lg_console (sys_log s') = lg_console (sys_log s) \<and>
    (\<exists>new. sys_accepted s' = sys_accepted s @ new \<and> m_listLine (sys_log s') = m_listLine (sys_log s) @ new)"
proof -
  have no: "\<not> writer_step s s'" using assms(2) by (auto simp: writer_returned_def elim: writer_step.cases)
  then have "client_step s s'" using assms(1) by (simp add: log_step_def)
  then show ?thesis using assms(2)
  proof (induction rule: client_step.induct)
    case (cl_output nLevel fileName nLineNumber msg t threadId szNow ok rets s r l)
    then show ?case using log_output_fields[OF cl_output(1,2)] by (simp add: writer_returned_def)
  qed (auto simp: setLevel_def writer_returned_def)
qed

lemma returned_steps:
  "log_step\<^sup>*\<^sup>* s s' \<Longrightarrow> writer_returned s \<Longrightarrow> writer_returned s' \<and> lg_console (sys_log s') = lg_console (sys_log s) \<and>
    (\<exists>new. sys_accepted s' = sys_accepted s @ new \<and> m_listLine (sys_log s') = m_listLine (sys_log s) @ new)"
proof (induction rule: rtranclp_induct)
  case (step s1 s2)
  then show ?case using returned_step[of s1 s2] by auto
qed simp


text \<open>A logger with no file, one accepted line, told to finish.\<close>

definition demo_line :: string where
  "demo_line = log_line LOG_LEVEL_INFO ''a.cpp'' 7 ''hi'' (log_time.make 121 0 13 1 2 3 4) ''t1'' Ka_Log_initial"

definition demo_log :: "bool \<Rightarrow> bool \<Rightarrow> string list \<Rightarrow> string list \<Rightarrow> Ka_Log" where
  "demo_log running ex queued printed = Ka_Log_initial\<lparr>m_FileNamePid := ''00042'', m_listLine := queued, m_Exit := ex,
     m_Running := running, lg_console := printed\<rparr>"

definition demo_state :: "bool \<Rightarrow> bool \<Rightarrow> string list \<Rightarrow> string list \<Rightarrow> writer_pc \<Rightarrow> string list \<Rightarrow> log_system" where
  "demo_state running ex queued printed pc accepted =
     \<lparr>sys_log = demo_log running ex queued printed, sys_pc = pc, sys_accepted = accepted\<rparr>"

lemmas demo_defs = demo_state_def demo_log_def Ka_Log_initial_def

lemma demo_reach:
  "log_reach (demo_state True True [] [demo_line] W_Take [demo_line])"
proof -
  have 0: "log_reach (demo_state False False [] [] W_Start [])"
  proof -
    have "snd (Ka_Log_init None False DEFAULT_ROLL_SIZE 42 Ka_Log_initial) = demo_log False False [] []"
      by (simp add: Ka_Log_init_def demo_log_def Ka_Log_initial_def) code_simp
    then show ?thesis using lr_init[of None False DEFAULT_ROLL_SIZE 42] by (simp add: demo_state_def)
  qed
  have 1: "log_reach (demo_state True False [] [] W_Top [])"
    using lr_writer[OF 0 ws_start] by (simp add: demo_defs)
  have 2: "log_reach (demo_state True False [] [] W_Take [])"
    using lr_writer[OF 1 ws_no_roll] by (simp add: demo_defs)
  have 3: "log_reach (demo_state True False [demo_line] [] W_Take [demo_line])"
  proof -
    let ?l = "demo_log True False [] []"
    have ln: "log_line LOG_LEVEL_INFO ''a.cpp'' 7 ''hi'' (log_time.make 121 0 13 1 2 3 4) ''t1'' ?l = demo_line"
      by (simp add: log_line_def demo_line_def demo_log_def Ka_Log_initial_def)
    have "log_output LOG_LEVEL_INFO ''a.cpp'' 7 ''hi'' (log_time.make 121 0 13 1 2 3 4) ''t1'' '''' True [] ?l =
      Some (Returned True, demo_log True False [demo_line] [])"
      using ln log_output_queued[of ?l LOG_LEVEL_INFO] by (simp add: demo_log_def Ka_Log_initial_def log_levels)
    then show ?thesis
      using lr_client[OF 2 cl_output, of LOG_LEVEL_INFO "''a.cpp''" 7 "''hi''" "log_time.make 121 0 13 1 2 3 4" "''t1''" "''''" True "[]"] ln
      by (simp add: demo_state_def log_levels)
  qed
  have 4: "log_reach (demo_state True False [] [] (W_Write demo_line) [demo_line])"
    using lr_writer[OF 3 ws_take] by (simp add: demo_defs)
  have 5: "log_reach (demo_state True False [] [demo_line] W_Top [demo_line])"
    using lr_writer[OF 4 ws_print] by (simp add: demo_defs)
  have 6: "log_reach (demo_state True False [] [demo_line] W_Take [demo_line])"
    using lr_writer[OF 5 ws_no_roll] by (simp add: demo_defs)
  show ?thesis
    using lr_client[OF 6 cl_uninit] by (simp add: demo_defs)
qed


section \<open>Rolling\<close>

text \<open>The written size is at the limit.\<close>

definition log_full :: "Ka_Log \<Rightarrow> bool" where
  "log_full l \<longleftrightarrow> m_FileName l \<noteq> [] \<and> m_MaxLogSize l \<le> m_CurrentWrittenSize l"

lemma writer_keeps_full: "writer_step s s' \<Longrightarrow> log_full (sys_log s) \<Longrightarrow> log_full (sys_log s')"
proof (induction rule: writer_step.induct)
  case (ws_roll s ok szNow created l)
  then show ?case using createNewFile_fields[OF ws_roll(4)] by (simp add: log_full_def)
next
  case (ws_write s x rets ok l)
  then show ?case using writeToFile_fields[OF ws_write(3)] by (simp add: log_full_def)
qed (auto simp: log_full_def)

lemma client_keeps_full: "client_step s s' \<Longrightarrow> log_full (sys_log s) \<Longrightarrow> log_full (sys_log s')"
proof (induction rule: client_step.induct)
  case (cl_output nLevel fileName nLineNumber msg t threadId szNow ok rets s r l)
  then show ?case using log_output_fields[OF cl_output(1,2)] by (simp add: log_full_def)
qed (auto simp: log_full_def setLevel_def)

lemma steps_keep_full: "log_step\<^sup>*\<^sup>* s s' \<Longrightarrow> log_full (sys_log s) \<Longrightarrow> log_full (sys_log s')"
  by (induction rule: rtranclp_induct) (auto simp: log_step_def dest: writer_keeps_full client_keeps_full)

lemma full_opens_file:
  "writer_step s s' \<Longrightarrow> log_full (sys_log s) \<Longrightarrow> sys_pc s = W_Top \<Longrightarrow>
   sys_pc s' = W_Failed \<or> (\<exists>szNow. lg_files (sys_log s') = lg_files (sys_log s) @ [(logFileName szNow (sys_log s), [])])"
proof (induction rule: writer_step.induct)
  case (ws_roll s ok szNow created l)
  then show ?case using createNewFile_fields[OF ws_roll(4)] by (cases created) auto
qed (auto simp: log_full_def)


definition full_log :: Ka_Log where
  "full_log = Ka_Log_initial\<lparr>m_FileName := ''im'', m_hLogFile := True, m_MaxLogSize := 1, m_CurrentWrittenSize := 5, m_Running := True,
     lg_files := [(''im.0..log'', ''12345'')]\<rparr>"


end
