(* ===== verification/QueryResults.thy ===== *)
theory QueryResults
  imports CLib
begin

text \<open>
  \<open>src/DataBase/KaMysql/MysqlBase.h\<close> and \<open>MysqlBase.cpp\<close>: a field of a row, and the result of a query
  that is read row by row into an array of fields. The handle \<open>MYSQL_RES\<close> of the client library is
  what its documentation says a stored result is: the descriptions of the columns and the rows not
  yet fetched. \<open>toLowerString\<close>, which the repository calls and does not define, is a parameter.
\<close>

section \<open>Fields\<close>

datatype field_type = DB_TYPE_UNKNOW | DB_TYPE_STRING | DB_TYPE_INTEGER | DB_TYPE_FLOAT | DB_TYPE_BOOL

text \<open>\<open>m_NULL\<close> is \<open>None\<close> while it is indeterminate.\<close>

record Field =
  m_NULL :: "bool option"
  m_FieldName :: string
  m_Value :: string
  m_Type :: field_type

definition Field_new :: Field where
  "Field_new = \<lparr>m_NULL = Some False, m_FieldName = '''', m_Value = '''', m_Type = DB_TYPE_UNKNOW\<rparr>"

definition Field_copy :: "Field \<Rightarrow> Field" where
  "Field_copy obj = \<lparr>m_NULL = None, m_FieldName = m_FieldName obj, m_Value = m_Value obj, m_Type = m_Type obj\<rparr>"

definition Field_of_value :: "string \<Rightarrow> field_type \<Rightarrow> Field" where
  "Field_of_value v ty = \<lparr>m_NULL = None, m_FieldName = '''', m_Value = c_str v, m_Type = ty\<rparr>"

definition getType :: "Field \<Rightarrow> field_type" where
  "getType f = m_Type f"

definition getStringValue :: "Field \<Rightarrow> string" where
  "getStringValue f = m_Value f"

definition getBoolValue :: "Field \<Rightarrow> cxx_error + bool" where
  "getBoolValue f = bind_r (atoi (m_Value f)) (\<lambda>v. Inr (v \<noteq> 0))"

definition getInt32Value :: "Field \<Rightarrow> cxx_error + 32 word" where
  "getInt32Value f = bind_r (atol (m_Value f)) (\<lambda>v. Inr (ucast v))"

definition getUInt32Value :: "Field \<Rightarrow> cxx_error + 32 word" where
  "getUInt32Value f = bind_r (atol (m_Value f)) (\<lambda>v. Inr (ucast v))"

definition getUInt8Value :: "Field \<Rightarrow> cxx_error + 8 word" where
  "getUInt8Value f = bind_r (atol (m_Value f)) (\<lambda>v. Inr (ucast v))"

definition getUInt16Value :: "Field \<Rightarrow> cxx_error + 16 word" where
  "getUInt16Value f = bind_r (atol (m_Value f)) (\<lambda>v. Inr (ucast v))"

definition getInt16Value :: "Field \<Rightarrow> cxx_error + 16 word" where
  "getInt16Value f = bind_r (atol (m_Value f)) (\<lambda>v. Inr (ucast v))"

definition getUInt64Value :: "Field \<Rightarrow> cxx_error + 64 word" where
  "getUInt64Value f = atol (m_Value f)"

definition setType :: "field_type \<Rightarrow> Field \<Rightarrow> Field" where
  "setType ty f = f\<lparr>m_Type := ty\<rparr>"

text \<open>\<open>setValue\<close> copies \<open>len\<close> bytes; reading past the bytes and the zero after them is undefined.\<close>

definition setValue :: "string \<Rightarrow> nat \<Rightarrow> Field \<Rightarrow> cxx_error + Field" where
  "setValue v len f =
     (if length v + 1 < len then Inl Undefined_Behaviour else Inr (f\<lparr>m_Value := take len (v @ [CHR 0x00])\<rparr>))"

definition setFiledName :: "(string \<Rightarrow> string) \<Rightarrow> string \<Rightarrow> Field \<Rightarrow> Field" where
  "setFiledName lower strName f = f\<lparr>m_FieldName := lower strName\<rparr>"

definition getFieldName :: "Field \<Rightarrow> string" where
  "getFieldName f = m_FieldName f"

definition isNull :: "Field \<Rightarrow> cxx_error + bool" where
  "isNull f = (case m_NULL f of None \<Rightarrow> Inl Undefined_Behaviour | Some b \<Rightarrow> Inr b)"

section \<open>Results\<close>

datatype enum_field_types =
    FIELD_TYPE_TIMESTAMP | FIELD_TYPE_DATE | FIELD_TYPE_TIME | FIELD_TYPE_DATETIME | FIELD_TYPE_YEAR
  | FIELD_TYPE_STRING | FIELD_TYPE_VAR_STRING | FIELD_TYPE_BLOB | FIELD_TYPE_SET | FIELD_TYPE_NULL
  | FIELD_TYPE_TINY | FIELD_TYPE_SHORT | FIELD_TYPE_LONG | FIELD_TYPE_INT24 | FIELD_TYPE_LONGLONG | FIELD_TYPE_ENUM
  | FIELD_TYPE_DECIMAL | FIELD_TYPE_FLOAT | FIELD_TYPE_DOUBLE | FIELD_TYPE_OTHER nat

fun convertNativeType :: "enum_field_types \<Rightarrow> field_type" where
  "convertNativeType FIELD_TYPE_TIMESTAMP = DB_TYPE_STRING"
| "convertNativeType FIELD_TYPE_DATE = DB_TYPE_STRING"
| "convertNativeType FIELD_TYPE_TIME = DB_TYPE_STRING"
| "convertNativeType FIELD_TYPE_DATETIME = DB_TYPE_STRING"
| "convertNativeType FIELD_TYPE_YEAR = DB_TYPE_STRING"
| "convertNativeType FIELD_TYPE_STRING = DB_TYPE_STRING"
| "convertNativeType FIELD_TYPE_VAR_STRING = DB_TYPE_STRING"
| "convertNativeType FIELD_TYPE_BLOB = DB_TYPE_STRING"
| "convertNativeType FIELD_TYPE_SET = DB_TYPE_STRING"
| "convertNativeType FIELD_TYPE_NULL = DB_TYPE_STRING"
| "convertNativeType FIELD_TYPE_TINY = DB_TYPE_INTEGER"
| "convertNativeType FIELD_TYPE_SHORT = DB_TYPE_INTEGER"
| "convertNativeType FIELD_TYPE_LONG = DB_TYPE_INTEGER"
| "convertNativeType FIELD_TYPE_INT24 = DB_TYPE_INTEGER"
| "convertNativeType FIELD_TYPE_LONGLONG = DB_TYPE_INTEGER"
| "convertNativeType FIELD_TYPE_ENUM = DB_TYPE_INTEGER"
| "convertNativeType FIELD_TYPE_DECIMAL = DB_TYPE_FLOAT"
| "convertNativeType FIELD_TYPE_FLOAT = DB_TYPE_FLOAT"
| "convertNativeType FIELD_TYPE_DOUBLE = DB_TYPE_FLOAT"
| "convertNativeType (FIELD_TYPE_OTHER n) = DB_TYPE_UNKNOW"

record mysql_result =
  res_fields :: "(string option \<times> enum_field_types) list"
  res_rows :: "string option list list"

text \<open>\<open>FieldNames\<close>, a \<open>std::map\<close>, is a list of pairs in key order.\<close>

type_synonym field_names = "(u32 \<times> string) list"

primrec names_assign :: "u32 \<Rightarrow> string \<Rightarrow> field_names \<Rightarrow> field_names" where
  "names_assign k v [] = [(k, v)]"
| "names_assign k v (e # es) =
     (if k < fst e then (k, v) # e # es else if k = fst e then (k, v) # es else e # names_assign k v es)"

record QueryResult =
  m_CurrentRow :: "Field list option"
  m_FieldCount :: u32
  m_RowCount :: u64
  m_FiledNames :: field_names
  m_FiledNameInVector :: "string list"
  m_Result :: "mysql_result option"

text \<open>The loop of the constructor from index \<open>i\<close> on, with \<open>k\<close> turns left; \<open>row\<close> is the array just
  allocated.\<close>

fun QueryResult_fields :: "nat \<Rightarrow> nat \<Rightarrow> (string option \<times> enum_field_types) list \<Rightarrow> Field list \<Rightarrow> field_names \<Rightarrow> string list \<Rightarrow>
    cxx_error + (Field list \<times> field_names \<times> string list)" where
  "QueryResult_fields 0 i fs row names vec = Inr (row, names, vec)"
| "QueryResult_fields (Suc k) i fs row names vec =
     (if length fs \<le> i then Inl Undefined_Behaviour
      else
        (let name = (case fst (fs ! i) of None \<Rightarrow> '''' | Some s \<Rightarrow> c_str s) in
         QueryResult_fields k (Suc i) fs
           (row[i := setType (convertNativeType (snd (fs ! i))) (row ! i)])
           (names_assign (word_of_nat i) name names) (vec @ [name])))"

definition QueryResult_new :: "mysql_result \<Rightarrow> u64 \<Rightarrow> u32 \<Rightarrow> cxx_error + QueryResult" where
  "QueryResult_new res rowcount fieldCount =
     bind_r (QueryResult_fields (unat fieldCount) 0 (res_fields res) (replicate (unat fieldCount) Field_new) [] [])
       (\<lambda>(row, names, vec). Inr \<lparr>m_CurrentRow = Some row, m_FieldCount = fieldCount, m_RowCount = rowcount,
          m_FiledNames = names, m_FiledNameInVector = vec, m_Result = Some res\<rparr>)"

definition endQuery :: "QueryResult \<Rightarrow> QueryResult" where
  "endQuery q =
     (let q1 = (if m_CurrentRow q \<noteq> None then q\<lparr>m_CurrentRow := None\<rparr> else q) in
      if m_Result q1 \<noteq> None then q1\<lparr>m_Result := None\<rparr> else q1)"

text \<open>The destructor.\<close>

definition QueryResult_delete :: "QueryResult \<Rightarrow> QueryResult" where
  "QueryResult_delete q = endQuery q"

definition getField_idx :: "string \<Rightarrow> QueryResult \<Rightarrow> u32" where
  "getField_idx name q =
     (case dropWhile (\<lambda>e. snd e \<noteq> name) (m_FiledNames q) of [] \<Rightarrow> 0 | e # _ \<Rightarrow> fst e)"

definition fetch :: "QueryResult \<Rightarrow> Field list option" where
  "fetch q = m_CurrentRow q"

definition at_index :: "int \<Rightarrow> QueryResult \<Rightarrow> cxx_error + Field" where
  "at_index i q =
     (case m_CurrentRow q of
        None \<Rightarrow> Inl Undefined_Behaviour
      | Some row \<Rightarrow> if 0 \<le> i \<and> nat i < length row then Inr (row ! nat i) else Inl Undefined_Behaviour)"

definition at_name :: "string \<Rightarrow> QueryResult \<Rightarrow> cxx_error + Field" where
  "at_name name q = at_index (uint (getField_idx name q)) q"

text \<open>The loop of \<open>nextRow\<close>; the operator \<open>[]\<close> of the map inserts an empty name for a missing index.\<close>

definition names_at :: "u32 \<Rightarrow> field_names \<Rightarrow> string \<times> field_names" where
  "names_at k m = (case map_of m k of Some s \<Rightarrow> (s, m) | None \<Rightarrow> ('''', names_assign k '''' m))"

definition set_cell :: "string option \<Rightarrow> Field \<Rightarrow> cxx_error + Field" where
  "set_cell cell f =
     (case cell of
        None \<Rightarrow> setValue '''' 0 (f\<lparr>m_NULL := Some True\<rparr>)
      | Some s \<Rightarrow> setValue s (length s) (f\<lparr>m_NULL := Some False\<rparr>))"

fun nextRow_fields :: "(string \<Rightarrow> string) \<Rightarrow> nat \<Rightarrow> nat \<Rightarrow> string option list \<Rightarrow> Field list \<Rightarrow> field_names \<Rightarrow>
    cxx_error + (Field list \<times> field_names)" where
  "nextRow_fields lower 0 i cells row names = Inr (row, names)"
| "nextRow_fields lower (Suc k) i cells row names =
     (if length cells \<le> i \<or> length row \<le> i then Inl Undefined_Behaviour
      else
        bind_r (set_cell (cells ! i) (row ! i)) (\<lambda>f.
          let (name, names') = names_at (word_of_nat i) names in
          nextRow_fields lower k (Suc i) cells (row[i := setFiledName lower name f]) names'))"

definition nextRow :: "(string \<Rightarrow> string) \<Rightarrow> QueryResult \<Rightarrow> cxx_error + (bool \<times> QueryResult)" where
  "nextRow lower q =
     (case m_Result q of
        None \<Rightarrow> Inr (False, q)
      | Some res \<Rightarrow>
          (case res_rows res of
             [] \<Rightarrow> Inr (False, endQuery q)
           | cells # rows \<Rightarrow>
               (case m_CurrentRow q of
                  None \<Rightarrow> if m_FieldCount q = 0 then Inr (True, q\<lparr>m_Result := Some (res\<lparr>res_rows := rows\<rparr>)\<rparr>)
                          else Inl Undefined_Behaviour
                | Some row \<Rightarrow>
                    bind_r (nextRow_fields lower (unat (m_FieldCount q)) 0 cells row (m_FiledNames q)) (\<lambda>(row', names').
                      Inr (True, q\<lparr>m_Result := Some (res\<lparr>res_rows := rows\<rparr>), m_CurrentRow := Some row', m_FiledNames := names'\<rparr>)))))"

definition getFieldCount :: "QueryResult \<Rightarrow> u32" where "getFieldCount q = m_FieldCount q"
definition getRowCount :: "QueryResult \<Rightarrow> u64" where "getRowCount q = m_RowCount q"
definition getFieldNames :: "QueryResult \<Rightarrow> field_names" where "getFieldNames q = m_FiledNames q"
definition getNames :: "QueryResult \<Rightarrow> string list" where "getNames q = m_FiledNameInVector q"

section \<open>Reading all rows\<close>

definition column_name :: "string option \<times> enum_field_types \<Rightarrow> string" where
  "column_name c = (case fst c of None \<Rightarrow> '''' | Some s \<Rightarrow> c_str s)"

text \<open>What a cell of a row is as a field.\<close>

definition cell_field :: "(string \<Rightarrow> string) \<Rightarrow> string option \<times> enum_field_types \<Rightarrow> string option \<Rightarrow> Field" where
  "cell_field lower c cell = \<lparr>m_NULL = Some (cell = None), m_FieldName = lower (column_name c),
     m_Value = (case cell of None \<Rightarrow> '''' | Some s \<Rightarrow> s), m_Type = convertNativeType (snd c)\<rparr>"

definition row_fields :: "(string \<Rightarrow> string) \<Rightarrow> (string option \<times> enum_field_types) list \<Rightarrow> string option list \<Rightarrow> Field list" where
  "row_fields lower cols cells = map2 (cell_field lower) cols cells"

text \<open>The loop of a caller: \<open>while (nextRow())\<close> with the row that is current in each turn.\<close>

fun read_rows :: "(string \<Rightarrow> string) \<Rightarrow> nat \<Rightarrow> QueryResult \<Rightarrow> cxx_error + (Field list option list \<times> QueryResult) option" where
  "read_rows lower 0 q = Inr None"
| "read_rows lower (Suc n) q =
     bind_r (nextRow lower q) (\<lambda>(more, q').
       if more then bind_r (read_rows lower n q') (\<lambda>r.
         Inr (map_option (\<lambda>(rows, q''). (fetch q' # rows, q'')) r))
       else Inr (Some ([], q')))"

definition index_names :: "(string option \<times> enum_field_types) list \<Rightarrow> nat \<Rightarrow> field_names" where
  "index_names cols n = map (\<lambda>j. (word_of_nat j, column_name (cols ! j))) [0..<n]"

lemma names_assign_last: "\<forall>e \<in> set m. fst e < k \<Longrightarrow> names_assign k v m = m @ [(k, v)]"
  by (induction m) auto

lemma word_of_nat_less32: "j < i \<Longrightarrow> i < 2 ^ 32 \<Longrightarrow> (word_of_nat j :: u32) < word_of_nat i"
  by (simp add: word_less_nat_alt unat_of_nat_small)

lemma index_names_Suc:
  "i < 2 ^ 32 \<Longrightarrow> names_assign (word_of_nat i) (column_name (cols ! i)) (index_names cols i) = index_names cols (Suc i)"
  by (subst names_assign_last) (auto simp: index_names_def intro: word_of_nat_less32)

lemma index_names_at:
  "i < n \<Longrightarrow> n < 2 ^ 32 \<Longrightarrow> map_of (index_names cols n) (word_of_nat i) = Some (column_name (cols ! i))"
proof (induction n)
  case (Suc n)
  show ?case
  proof (cases "i = n")
    case True
    have "(word_of_nat n :: u32) \<notin> fst ` set (index_names cols n)"
    proof
      assume "(word_of_nat n :: u32) \<in> fst ` set (index_names cols n)"
      then obtain j where "j < n" "(word_of_nat n :: u32) = word_of_nat j" by (auto simp: index_names_def)
      then show False using word_of_nat_less32[of j n] Suc.prems by simp
    qed
    then have "map_of (index_names cols n) (word_of_nat n) = None" by (simp add: map_of_eq_None_iff)
    then show ?thesis using True unfolding index_names_def by (simp add: map_add_def)
  next
    case False
    then have "map_of (index_names cols n) (word_of_nat i) = Some (column_name (cols ! i))" using Suc by simp
    then show ?thesis unfolding index_names_def by (simp add: map_add_def)
  qed
qed simp

lemma list_update_front: "i < length row \<Longrightarrow> take (Suc i) (row[i := x]) = take i row @ [x]"
  by (simp add: take_Suc_conv_app_nth)

lemma QueryResult_fields_result:
  "k + i = length fs \<Longrightarrow> length fs < 2 ^ 32 \<Longrightarrow> length row = length fs \<Longrightarrow>
   QueryResult_fields k i fs row (index_names fs i) vec =
     Inr (take i row @ map (\<lambda>j. setType (convertNativeType (snd (fs ! j))) (row ! j)) [i..<length fs],
       index_names fs (length fs), vec @ map column_name (drop i fs))"
proof (induction k arbitrary: i row vec)
  case (Suc k)
  have i: "i < length fs" using Suc.prems(1) by simp
  let ?row = "row[i := setType (convertNativeType (snd (fs ! i))) (row ! i)]"
  have nm: "(case fst (fs ! i) of None \<Rightarrow> '''' | Some s \<Rightarrow> c_str s) = column_name (fs ! i)"
    by (simp add: column_name_def)
  have tk: "take (Suc i) ?row = take i row @ [setType (convertNativeType (snd (fs ! i))) (row ! i)]"
    using i Suc.prems(3) by (simp add: list_update_front)
  have rest: "map (\<lambda>j. setType (convertNativeType (snd (fs ! j))) (?row ! j)) [Suc i..<length fs] =
      map (\<lambda>j. setType (convertNativeType (snd (fs ! j))) (row ! j)) [Suc i..<length fs]"
    by (rule map_cong) auto
  have "QueryResult_fields (Suc k) i fs row (index_names fs i) vec =
      QueryResult_fields k (Suc i) fs ?row (index_names fs (Suc i)) (vec @ [column_name (fs ! i)])"
    using i Suc.prems(2) index_names_Suc[of i fs] by (simp add: nm)
  also have "\<dots> = Inr (take (Suc i) ?row @ map (\<lambda>j. setType (convertNativeType (snd (fs ! j))) (?row ! j)) [Suc i..<length fs],
       index_names fs (length fs), (vec @ [column_name (fs ! i)]) @ map column_name (drop (Suc i) fs))"
    by (rule Suc.IH) (use Suc.prems in auto)
  finally show ?case
    using i unfolding tk rest by (simp add: upt_conv_Cons Cons_nth_drop_Suc[symmetric])
qed simp

lemma nextRow_fields_result:
  "k + i = length cols \<Longrightarrow> length cols < 2 ^ 32 \<Longrightarrow> length row = length cols \<Longrightarrow> length cells = length cols \<Longrightarrow>
   \<forall>j < length cols. m_Type (row ! j) = convertNativeType (snd (cols ! j)) \<Longrightarrow>
   nextRow_fields lower k i cells row (index_names cols (length cols)) =
     Inr (take i row @ map (\<lambda>j. cell_field lower (cols ! j) (cells ! j)) [i..<length cols], index_names cols (length cols))"
proof (induction k arbitrary: i row)
  case (Suc k)
  have i: "i < length cols" using Suc.prems(1) by simp
  let ?f = "cell_field lower (cols ! i) (cells ! i)"
  have cell: "set_cell (cells ! i) (row ! i) = Inr ((row ! i)\<lparr>m_NULL := Some (cells ! i = None),
      m_Value := (case cells ! i of None \<Rightarrow> '''' | Some s \<Rightarrow> s)\<rparr>)"
    by (simp add: set_cell_def setValue_def split: option.split)
  have "setFiledName lower (column_name (cols ! i)) ((row ! i)\<lparr>m_NULL := Some (cells ! i = None),
      m_Value := (case cells ! i of None \<Rightarrow> '''' | Some s \<Rightarrow> s)\<rparr>) = ?f"
    using Suc.prems(5) i by (simp add: setFiledName_def cell_field_def)
  moreover have "names_at (word_of_nat i) (index_names cols (length cols)) = (column_name (cols ! i), index_names cols (length cols))"
    using index_names_at[OF i Suc.prems(2)] by (simp add: names_at_def)
  ultimately have "nextRow_fields lower (Suc k) i cells row (index_names cols (length cols)) =
      nextRow_fields lower k (Suc i) cells (row[i := ?f]) (index_names cols (length cols))"
    using i Suc.prems(3,4) cell by simp
  also have "\<dots> = Inr (take (Suc i) (row[i := ?f]) @ map (\<lambda>j. cell_field lower (cols ! j) (cells ! j)) [Suc i..<length cols],
      index_names cols (length cols))"
  proof (rule Suc.IH)
    show "\<forall>j < length cols. m_Type (row[i := ?f] ! j) = convertNativeType (snd (cols ! j))"
      using Suc.prems(3,5) i by (simp add: nth_list_update cell_field_def)
  qed (use Suc.prems in auto)
  finally show ?case using i Suc.prems(3) by (simp add: list_update_front upt_conv_Cons)
qed simp

lemma row_fields_nth:
  "length cells = length cols \<Longrightarrow> row_fields lower cols cells = map (\<lambda>j. cell_field lower (cols ! j) (cells ! j)) [0..<length cols]"
  unfolding row_fields_def by (rule nth_equalityI) auto

text \<open>The state of a result of which \<open>rows\<close> are not yet fetched.\<close>

definition result_ok :: "(string option \<times> enum_field_types) list \<Rightarrow> string option list list \<Rightarrow> QueryResult \<Rightarrow> bool" where
  "result_ok cols rows q \<longleftrightarrow>
     length cols < 2 ^ 32 \<and> unat (m_FieldCount q) = length cols \<and> m_FiledNames q = index_names cols (length cols) \<and>
     m_Result q = Some \<lparr>res_fields = cols, res_rows = rows\<rparr> \<and> (\<forall>cells \<in> set rows. length cells = length cols) \<and>
     (\<exists>row. m_CurrentRow q = Some row \<and> map m_Type row = map (convertNativeType \<circ> snd) cols)"

lemma map_types_nth:
  "map m_Type row = map (convertNativeType \<circ> snd) cols \<Longrightarrow>
   length row = length cols \<and> (\<forall>j < length cols. m_Type (row ! j) = convertNativeType (snd (cols ! j)))"
  by (metis comp_apply length_map nth_map)

lemma row_fields_types: "length cells = length cols \<Longrightarrow> map m_Type (row_fields lower cols cells) = map (convertNativeType \<circ> snd) cols"
  by (rule nth_equalityI) (auto simp: row_fields_nth cell_field_def)

lemma nextRow_row:
  assumes "result_ok cols (cells # rows) q"
  shows "\<exists>q'. nextRow lower q = Inr (True, q') \<and> result_ok cols rows q' \<and> fetch q' = Some (row_fields lower cols cells)"
proof -
  obtain row where row: "m_CurrentRow q = Some row" "map m_Type row = map (convertNativeType \<circ> snd) cols"
    using assms by (auto simp: result_ok_def)
  have len: "length cells = length cols" "length cols < 2 ^ 32" using assms by (auto simp: result_ok_def)
  have "nextRow_fields lower (length cols) 0 cells row (index_names cols (length cols)) =
      Inr (row_fields lower cols cells, index_names cols (length cols))"
    using nextRow_fields_result[of "length cols" 0 cols row cells lower] len map_types_nth[OF row(2)]
    by (simp add: row_fields_nth)
  then have "nextRow lower q = Inr (True, q\<lparr>m_Result := Some \<lparr>res_fields = cols, res_rows = rows\<rparr>,
      m_CurrentRow := Some (row_fields lower cols cells), m_FiledNames := index_names cols (length cols)\<rparr>)"
    using assms row(1) by (simp add: nextRow_def result_ok_def)
  then show ?thesis using assms row_fields_types[OF len(1)] by (auto simp: result_ok_def fetch_def)
qed

lemma nextRow_end:
  assumes "result_ok cols [] q"
  shows "nextRow lower q = Inr (False, endQuery q) \<and> nextRow lower (endQuery q) = Inr (False, endQuery q)"
  using assms by (auto simp: result_ok_def nextRow_def endQuery_def Let_def)

lemma read_rows_all:
  "result_ok cols rows q \<Longrightarrow> length rows < n \<Longrightarrow>
   \<exists>q'. read_rows lower n q = Inr (Some (map (\<lambda>cells. Some (row_fields lower cols cells)) rows, q')) \<and>
        fetch q' = None \<and> nextRow lower q' = Inr (False, q')"
proof (induction rows arbitrary: q n)
  case Nil
  then obtain m where "n = Suc m" by (cases n) auto
  moreover have "fetch (endQuery q) = None" by (simp add: fetch_def endQuery_def Let_def)
  ultimately show ?case using nextRow_end[OF Nil.prems(1)] by simp
next
  case (Cons cells rows)
  then obtain m where n: "n = Suc m" by (cases n) auto
  obtain q1 where q1: "nextRow lower q = Inr (True, q1)" "result_ok cols rows q1" "fetch q1 = Some (row_fields lower cols cells)"
    using nextRow_row[OF Cons.prems(1)] by blast
  show ?case using Cons.IH[OF q1(2), of m] Cons.prems(2) q1(1,3) n by auto
qed

lemma QueryResult_new_ok:
  assumes "length cols < 2 ^ 32" "\<forall>cells \<in> set rows. length cells = length cols"
  shows "\<exists>q. QueryResult_new \<lparr>res_fields = cols, res_rows = rows\<rparr> rc (word_of_nat (length cols)) = Inr q \<and>
    result_ok cols rows q \<and> getNames q = map column_name cols"
proof -
  let ?n = "length cols"
  have n: "unat (word_of_nat ?n :: u32) = ?n" using assms(1) by (simp add: unat_of_nat_small)
  have "QueryResult_fields ?n 0 cols (replicate ?n Field_new) (index_names cols 0) [] =
    Inr (map (\<lambda>j. setType (convertNativeType (snd (cols ! j))) (replicate ?n Field_new ! j)) [0..<?n], index_names cols ?n, map column_name cols)"
    using QueryResult_fields_result[of ?n 0 cols "replicate ?n Field_new" "[]"] assms(1) by simp
  moreover have "index_names cols 0 = []" by (simp add: index_names_def)
  moreover have "map m_Type (map (\<lambda>j. setType (convertNativeType (snd (cols ! j))) (replicate ?n Field_new ! j)) [0..<?n]) =
      map (convertNativeType \<circ> snd) cols"
    by (rule nth_equalityI) (auto simp: setType_def)
  ultimately show ?thesis using assms n by (simp add: QueryResult_new_def result_ok_def getNames_def)
qed

text \<open>C21. Reading a query result row by row delivers every row of the result once and in order: each
  value with its bytes, a null as the empty string with the null mark set, the type of its column
  and the column's name in lower case; then \<open>nextRow\<close> answers false, the row and the handle are
  released, and it keeps answering false.\<close>

theorem nextRow_delivers_all_rows:
  assumes "length cols < 2 ^ 32" and "\<forall>cells \<in> set rows. length cells = length cols" and "length rows < n"
  shows "\<exists>q q'. QueryResult_new \<lparr>res_fields = cols, res_rows = rows\<rparr> rc (word_of_nat (length cols)) = Inr q \<and>
    getNames q = map column_name cols \<and>
    read_rows lower n q = Inr (Some (map (\<lambda>cells. Some (row_fields lower cols cells)) rows, q')) \<and>
    fetch q' = None \<and> nextRow lower q' = Inr (False, q')"
  using QueryResult_new_ok[OF assms(1,2), of rc] read_rows_all[OF _ assms(3)] by blast

theorem nextRow_delivers_all_rows_witness:
  "\<exists>q q'. QueryResult_new \<lparr>res_fields = [(Some ''id'', FIELD_TYPE_LONG), (Some ''nick'', FIELD_TYPE_VAR_STRING)],
       res_rows = [[Some ''7'', Some ''ka''], [Some ''8'', None]]\<rparr> 2 (word_of_nat 2) = Inr q \<and>
     getNames q = [''id'', ''nick''] \<and>
     read_rows id 3 q = Inr (Some ([Some [\<lparr>m_NULL = Some False, m_FieldName = ''id'', m_Value = ''7'', m_Type = DB_TYPE_INTEGER\<rparr>,
         \<lparr>m_NULL = Some False, m_FieldName = ''nick'', m_Value = ''ka'', m_Type = DB_TYPE_STRING\<rparr>],
       Some [\<lparr>m_NULL = Some False, m_FieldName = ''id'', m_Value = ''8'', m_Type = DB_TYPE_INTEGER\<rparr>,
         \<lparr>m_NULL = Some True, m_FieldName = ''nick'', m_Value = '''', m_Type = DB_TYPE_STRING\<rparr>]], q')) \<and>
     nextRow id q' = Inr (False, q')"
proof -
  let ?cols = "[(Some ''id'', FIELD_TYPE_LONG), (Some ''nick'', FIELD_TYPE_VAR_STRING)]"
  have "map column_name ?cols = [''id'', ''nick'']" by (simp add: column_name_def c_str_def)
  then show ?thesis
    using nextRow_delivers_all_rows[of ?cols "[[Some ''7'', Some ''ka''], [Some ''8'', None]]" 3 2 id]
    by (auto simp: row_fields_def cell_field_def column_name_def c_str_def)
qed

section \<open>Finding a column\<close>

lemma names_search:
  "i < length cols \<Longrightarrow> distinct (map column_name cols) \<Longrightarrow>
   dropWhile (\<lambda>e. snd e \<noteq> column_name (cols ! i)) (index_names cols (length cols)) =
   drop i (index_names cols (length cols))"
proof -
  assume i: "i < length cols" and d: "distinct (map column_name cols)"
  let ?m = "index_names cols (length cols)"
  let ?P = "\<lambda>e. snd e \<noteq> column_name (cols ! i)"
  have len: "length ?m = length cols" by (simp add: index_names_def)
  have "\<forall>e \<in> set (take i ?m). ?P e"
  proof
    fix e assume "e \<in> set (take i ?m)"
    then obtain j where "j < i" "e = (word_of_nat j, column_name (cols ! j))"
      using i by (auto simp: index_names_def in_set_conv_nth)
    then show "?P e" using d i by (simp add: distinct_conv_nth)
  qed
  then have "dropWhile ?P (take i ?m @ drop i ?m) = dropWhile ?P (drop i ?m)"
    using dropWhile_append2[of "take i ?m" ?P "drop i ?m"] by simp
  also have "\<dots> = drop i ?m"
  proof -
    have "drop i ?m = ?m ! i # drop (Suc i) ?m" using i len by (simp add: Cons_nth_drop_Suc)
    moreover have "\<not> ?P (?m ! i)" using i by (simp add: index_names_def)
    ultimately obtain e rest where e: "drop i ?m = e # rest" "\<not> ?P e" by blast
    show ?thesis unfolding e(1) using e(2) by simp
  qed
  finally show ?thesis by simp
qed

text \<open>With distinct column names the operator \<open>[]\<close> on a name finds the field of that column, in every
  row; a name that no column has, the lower case form that the fields themselves report included,
  gives the first column.\<close>

theorem column_lookup:
  assumes "result_ok cols rows q"
  shows "(i < length cols \<and> distinct (map column_name cols) \<longrightarrow>
            getField_idx (column_name (cols ! i)) q = word_of_nat i \<and> at_name (column_name (cols ! i)) q = at_index (int i) q) \<and>
         (name \<notin> set (map column_name cols) \<longrightarrow> getField_idx name q = 0 \<and> at_name name q = at_index 0 q)"
proof (intro conjI impI)
  have nm: "m_FiledNames q = index_names cols (length cols)" and n: "length cols < 2 ^ 32"
    using assms by (auto simp: result_ok_def)
  {
    assume a: "i < length cols \<and> distinct (map column_name cols)"
    then have "drop i (index_names cols (length cols)) = (word_of_nat i, column_name (cols ! i)) # drop (Suc i) (index_names cols (length cols))"
      using Cons_nth_drop_Suc[of i "index_names cols (length cols)"] by (simp add: index_names_def)
    then have idx: "getField_idx (column_name (cols ! i)) q = word_of_nat i"
      using a nm names_search[of i cols] by (simp add: getField_idx_def)
    then show "getField_idx (column_name (cols ! i)) q = word_of_nat i" .
    have "unat (word_of_nat i :: u32) = i" by (rule unat_of_nat_small) (use a n in simp)
    then have "uint (word_of_nat i :: u32) = int i" by (simp add: uint_nat)
    then show "at_name (column_name (cols ! i)) q = at_index (int i) q" by (simp add: at_name_def idx)
  }
  assume "name \<notin> set (map column_name cols)"
  then have "\<forall>e \<in> set (index_names cols (length cols)). snd e \<noteq> name" by (auto simp: index_names_def)
  then have "dropWhile (\<lambda>e. snd e \<noteq> name) (index_names cols (length cols)) = []" by (simp add: dropWhile_eq_Nil_conv)
  then have idx: "getField_idx name q = 0" unfolding getField_idx_def nm by (metis list.simps(4))
  then show "getField_idx name q = 0" .
  show "at_name name q = at_index 0 q" by (simp add: at_name_def idx)
qed

definition demo_result :: QueryResult where
  "demo_result = \<lparr>m_CurrentRow = Some [\<lparr>m_NULL = Some False, m_FieldName = ''id'', m_Value = ''7'', m_Type = DB_TYPE_INTEGER\<rparr>,
       \<lparr>m_NULL = Some False, m_FieldName = ''nick'', m_Value = ''ka'', m_Type = DB_TYPE_STRING\<rparr>],
     m_FieldCount = 2, m_RowCount = 1, m_FiledNames = [(0, ''Id''), (1, ''Nick'')], m_FiledNameInVector = [''Id'', ''Nick''],
     m_Result = Some \<lparr>res_fields = [(Some ''Id'', FIELD_TYPE_LONG), (Some ''Nick'', FIELD_TYPE_VAR_STRING)], res_rows = []\<rparr>\<rparr>"

theorem column_lookup_witness:
  "at_name ''Nick'' demo_result = at_index 1 demo_result \<and> at_name ''nick'' demo_result = at_index 0 demo_result"
proof -
  let ?cols = "[(Some ''Id'', FIELD_TYPE_LONG), (Some ''Nick'', FIELD_TYPE_VAR_STRING)]"
  have names: "map column_name ?cols = [''Id'', ''Nick'']" by (simp add: column_name_def c_str_def)
  have "index_names ?cols (length ?cols) = [(0, ''Id''), (1, ''Nick'')]"
    by (simp add: index_names_def column_name_def c_str_def)
  then have ok: "result_ok ?cols [] demo_result" by (simp add: result_ok_def demo_result_def)
  have 1: "column_name (?cols ! 1) = ''Nick''" by (simp add: column_name_def c_str_def)
  show ?thesis using column_lookup[OF ok, of 1 "''nick''"] unfolding names 1 by simp
qed

section \<open>Numbers\<close>

lemma ucast_of_int64: "LENGTH('a::len) \<le> 64 \<Longrightarrow> ucast (word_of_int i :: 64 word) = (word_of_int i :: 'a word)"
  by (rule bit_word_eqI) (simp add: bit_simps)

text \<open>The text of a 64-bit integer, as the database sends it, is read back by every getter as that
  integer reduced to the getter's width: exactly, for the values the type has.\<close>

theorem field_numbers:
  assumes "m_Value f = show_int i" and "- (2 ^ 63) \<le> i" and "i < 2 ^ 63"
  shows "getInt32Value f = Inr (word_of_int i) \<and> getUInt32Value f = Inr (word_of_int i) \<and>
         getUInt8Value f = Inr (word_of_int i) \<and> getUInt16Value f = Inr (word_of_int i) \<and>
         getInt16Value f = Inr (word_of_int i) \<and> getUInt64Value f = Inr (word_of_int i) \<and>
         (- (2 ^ 31) \<le> i \<and> i < 2 ^ 31 \<longrightarrow> map_sum id sint (getInt32Value f) = Inr i) \<and>
         (0 \<le> i \<and> i < 2 ^ 8 \<longrightarrow> map_sum id uint (getUInt8Value f) = Inr i)"
proof -
  have s: "sint (word_of_int i :: 32 word) = i" if "- (2 ^ 31) \<le> i" "i < 2 ^ 31"
    using that by (simp add: signed_of_int signed_take_bit_int_eq_self)
  have u: "uint (word_of_int i :: 8 word) = i" if "0 \<le> i" "i < 2 ^ 8"
    using that by (simp add: uint_word_of_int)
  show ?thesis
    using atol_show[OF assms(2,3)] s u
    by (simp add: assms(1) getInt32Value_def getUInt32Value_def getUInt8Value_def getUInt16Value_def getInt16Value_def
        getUInt64Value_def ucast_of_int64)
qed

theorem field_numbers_witness:
  "map_sum id sint (getInt32Value (Field_of_value ''-70000'' DB_TYPE_INTEGER)) = Inr (-70000) \<and>
   getUInt8Value (Field_of_value ''-70000'' DB_TYPE_INTEGER) = Inr 144"
proof -
  have "show_int (- 70000) = ''-70000''" by (simp add: show_int_def show_nat_small show_nat_step digit_char_def) code_simp
  moreover have "m_Value (Field_of_value ''-70000'' DB_TYPE_INTEGER) = ''-70000''" by (simp add: Field_of_value_def c_str_def)
  ultimately have v: "m_Value (Field_of_value ''-70000'' DB_TYPE_INTEGER) = show_int (- 70000)" by simp
  have w: "(word_of_int (- 70000) :: 8 word) = 144" by simp
  have "- (2 ^ 31) \<le> (- 70000 :: int) \<and> (- 70000 :: int) < 2 ^ 31" "- (2 ^ 63) \<le> (- 70000 :: int)" "(- 70000 :: int) < 2 ^ 63"
    by simp_all
  then show ?thesis using field_numbers[OF v] unfolding w by blast
qed


section \<open>Types of the fields\<close>

text \<open>The results a caller can hold: made by a query and changed by \<open>nextRow\<close> and \<open>endQuery\<close>.\<close>

inductive result_reach :: "(string \<Rightarrow> string) \<Rightarrow> (string option \<times> enum_field_types) list \<Rightarrow> QueryResult \<Rightarrow> bool" for lower cols where
  rr_new: "length cols < 2 ^ 32 \<Longrightarrow> \<forall>cells \<in> set rows. length cells = length cols \<Longrightarrow>
    QueryResult_new \<lparr>res_fields = cols, res_rows = rows\<rparr> rc (word_of_nat (length cols)) = Inr q \<Longrightarrow> result_reach lower cols q"
| rr_next: "result_reach lower cols q \<Longrightarrow> nextRow lower q = Inr (got, q') \<Longrightarrow> result_reach lower cols q'"
| rr_end: "result_reach lower cols q \<Longrightarrow> result_reach lower cols (endQuery q)"

definition released :: "QueryResult \<Rightarrow> bool" where
  "released q \<longleftrightarrow> m_CurrentRow q = None \<and> m_Result q = None"

lemma endQuery_released: "released (endQuery q)"
  by (simp add: released_def endQuery_def Let_def)

lemma nextRow_released: "released q \<Longrightarrow> nextRow lower q = Inr (False, q)"
  by (simp add: released_def nextRow_def)

lemma nextRow_typed:
  assumes "result_ok cols rows q"
  shows "\<exists>got q'. nextRow lower q = Inr (got, q') \<and> ((\<exists>rows'. result_ok cols rows' q') \<or> released q')"
  using assms nextRow_row[of cols _ _ q lower] nextRow_end[of cols q lower] endQuery_released[of q]
  by (cases rows) blast+

lemma result_reach_typed: "result_reach lower cols q \<Longrightarrow> (\<exists>rows. result_ok cols rows q) \<or> released q"
proof (induction rule: result_reach.induct)
  case (rr_new rows rc q)
  then show ?case using QueryResult_new_ok[OF rr_new(1,2), of rc] by auto
next
  case (rr_next q got q')
  then show ?case using nextRow_typed[of cols _ q lower] nextRow_released[of q lower] by fastforce
next
  case (rr_end q)
  then show ?case using endQuery_released by blast
qed

text \<open>C22. Query results are well typed. In every state a caller can bring a result to, \<open>nextRow\<close> has a defined
  end; a result that is not released has a row of exactly one field per column, each of the type its
  column's native type converts to, so that every index below the field count, and no other, gives a
  field; and a result that is released has no row, no field, and no further one.\<close>

theorem result_stays_typed:
  assumes "result_reach lower cols q"
  shows "(\<exists>got q'. nextRow lower q = Inr (got, q')) \<and>
    (case fetch q of
       None \<Rightarrow> nextRow lower q = Inr (False, q) \<and> at_index i q = Inl Undefined_Behaviour
     | Some row \<Rightarrow> map getType row = map (convertNativeType \<circ> snd) cols \<and> unat (getFieldCount q) = length row \<and>
         ((\<exists>f. at_index i q = Inr f \<and> getType f = convertNativeType (snd (cols ! nat i))) \<longleftrightarrow> 0 \<le> i \<and> i < uint (getFieldCount q)))"
  using result_reach_typed[OF assms]
proof
  assume "\<exists>rows. result_ok cols rows q"
  then obtain rows row where ok: "result_ok cols rows q" and row: "m_CurrentRow q = Some row"
      "map m_Type row = map (convertNativeType \<circ> snd) cols" "unat (m_FieldCount q) = length cols"
    by (auto simp: result_ok_def)
  note ty = map_types_nth[OF row(2)]
  have "uint (m_FieldCount q) = int (length row)" using row(3) ty by (metis uint_nat)
  then show ?thesis
    using nextRow_typed[OF ok, of lower] row ty
    by (auto simp: fetch_def getType_def at_index_def getFieldCount_def nat_less_iff cong: map_cong)
next
  assume "released q"
  then show ?thesis using nextRow_released[of q lower] by (auto simp: released_def fetch_def at_index_def)
qed


theorem result_stays_typed_witness:
  "\<exists>q row f. QueryResult_new \<lparr>res_fields = [(Some ''id'', FIELD_TYPE_LONG), (Some ''nick'', FIELD_TYPE_BLOB)], res_rows = [[Some ''7'', None]]\<rparr> 1
      (word_of_nat 2) = Inr q \<and> fetch q = Some row \<and> map getType row = [DB_TYPE_INTEGER, DB_TYPE_STRING] \<and>
    at_index 1 q = Inr f \<and> getType f = DB_TYPE_STRING"
proof -
  let ?cols = "[(Some ''id'', FIELD_TYPE_LONG), (Some ''nick'', FIELD_TYPE_BLOB)]" and ?rows = "[[Some ''7'', None]] :: string option list list"
  have wf: "length ?cols < 2 ^ 32" "\<forall>cells \<in> set ?rows. length cells = length ?cols" by simp_all
  obtain q where q: "QueryResult_new \<lparr>res_fields = ?cols, res_rows = ?rows\<rparr> 1 (word_of_nat (length ?cols)) = Inr q"
    and ok: "result_ok ?cols ?rows q"
    using QueryResult_new_ok[OF wf, of 1] by blast
  obtain row where row: "fetch q = Some row" "unat (m_FieldCount q) = length ?cols" using ok by (auto simp: result_ok_def fetch_def)
  have "0 \<le> (1 :: int) \<and> 1 < uint (getFieldCount q)" using row(2) by (simp add: getFieldCount_def uint_nat)
  moreover from result_stays_typed[OF rr_new[OF wf q], of id 1] row(1)
  have "map getType row = [DB_TYPE_INTEGER, DB_TYPE_STRING] \<and>
      ((\<exists>f. at_index 1 q = Inr f \<and> getType f = DB_TYPE_STRING) \<longleftrightarrow> 0 \<le> (1 :: int) \<and> 1 < uint (getFieldCount q))"
    by simp
  ultimately show ?thesis using q row(1) by auto
qed

end
