(* ===== verification/ConnPools.thy ===== *)
theory ConnPools
  imports CLib "HOL-Library.Multiset"
begin

text \<open>
  The contract of a connection pool. A pool has a list of free connections, the number of
  connections it has made and a limit. A caller acquires a connection (or is told to wait, or gets
  none because no connection can be made) and gives it back. Under the laws of the locale no
  connection is ever with two callers, or with a caller and in the list, and the connections in
  use and in the list are together the number made.
\<close>

datatype 'c acquired = Acq_conn 'c | Acq_null | Acq_wait

text \<open>Connections are objects of the heap, a list of addresses with what they hold. \<open>new\<close> takes the wished
  address when it is unused and an unused address otherwise.\<close>

definition new_ptr :: "nat \<Rightarrow> (nat \<times> 'c) list \<Rightarrow> nat" where
  "new_ptr wish h = (if wish \<in> fst ` set h then Suc (fold max (map fst h) 0) else wish)"

lemma fold_max_ge: "(m :: nat) \<le> fold max xs m \<and> (\<forall>x \<in> set xs. x \<le> fold max xs m)"
proof (induction xs arbitrary: m)
  case (Cons x xs)
  show ?case using Cons.IH[of "max x m"] by auto
qed simp

lemma new_ptr_fresh: "new_ptr wish h \<notin> fst ` set h"
proof (cases "wish \<in> fst ` set h")
  case True
  have "Suc (fold max (map fst h) 0) \<notin> fst ` set h"
  proof
    assume "Suc (fold max (map fst h) 0) \<in> fst ` set h"
    then have "Suc (fold max (map fst h) 0) \<in> set (map fst h)" by simp
    then have "Suc (fold max (map fst h) 0) \<le> fold max (map fst h) 0" using fold_max_ge[of 0 "map fst h"] by blast
    then show False by simp
  qed
  then show ?thesis using True by (simp add: new_ptr_def)
qed (simp add: new_ptr_def)

text \<open>What callers do: acquire, with \<open>'a\<close> the circumstances of the call, give back the \<open>n\<close>-th of the
  connections in use, or give back once more a connection they have given back before.\<close>

datatype ('a, 'c) pool_op = Acquire 'a | Give_back nat | Give_again 'c

text \<open>A pool and the connections in use, and a sequence of calls on it.\<close>

fun pool_step :: "('a \<Rightarrow> 'p \<Rightarrow> 'c acquired \<times> 'p) \<Rightarrow> ('c \<Rightarrow> 'p \<Rightarrow> 'p) \<Rightarrow> ('a, 'c) pool_op \<Rightarrow> 'p \<times> 'c list \<Rightarrow> 'p \<times> 'c list" where
  "pool_step acquire release (Acquire a) (p, lent) =
     (case acquire a p of (Acq_conn c, p') \<Rightarrow> (p', lent @ [c]) | (_, p') \<Rightarrow> (p', lent))"
| "pool_step acquire release (Give_back n) (p, lent) =
     (if n < length lent then (release (lent ! n) p, take n lent @ drop (Suc n) lent) else (p, lent))"
| "pool_step acquire release (Give_again c) (p, lent) = (release c p, lent)"

primrec pool_run :: "('a \<Rightarrow> 'p \<Rightarrow> 'c acquired \<times> 'p) \<Rightarrow> ('c \<Rightarrow> 'p \<Rightarrow> 'p) \<Rightarrow> ('a, 'c) pool_op list \<Rightarrow> 'p \<times> 'c list \<Rightarrow> 'p \<times> 'c list" where
  "pool_run acquire release [] s = s"
| "pool_run acquire release (x # xs) s = pool_run acquire release xs (pool_step acquire release x s)"

text \<open>Callers may give a connection back more than once as long as it has not been lent again.\<close>

primrec no_stale :: "('p \<Rightarrow> 'c list) \<Rightarrow> ('a \<Rightarrow> 'p \<Rightarrow> 'c acquired \<times> 'p) \<Rightarrow> ('c \<Rightarrow> 'p \<Rightarrow> 'p) \<Rightarrow> ('a, 'c) pool_op list \<Rightarrow> 'p \<times> 'c list \<Rightarrow> bool" where
  "no_stale free acquire release [] s = True"
| "no_stale free acquire release (x # xs) s =
     ((case x of Give_again c \<Rightarrow> c \<in> set (free (fst s)) | _ \<Rightarrow> True) \<and>
      no_stale free acquire release xs (pool_step acquire release x s))"

locale conn_pool =
  fixes ok :: "'p \<Rightarrow> bool" and free :: "'p \<Rightarrow> 'c list" and made :: "'p \<Rightarrow> int" and limit :: "'p \<Rightarrow> int"
    and live :: "'p \<Rightarrow> 'c set"
    and acquire :: "'a \<Rightarrow> 'p \<Rightarrow> 'c acquired \<times> 'p" and release :: "'c \<Rightarrow> 'p \<Rightarrow> 'p"
  assumes ok_acquire: "ok p \<Longrightarrow> ok (snd (acquire a p))"
    and ok_release: "ok p \<Longrightarrow> ok (release c p)"
    and limit_acquire: "limit (snd (acquire a p)) = limit p"
    and release_same: "made (release c p) = made p" "limit (release c p) = limit p" "live (release c p) = live p"
    and acquire_free: "free p = c # cs \<Longrightarrow>
      fst (acquire a p) = Acq_conn c \<and> free (snd (acquire a p)) = cs \<and> made (snd (acquire a p)) = made p \<and>
      live (snd (acquire a p)) = live p"
    and acquire_full: "free p = [] \<Longrightarrow> limit p \<le> made p \<Longrightarrow> acquire a p = (Acq_wait, p)"
    and acquire_new: "ok p \<Longrightarrow> free p = [] \<Longrightarrow> made p < limit p \<Longrightarrow>
      (fst (acquire a p) = Acq_null \<and> free (snd (acquire a p)) = [] \<and> made (snd (acquire a p)) = made p \<and>
       live (snd (acquire a p)) = live p) \<or>
      (\<exists>c. fst (acquire a p) = Acq_conn c \<and> free (snd (acquire a p)) = [] \<and> made (snd (acquire a p)) = made p + 1 \<and>
       c \<notin> live p \<and> live (snd (acquire a p)) = insert c (live p))"
    and release_free: "free (release c p) = (if c \<in> set (free p) then free p else free p @ [c])"
begin

definition pool_inv :: "'p \<times> 'c list \<Rightarrow> bool" where
  "pool_inv s \<longleftrightarrow> ok (fst s) \<and> distinct (free (fst s) @ snd s) \<and> set (free (fst s) @ snd s) \<subseteq> live (fst s) \<and>
     int (length (free (fst s) @ snd s)) = made (fst s)"

lemma acquire_inv: "pool_inv (p, lent) \<Longrightarrow> pool_inv (pool_step acquire release (Acquire a) (p, lent))"
proof (cases "free p")
  case (Cons c cs)
  moreover assume "pool_inv (p, lent)"
  ultimately show ?thesis
    using acquire_free[OF Cons, of a] ok_acquire[of p a]
    by (cases "acquire a p") (auto simp: pool_inv_def)
next
  case Nil
  moreover assume inv: "pool_inv (p, lent)"
  moreover have "ok p" using inv by (simp add: pool_inv_def)
  ultimately show ?thesis
  proof (cases "limit p \<le> made p")
    case True
    then show ?thesis using inv acquire_full[OF Nil] by simp
  next
    case False
    then show ?thesis
      using inv Nil acquire_new[OF \<open>ok p\<close> Nil, of a] ok_acquire[OF \<open>ok p\<close>, of a]
      by (cases "acquire a p") (auto simp: pool_inv_def)
  qed
qed

lemma mem_split: "n < length lent \<Longrightarrow> lent = take n lent @ lent ! n # drop (Suc n) lent"
  by (simp add: id_take_nth_drop)

lemma release_inv: "pool_inv (p, lent) \<Longrightarrow> pool_inv (pool_step acquire release (Give_back n) (p, lent))"
proof (cases "n < length lent")
  case True
  define a c b where "a = take n lent" and "c = lent ! n" and "b = drop (Suc n) lent"
  have lent: "lent = a @ c # b" using mem_split[OF True] by (simp add: a_def b_def c_def)
  assume inv: "pool_inv (p, lent)"
  then have "c \<notin> set (free p)" by (auto simp: pool_inv_def lent)
  moreover have "pool_step acquire release (Give_back n) (p, lent) = (release c p, a @ b)"
    using True by (simp add: a_def b_def c_def)
  ultimately show ?thesis
    using inv ok_release[of p c] release_same[of c p] release_free[of c p]
    by (auto simp: pool_inv_def lent)
qed simp

lemma again_inv: "pool_inv (p, lent) \<Longrightarrow> c \<in> set (free p) \<Longrightarrow> pool_inv (pool_step acquire release (Give_again c) (p, lent))"
  using ok_release[of p c] release_same[of c p] release_free[of c p] by (simp add: pool_inv_def)

lemma step_inv:
  "pool_inv s \<Longrightarrow> (case x of Give_again c \<Rightarrow> c \<in> set (free (fst s)) | _ \<Rightarrow> True) \<Longrightarrow> pool_inv (pool_step acquire release x s)"
  using acquire_inv release_inv again_inv by (cases s; cases x) auto

lemma step_limit: "limit (fst (pool_step acquire release x s)) = limit (fst s)"
proof (cases s)
  case (Pair p lent)
  then show ?thesis
  proof (cases x)
    case (Acquire a)
    then show ?thesis using Pair limit_acquire[of a p] by (auto split: prod.splits acquired.splits)
  qed (simp_all add: Pair release_same)
qed

lemma step_made: "ok (fst s) \<Longrightarrow> made (fst (pool_step acquire release x s)) \<le> max (made (fst s)) (limit (fst s))"
proof (cases s)
  case (Pair p lent)
  assume okp: "ok (fst s)"
  show ?thesis
  proof (cases x)
    case (Acquire a)
    show ?thesis
    proof (cases "free p")
      case Nil
      then show ?thesis using okp Pair Acquire acquire_full[OF Nil, of a] acquire_new[OF _ Nil, of a]
        by (cases "limit p \<le> made p"; cases "acquire a p") auto
    next
      case (Cons c cs)
      then show ?thesis using Pair Acquire acquire_free[OF Cons, of a] by (cases "acquire a p") auto
    qed
  qed (simp_all add: Pair release_same)
qed

text \<open>The contract, after any sequence of calls. A connection that is given back while another caller has it
  is then with that caller and in the list.\<close>

lemma run_inv:
  "pool_inv s \<Longrightarrow> no_stale free acquire release xs s \<Longrightarrow>
   pool_inv (pool_run acquire release xs s) \<and> limit (fst (pool_run acquire release xs s)) = limit (fst s) \<and>
   made (fst (pool_run acquire release xs s)) \<le> max (made (fst s)) (limit (fst s))"
proof (induction xs arbitrary: s)
  case (Cons x xs)
  have "ok (fst s)" using Cons.prems by (simp add: pool_inv_def)
  moreover have "pool_inv (pool_step acquire release x s)" using Cons.prems by (intro step_inv) simp_all
  ultimately show ?case using Cons.IH[of "pool_step acquire release x s"] Cons.prems(2) step_limit[of x s] step_made[of s x] by auto
qed simp

lemma run_distinct:
  "pool_inv s \<Longrightarrow> no_stale free acquire release xs s \<Longrightarrow> pool_run acquire release xs s = (p, lent) \<Longrightarrow>
   distinct lent \<and> set lent \<inter> set (free p) = {} \<and>
   int (length lent) + int (length (free p)) \<le> max (made (fst s)) (limit (fst s)) \<and>
   (\<forall>c \<in> set (free p). free (release c p) = free p) \<and> (\<forall>c \<in> set lent. free (release c p) = free p @ [c])"
  using run_inv[of s xs] by (auto simp: pool_inv_def release_free)

end

section \<open>Threads that share a pool\<close>

text \<open>The threads that use a pool. All of \<open>acquire\<close> and \<open>release\<close> runs under the pool's mutex, so each is one
  step; a wait on the condition variable gives the mutex up and the thread, once awake, tests again.
  It is woken by a release, which notifies all, or spuriously. A thread uses the connection it holds
  without the mutex: \<open>usage\<close> says what such a use may change.\<close>

datatype 'c client = Idle | Calling | Asleep | Holding 'c

definition notify_all :: "'c client list \<Rightarrow> 'c client list" where
  "notify_all ts = map (\<lambda>x. if x = Asleep then Calling else x) ts"

definition held :: "'c client list \<Rightarrow> 'c list" where
  "held ts = concat (map (\<lambda>x. case x of Holding c \<Rightarrow> [c] | _ \<Rightarrow> []) ts)"

inductive client_step :: "('a \<Rightarrow> 'p \<Rightarrow> 'c acquired \<times> 'p) \<Rightarrow> ('c \<Rightarrow> 'p \<Rightarrow> 'p) \<Rightarrow> ('c \<Rightarrow> 'p \<Rightarrow> 'p \<Rightarrow> bool) \<Rightarrow>
    'p \<times> 'c client list \<Rightarrow> 'p \<times> 'c client list \<Rightarrow> bool"
  for acquire release usage where
  cs_call: "t < length ts \<Longrightarrow> ts ! t = Idle \<Longrightarrow> client_step acquire release usage (p, ts) (p, ts[t := Calling])"
| cs_get: "t < length ts \<Longrightarrow> ts ! t = Calling \<Longrightarrow> acquire a p = (Acq_conn c, p') \<Longrightarrow>
    client_step acquire release usage (p, ts) (p', ts[t := Holding c])"
| cs_null: "t < length ts \<Longrightarrow> ts ! t = Calling \<Longrightarrow> acquire a p = (Acq_null, p') \<Longrightarrow>
    client_step acquire release usage (p, ts) (p', ts[t := Idle])"
| cs_wait: "t < length ts \<Longrightarrow> ts ! t = Calling \<Longrightarrow> acquire a p = (Acq_wait, p') \<Longrightarrow>
    client_step acquire release usage (p, ts) (p', ts[t := Asleep])"
| cs_spurious: "t < length ts \<Longrightarrow> ts ! t = Asleep \<Longrightarrow> client_step acquire release usage (p, ts) (p, ts[t := Calling])"
| cs_release: "t < length ts \<Longrightarrow> ts ! t = Holding c \<Longrightarrow>
    client_step acquire release usage (p, ts) (release c p, notify_all (ts[t := Idle]))"
| cs_use: "t < length ts \<Longrightarrow> ts ! t = Holding c \<Longrightarrow> usage c p p' \<Longrightarrow> client_step acquire release usage (p, ts) (p', ts)"

abbreviation client_steps :: "('a \<Rightarrow> 'p \<Rightarrow> 'c acquired \<times> 'p) \<Rightarrow> ('c \<Rightarrow> 'p \<Rightarrow> 'p) \<Rightarrow> ('c \<Rightarrow> 'p \<Rightarrow> 'p \<Rightarrow> bool) \<Rightarrow>
    'p \<times> 'c client list \<Rightarrow> 'p \<times> 'c client list \<Rightarrow> bool" where
  "client_steps acquire release usage \<equiv> (client_step acquire release usage)\<^sup>*\<^sup>*"

lemma steps_call: "t < length ts \<Longrightarrow> ts ! t = Idle \<Longrightarrow> client_steps acquire release usage (p, ts[t := Calling]) s \<Longrightarrow>
    client_steps acquire release usage (p, ts) s"
  by (rule converse_rtranclp_into_rtranclp) (rule cs_call)

lemma steps_get: "t < length ts \<Longrightarrow> ts ! t = Calling \<Longrightarrow> acquire a p = (Acq_conn c, p') \<Longrightarrow>
    client_steps acquire release usage (p', ts[t := Holding c]) s \<Longrightarrow> client_steps acquire release usage (p, ts) s"
  by (rule converse_rtranclp_into_rtranclp) (rule cs_get)

lemma steps_wait: "t < length ts \<Longrightarrow> ts ! t = Calling \<Longrightarrow> acquire a p = (Acq_wait, p') \<Longrightarrow>
    client_steps acquire release usage (p', ts[t := Asleep]) s \<Longrightarrow> client_steps acquire release usage (p, ts) s"
  by (rule converse_rtranclp_into_rtranclp) (rule cs_wait)

lemma mset_held_update:
  "t < length ts \<Longrightarrow> mset (held (ts[t := x])) + mset (held [ts ! t]) = mset (held ts) + mset (held [x])"
proof -
  assume t: "t < length ts"
  have "mset (held ts) = mset (held (take t ts)) + mset (held [ts ! t]) + mset (held (drop (Suc t) ts))"
    by (subst id_take_nth_drop[OF t]) (simp add: held_def)
  moreover have "mset (held (ts[t := x])) = mset (held (take t ts)) + mset (held [x]) + mset (held (drop (Suc t) ts))"
    using t by (simp add: upd_conv_take_nth_drop held_def)
  ultimately show ?thesis by (simp add: ac_simps)
qed

lemma held_simps [simp]: "held [] = []" "held [Idle] = []" "held [Calling] = []" "held [Asleep] = []" "held [Holding c] = [c]"
  by (simp_all add: held_def)

lemma held_notify [simp]: "held (notify_all ts) = held ts"
  by (induction ts) (auto simp: held_def notify_all_def split: client.split)

lemma held_replicate_Idle [simp]: "held (replicate n Idle) = []"
  by (induction n) (simp_all add: held_def)

lemma Asleep_notify [simp]: "Asleep \<notin> set (notify_all ts)"
  by (auto simp: notify_all_def split: if_splits)

lemma held_holder: "c \<in> set (held ts) \<longleftrightarrow> Holding c \<in> set ts"
  by (induction ts) (auto simp: held_def split: client.splits)

locale shared_pool = conn_pool ok free made limit live acquire release
  for ok :: "'p \<Rightarrow> bool" and free :: "'p \<Rightarrow> 'c list" and made :: "'p \<Rightarrow> int" and limit :: "'p \<Rightarrow> int"
    and live :: "'p \<Rightarrow> 'c set"
    and acquire :: "'a \<Rightarrow> 'p \<Rightarrow> 'c acquired \<times> 'p" and release :: "'c \<Rightarrow> 'p \<Rightarrow> 'p" +
  fixes usage :: "'c \<Rightarrow> 'p \<Rightarrow> 'p \<Rightarrow> bool"
  assumes usage_same: "usage c p p' \<Longrightarrow> free p' = free p" "usage c p p' \<Longrightarrow> made p' = made p"
      "usage c p p' \<Longrightarrow> limit p' = limit p" "usage c p p' \<Longrightarrow> live p' = live p"
    and usage_ok: "usage c p p' \<Longrightarrow> ok p \<Longrightarrow> ok p'"
begin

lemma pool_inv_mset: "mset xs = mset ys \<Longrightarrow> pool_inv (p, xs) \<longleftrightarrow> pool_inv (p, ys)"
proof -
  assume m: "mset xs = mset ys"
  then have "mset (free p @ xs) = mset (free p @ ys)" by simp
  from mset_eq_imp_distinct_iff[OF this] mset_eq_length[OF this] mset_eq_setD[OF this]
  show ?thesis by (simp add: pool_inv_def)
qed

text \<open>No thread sleeps while there is something to take: the notification is never lost.\<close>

definition client_inv :: "'p \<times> 'c client list \<Rightarrow> bool" where
  "client_inv s \<longleftrightarrow> pool_inv (fst s, held (snd s)) \<and>
     (Asleep \<in> set (snd s) \<longrightarrow> free (fst s) = [] \<and> limit (fst s) \<le> made (fst s))"

lemma acquire_outcome:
  assumes "pool_inv (p, lent)"
  shows "acquire a p = (Acq_conn c, p') \<Longrightarrow> pool_inv (p', lent @ [c]) \<and> \<not> (free p = [] \<and> limit p \<le> made p)"
    and "acquire a p = (Acq_null, p') \<Longrightarrow> pool_inv (p', lent) \<and> \<not> (free p = [] \<and> limit p \<le> made p)"
    and "acquire a p = (Acq_wait, p') \<Longrightarrow> p' = p \<and> free p = [] \<and> limit p \<le> made p"
proof -
  have step: "pool_inv (pool_step acquire release (Acquire a) (p, lent))" by (rule acquire_inv[OF assms])
  have ok: "ok p" using assms by (simp add: pool_inv_def)
  show "acquire a p = (Acq_conn c, p') \<Longrightarrow> pool_inv (p', lent @ [c]) \<and> \<not> (free p = [] \<and> limit p \<le> made p)"
    using step acquire_full[of p a] by auto
  show "acquire a p = (Acq_null, p') \<Longrightarrow> pool_inv (p', lent) \<and> \<not> (free p = [] \<and> limit p \<le> made p)"
    using step acquire_full[of p a] by auto
  show "acquire a p = (Acq_wait, p') \<Longrightarrow> p' = p \<and> free p = [] \<and> limit p \<le> made p"
    using acquire_full[of p a] acquire_free[of p _ _ a] acquire_new[OF ok, of a]
    by (cases "free p"; cases "limit p \<le> made p") auto
qed

lemma client_step_inv:
  assumes "client_step acquire release usage s s'" and "client_inv s"
  shows "client_inv s'"
  using assms
proof (induction rule: client_step.induct)
  case (cs_call t ts p)
  then show ?case using mset_held_update[of t ts Calling] pool_inv_mset[of "held (ts[t := Calling])" "held ts" p]
    set_update_subset_insert[of ts t Calling] by (auto simp: client_inv_def)
next
  case (cs_get t ts a p c p')
  have "mset (held (ts[t := Holding c])) = mset (held ts @ [c])"
    using mset_held_update[of t ts "Holding c"] cs_get(1,2) by simp
  then show ?case
    using acquire_outcome(1)[OF _ cs_get(3), of "held ts"] cs_get(4) pool_inv_mset[of "held (ts[t := Holding c])" "held ts @ [c]" p']
      set_update_subset_insert[of ts t "Holding c"] by (auto simp: client_inv_def)
next
  case (cs_null t ts a p p')
  have "mset (held (ts[t := Idle])) = mset (held ts)"
    using mset_held_update[of t ts Idle] cs_null(1,2) by simp
  then show ?case
    using acquire_outcome(2)[OF _ cs_null(3), of "held ts"] cs_null(4) pool_inv_mset[of "held (ts[t := Idle])" "held ts" p']
      set_update_subset_insert[of ts t Idle] by (auto simp: client_inv_def)
next
  case (cs_wait t ts a p p')
  have "mset (held (ts[t := Asleep])) = mset (held ts)"
    using mset_held_update[of t ts Asleep] cs_wait(1,2) by simp
  then show ?case
    using acquire_outcome(3)[OF _ cs_wait(3), of "held ts"] cs_wait(4) pool_inv_mset[of "held (ts[t := Asleep])" "held ts" p]
    by (auto simp: client_inv_def)
next
  case (cs_spurious t ts p)
  then show ?case using mset_held_update[of t ts Calling] pool_inv_mset[of "held (ts[t := Calling])" "held ts" p]
    set_update_subset_insert[of ts t Calling] by (auto simp: client_inv_def)
next
  case (cs_release t ts c p)
  have m: "mset (held ts) = mset (c # held (ts[t := Idle]))"
    using mset_held_update[of t ts Idle] cs_release(1,2) by simp
  have "pool_inv (p, c # held (ts[t := Idle]))" using cs_release(3) pool_inv_mset[OF m] by (simp add: client_inv_def)
  from release_inv[OF this, of 0] show ?case by (simp add: client_inv_def)
next
  case (cs_use t ts c p p')
  then show ?case using usage_same[OF cs_use(3)] usage_ok[OF cs_use(3)] by (simp add: client_inv_def pool_inv_def)
qed

lemma client_steps_inv: "client_steps acquire release usage s s' \<Longrightarrow> client_inv s \<Longrightarrow> client_inv s'"
  by (induction rule: rtranclp_induct) (auto intro: client_step_inv)

lemma client_steps_made: "client_steps acquire release usage s s' \<Longrightarrow> client_inv s \<Longrightarrow> made (fst s) \<le> made (fst s')"
proof (induction rule: rtranclp_induct)
  case (step s1 s2)
  have "client_inv s1" using client_steps_inv[OF step(1,4)] .
  then have ok: "ok (fst s1)" by (simp add: client_inv_def pool_inv_def)
  have acq: "made p \<le> made (snd (acquire a p))" if "ok p" for a p
    using that acquire_free[of p _ _ a] acquire_full[of p a] acquire_new[of p a]
    by (cases "free p"; cases "limit p \<le> made p") fastforce+
  have "made (fst s1) \<le> made (fst s2)"
    using step(2) ok
  proof (induction rule: client_step.induct)
    case (cs_get t ts a p c p') then show ?case using acq[of p a] by simp
  next
    case (cs_null t ts a p p') then show ?case using acq[of p a] by simp
  next
    case (cs_wait t ts a p p') then show ?case using acq[of p a] by simp
  next
    case (cs_use t ts c p p') then show ?case using usage_same[OF cs_use(3)] by simp
  qed (simp_all add: release_same)
  then show ?case using step by simp
qed simp

lemma client_steps_length: "client_steps acquire release usage s s' \<Longrightarrow> length (snd s') = length (snd s)"
  by (induction rule: rtranclp_induct) (auto elim!: client_step.cases simp: notify_all_def)

lemma sleeper_needs_holder:
  assumes "client_inv (p, ts)" "Asleep \<in> set ts" "0 < made p"
  shows "free p = [] \<and> limit p \<le> made p \<and> (\<exists>t c. t < length ts \<and> ts ! t = Holding c)"
proof -
  have "held ts \<noteq> []" using assms by (auto simp: client_inv_def pool_inv_def)
  then obtain c where "c \<in> set (held ts)" by (cases "held ts") auto
  then have "Holding c \<in> set ts" by (simp add: held_holder)
  then have "\<exists>t c. t < length ts \<and> ts ! t = Holding c" by (auto simp: in_set_conv_nth)
  then show ?thesis using assms by (simp add: client_inv_def)
qed

text \<open>A sleeping thread can always be served: a holder gives its connection back.\<close>

lemma sleeper_served:
  assumes inv: "client_inv (p, ts)" and t: "t < length ts" "ts ! t = Asleep" and made: "0 < made p"
  shows "\<exists>p' ts' c. client_steps acquire release usage (p, ts) (p', ts') \<and> ts' ! t = Holding c"
proof -
  have "Asleep \<in> set ts" using t nth_mem by metis
  from sleeper_needs_holder[OF inv this made] obtain u c where u: "free p = []" "u < length ts" "ts ! u = Holding c" by blast
  let ?ts1 = "notify_all (ts[u := Idle])"
  have s1: "client_step acquire release usage (p, ts) (release c p, ?ts1)" by (rule cs_release[OF u(2,3)])
  have ne: "u \<noteq> t" using t u by auto
  have c1: "t < length ?ts1" "?ts1 ! t = Calling" using t ne by (simp_all add: notify_all_def)
  have "free (release c p) = [c]" using release_free[of c p] u(1) by simp
  then obtain p2 where p2: "acquire undefined (release c p) = (Acq_conn c, p2)"
    using acquire_free[of "release c p" c "[]" undefined] by (cases "acquire undefined (release c p)") auto
  have "client_step acquire release usage (release c p, ?ts1) (p2, ?ts1[t := Holding c])" by (rule cs_get) (rule c1 p2)+
  with s1 have "client_steps acquire release usage (p, ts) (p2, ?ts1[t := Holding c])"
    by (meson converse_rtranclp_into_rtranclp r_into_rtranclp)
  moreover have "?ts1[t := Holding c] ! t = Holding c" using c1 by simp
  ultimately show ?thesis by blast
qed

lemma waiters_served:
  assumes "pool_inv (p0, [])" "0 < made p0" "client_steps acquire release usage (p0, replicate n Idle) (p, ts)"
    and "t < n" "ts ! t = Asleep"
  shows "free p = [] \<and> limit p \<le> made p \<and> int (length (held ts)) = made p \<and>
    (\<exists>p' ts' c. client_steps acquire release usage (p, ts) (p', ts') \<and> ts' ! t = Holding c)"
proof -
  have "client_inv (p0, replicate n Idle)" using assms(1) by (simp add: client_inv_def)
  from client_steps_inv[OF assms(3) this] client_steps_made[OF assms(3) this]
  have inv: "client_inv (p, ts)" and made: "0 < made p" using assms(2) by auto
  have t: "t < length ts" using client_steps_length[OF assms(3)] assms(4) by simp
  then have "Asleep \<in> set ts" using assms(5) nth_mem by metis
  then show ?thesis using sleeper_served[OF inv t assms(5) made] inv by (auto simp: client_inv_def pool_inv_def)
qed

end

end
