(* ===== verification/MysqlPools.thy ===== *)
theory MysqlPools
  imports QueryResults ConfigReader ConnPools
begin

text \<open>
  \<open>src/DataBase/KaMysql/KaDBManager.h\<close> and \<open>KaDBManager.cpp\<close>: a connection to the database, a pool of
  connections, and the manager of the pools. The MySQL client library is a record of its functions
  over the outside world, which is passed through them; a handle \<open>MYSQL*\<close> is a number. A pointer
  to a connection is an address of the heap, a list of addresses with what they hold; \<open>new\<close> takes
  the wished address when it is unused and some unused address otherwise, so every choice of an
  allocator is covered. A connection reads its pool's name and database through its pointer to the
  pool; these never change, and a connection keeps a copy of them.
\<close>

section \<open>The client library\<close>

record DatabaseInfo =
  strHost :: string
  db_Port :: u16
  strUser :: string
  strPwd :: string
  strDBName :: string

datatype mysql_option = MYSQL_OPT_RECONNECT bool | MYSQL_SET_CHARSET_NAME string

record 'w mysql_lib =
  mysql_init :: "'w \<Rightarrow> nat option \<times> 'w"
  mysql_options :: "nat \<Rightarrow> mysql_option \<Rightarrow> 'w \<Rightarrow> 'w"
  mysql_real_connect :: "nat \<Rightarrow> string \<Rightarrow> string \<Rightarrow> string \<Rightarrow> string \<Rightarrow> u16 \<Rightarrow> 'w \<Rightarrow> bool \<times> 'w"
  mysql_real_query :: "nat \<Rightarrow> string \<Rightarrow> 'w \<Rightarrow> int \<times> 'w"
  mysql_errno :: "nat \<Rightarrow> 'w \<Rightarrow> nat"
  mysql_store_result :: "nat \<Rightarrow> 'w \<Rightarrow> mysql_result option \<times> 'w"
  mysql_affected_rows :: "nat \<Rightarrow> 'w \<Rightarrow> u64"
  mysql_field_count :: "nat \<Rightarrow> 'w \<Rightarrow> u32"
  mysql_insert_id :: "nat \<Rightarrow> 'w \<Rightarrow> u64"
  mysql_next_result :: "nat \<Rightarrow> 'w \<Rightarrow> int \<times> 'w"

text \<open>The error number the library's header gives to a lost server.\<close>

definition CR_SERVER_GONE_ERROR :: nat where
  "CR_SERVER_GONE_ERROR = 2006"

section \<open>A connection\<close>

definition MAX_QUERY_LEN :: nat where
  "MAX_QUERY_LEN = 1024"

definition MIN_CONN_CNT :: int where
  "MIN_CONN_CNT = 2"

record pool_info =
  m_PoolName :: string
  m_DatabaseInfo :: DatabaseInfo

definition getPoolName :: "'a pool_info_scheme \<Rightarrow> string" where
  "getPoolName p = c_str (m_PoolName p)"

definition getDBServerIP :: "'a pool_info_scheme \<Rightarrow> string" where
  "getDBServerIP p = c_str (strHost (m_DatabaseInfo p))"

definition getDBServerPort :: "'a pool_info_scheme \<Rightarrow> u16" where
  "getDBServerPort p = db_Port (m_DatabaseInfo p)"

definition getUserName :: "'a pool_info_scheme \<Rightarrow> string" where
  "getUserName p = c_str (strUser (m_DatabaseInfo p))"

definition getPasswd :: "'a pool_info_scheme \<Rightarrow> string" where
  "getPasswd p = c_str (strPwd (m_DatabaseInfo p))"

definition getDBName :: "'a pool_info_scheme \<Rightarrow> string" where
  "getDBName p = c_str (strDBName (m_DatabaseInfo p))"

record KaDBConn =
  m_DBPool :: pool_info
  m_mysql :: "nat option"

definition KaDBConn_new :: "pool_info \<Rightarrow> KaDBConn" where
  "KaDBConn_new dbPool = \<lparr>m_DBPool = dbPool, m_mysql = None\<rparr>"

definition KaDBConn_Init :: "'w mysql_lib \<Rightarrow> KaDBConn \<Rightarrow> 'w \<Rightarrow> int \<times> KaDBConn \<times> 'w" where
  "KaDBConn_Init lib c w =
     (let (handle, w1) = mysql_init lib w; c1 = c\<lparr>m_mysql := handle\<rparr> in
      case handle of
        None \<Rightarrow> (-1, c1, w1)
      | Some h \<Rightarrow>
          (let w2 = mysql_options lib h (MYSQL_OPT_RECONNECT True) w1;
               w3 = mysql_options lib h (MYSQL_SET_CHARSET_NAME ''utf8mb4'') w2;
               pool = m_DBPool c;
               (connected, w4) = mysql_real_connect lib h (getDBServerIP pool) (getUserName pool) (getPasswd pool)
                 (getDBName pool) (getDBServerPort pool) w3
           in (if connected then 0 else -2, c1, w4)))"

text \<open>\<open>KaDBConn::query\<close>. \<open>query_result\<close> is its part after a successful \<open>mysql_real_query\<close>; a query result of
  \<open>None\<close> is the pointer \<open>NULL\<close>.\<close>

type_synonym 'w query_outcome = "cxx_error + (QueryResult option \<times> KaDBConn \<times> 'w)"

definition query_result :: "'w mysql_lib \<Rightarrow> nat \<Rightarrow> KaDBConn \<Rightarrow> 'w \<Rightarrow> 'w query_outcome" where
  "query_result lib h c w =
     (let (res, w1) = mysql_store_result lib h w;
          rowCount = mysql_affected_rows lib h w1;
          fieldCount = mysql_field_count lib h w1
      in case res of
           None \<Rightarrow> Inr (None, c, w1)
         | Some r \<Rightarrow> bind_r (QueryResult_new r rowCount fieldCount) (\<lambda>q. Inr (Some q, c, w1)))"

definition query_send :: "'w mysql_lib \<Rightarrow> string \<Rightarrow> nat \<Rightarrow> KaDBConn \<Rightarrow> 'w \<Rightarrow> 'w query_outcome" where
  "query_send lib sql h c w =
     (let (ret, w1) = mysql_real_query lib h sql w in
      if ret = 0 then query_result lib h c w1
      else if mysql_errno lib h w1 = CR_SERVER_GONE_ERROR then
        (let (ret1, c1, w2) = KaDBConn_Init lib c w1 in
         if ret1 \<noteq> 0 then Inr (None, c1, w2)
         else
           (case m_mysql c1 of
              None \<Rightarrow> Inl Undefined_Behaviour
            | Some h1 \<Rightarrow>
                (let (ret2, w3) = mysql_real_query lib h1 sql w2 in
                 if ret2 \<noteq> 0 then Inr (None, c1, w3) else query_result lib h1 c1 w3)))
      else Inr (None, c, w1))"

definition query :: "'w mysql_lib \<Rightarrow> string \<Rightarrow> KaDBConn \<Rightarrow> 'w \<Rightarrow> 'w query_outcome" where
  "query lib sql c w =
     (case m_mysql c of
        Some h \<Rightarrow> query_send lib (c_str sql) h c w
      | None \<Rightarrow>
          (let (ret, c1, w1) = KaDBConn_Init lib c w in
           if ret \<noteq> 0 then Inr (None, c1, w1)
           else
             (case m_mysql c1 of
                None \<Rightarrow> Inr (None, c1, w1)
              | Some h \<Rightarrow> query_send lib (c_str sql) h c1 w1)))"

definition query_string :: "'w mysql_lib \<Rightarrow> string \<Rightarrow> KaDBConn \<Rightarrow> 'w \<Rightarrow> 'w query_outcome" where
  "query_string lib sql c w = query lib (c_str sql) c w"

definition getMysql :: "KaDBConn \<Rightarrow> nat option" where
  "getMysql c = m_mysql c"

text \<open>\<open>pquery\<close>: \<open>format\<close> is \<open>None\<close> for \<open>NULL\<close>; \<open>msg\<close> is the text \<open>vsnprintf\<close> makes of it, \<open>None\<close> when it fails.\<close>

definition pquery :: "'w mysql_lib \<Rightarrow> string option \<Rightarrow> string option \<Rightarrow> KaDBConn \<Rightarrow> 'w \<Rightarrow> 'w query_outcome" where
  "pquery lib format msg c w =
     (if format = None then Inr (None, c, w)
      else (case msg of None \<Rightarrow> Inr (None, c, w) | Some s \<Rightarrow> query lib (snprintf_buf MAX_QUERY_LEN s) c w))"

definition execute :: "'w mysql_lib \<Rightarrow> string \<Rightarrow> KaDBConn \<Rightarrow> 'w \<Rightarrow> bool \<times> 'w" where
  "execute lib sql c w =
     (case m_mysql c of
        None \<Rightarrow> (False, w)
      | Some h \<Rightarrow> (let (ret, w1) = mysql_real_query lib h (c_str sql) w in (ret = 0, w1)))"

definition getInsertId :: "'w mysql_lib \<Rightarrow> KaDBConn \<Rightarrow> 'w \<Rightarrow> cxx_error + u32" where
  "getInsertId lib c w =
     (case m_mysql c of None \<Rightarrow> Inl Undefined_Behaviour | Some h \<Rightarrow> Inr (ucast (mysql_insert_id lib h w)))"

definition KaDBConn_getPoolName :: "KaDBConn \<Rightarrow> string" where
  "KaDBConn_getPoolName c = getPoolName (m_DBPool c)"

text \<open>\<open>escapeString\<close> has an empty body and no return statement.\<close>

definition escapeString :: "string \<Rightarrow> u32 \<Rightarrow> cxx_error + 32 word" where
  "escapeString szSrc uSize = Inl Undefined_Behaviour"

text \<open>The loop of \<open>clearStoreResults\<close> with \<open>n\<close> turns allowed; \<open>None\<close> is a loop not yet at its end. The
  result counts the stored results that are freed.\<close>

fun clear_loop :: "'w mysql_lib \<Rightarrow> nat \<Rightarrow> nat \<Rightarrow> 'w \<Rightarrow> (nat \<times> 'w) option" where
  "clear_loop lib h 0 w = None"
| "clear_loop lib h (Suc n) w =
     (let (more, w1) = mysql_next_result lib h w in
      if more \<noteq> 0 then Some (0, w1)
      else
        (let (res, w2) = mysql_store_result lib h w1 in
         map_option (\<lambda>(k, w3). (k + (if res = None then 0 else 1), w3)) (clear_loop lib h n w2)))"

definition clearStoreResults :: "'w mysql_lib \<Rightarrow> nat \<Rightarrow> KaDBConn \<Rightarrow> 'w \<Rightarrow> (nat \<times> 'w) option" where
  "clearStoreResults lib n c w =
     (case m_mysql c of None \<Rightarrow> Some (0, w) | Some h \<Rightarrow> clear_loop lib h n w)"

section \<open>The pool\<close>

record KaDBPool = pool_info +
  m_db_cur_conn_cnt :: int
  m_db_max_conn_cnt :: int
  m_free_list :: "nat list"

definition KaDBPool_new :: "string \<Rightarrow> string \<Rightarrow> u16 \<Rightarrow> string \<Rightarrow> string \<Rightarrow> string \<Rightarrow> int \<Rightarrow> KaDBPool" where
  "KaDBPool_new poolName ip port userName passwd dbName maxConn =
     \<lparr>m_PoolName = poolName,
      m_DatabaseInfo = \<lparr>strHost = ip, db_Port = port, strUser = userName, strPwd = passwd, strDBName = dbName\<rparr>,
      m_db_cur_conn_cnt = MIN_CONN_CNT, m_db_max_conn_cnt = maxConn, m_free_list = []\<rparr>"

type_synonym conn_heap = "(nat \<times> KaDBConn) list"

text \<open>A pool with the heap and the world.\<close>

record 'w db_state =
  st_pool :: KaDBPool
  st_heap :: conn_heap
  st_world :: 'w

text \<open>\<open>new KaDBConn(this)\<close> and \<open>Init\<close>; a connection whose \<open>Init\<close> fails is deleted again.\<close>

definition make_conn :: "'w mysql_lib \<Rightarrow> nat \<Rightarrow> 'w db_state \<Rightarrow> nat option \<times> 'w db_state" where
  "make_conn lib wish s =
     (let p = new_ptr wish (st_heap s);
          (ret, c, w) = KaDBConn_Init lib (KaDBConn_new (pool_info.truncate (st_pool s))) (st_world s)
      in if ret \<noteq> 0 then (None, s\<lparr>st_world := w\<rparr>)
         else (Some p, s\<lparr>st_world := w, st_heap := (p, c) # st_heap s\<rparr>))"

definition push_free :: "nat \<Rightarrow> 'w db_state \<Rightarrow> 'w db_state" where
  "push_free p s = s\<lparr>st_pool := (st_pool s)\<lparr>m_free_list := m_free_list (st_pool s) @ [p]\<rparr>\<rparr>"

text \<open>The loop of \<open>init\<close> with \<open>k\<close> turns left.\<close>

fun init_loop :: "'w mysql_lib \<Rightarrow> nat \<Rightarrow> nat list \<Rightarrow> 'w db_state \<Rightarrow> int \<times> 'w db_state" where
  "init_loop lib 0 wishes s = (0, s)"
| "init_loop lib (Suc k) wishes s =
     (case make_conn lib (case wishes of [] \<Rightarrow> 0 | x # _ \<Rightarrow> x) s of
        (None, s1) \<Rightarrow> (-1, s1)
      | (Some p, s1) \<Rightarrow> init_loop lib k (tl wishes) (push_free p s1))"

definition KaDBPool_init :: "'w mysql_lib \<Rightarrow> nat list \<Rightarrow> 'w db_state \<Rightarrow> int \<times> 'w db_state" where
  "KaDBPool_init lib wishes s = init_loop lib (nat (m_db_cur_conn_cnt (st_pool s))) wishes s"

text \<open>The last two statements of \<open>getKaConn\<close>, with a list that is not empty.\<close>

definition pop_free :: "'w db_state \<Rightarrow> nat acquired \<times> 'w db_state" where
  "pop_free s =
     (Acq_conn (hd (m_free_list (st_pool s))),
      s\<lparr>st_pool := (st_pool s)\<lparr>m_free_list := tl (m_free_list (st_pool s))\<rparr>\<rparr>)"

text \<open>\<open>getKaConn\<close>: with an empty list it waits when the limit is reached; otherwise the loop makes one
  connection, which ends it.\<close>

definition getKaConn :: "'w mysql_lib \<times> nat \<Rightarrow> 'w db_state \<Rightarrow> nat acquired \<times> 'w db_state" where
  "getKaConn a s =
     (if m_free_list (st_pool s) = [] then
        (if m_db_max_conn_cnt (st_pool s) \<le> m_db_cur_conn_cnt (st_pool s) then (Acq_wait, s)
         else
           (case make_conn (fst a) (snd a) s of
              (None, s1) \<Rightarrow> (Acq_null, s1)
            | (Some p, s1) \<Rightarrow>
                (let s2 = push_free p s1;
                     s3 = s2\<lparr>st_pool := (st_pool s2)\<lparr>m_db_cur_conn_cnt := m_db_cur_conn_cnt (st_pool s2) + 1\<rparr>\<rparr>
                 in pop_free s3)))
      else pop_free s)"

definition RelKaConn :: "nat \<Rightarrow> 'w db_state \<Rightarrow> 'w db_state" where
  "RelKaConn pConn s = (if pConn \<in> set (m_free_list (st_pool s)) then s else push_free pConn s)"

definition KaDBPool_delete :: "'w db_state \<Rightarrow> 'w db_state" where
  "KaDBPool_delete s =
     s\<lparr>st_heap := filter (\<lambda>(p, c). p \<notin> set (m_free_list (st_pool s))) (st_heap s),
       st_pool := (st_pool s)\<lparr>m_free_list := []\<rparr>\<rparr>"

section \<open>The contract of the pool\<close>

definition db_live :: "'w db_state \<Rightarrow> nat set" where
  "db_live s = fst ` set (st_heap s)"

definition db_free :: "'w db_state \<Rightarrow> nat list" where
  "db_free s = m_free_list (st_pool s)"

definition db_made :: "'w db_state \<Rightarrow> int" where
  "db_made s = m_db_cur_conn_cnt (st_pool s)"

definition db_limit :: "'w db_state \<Rightarrow> int" where
  "db_limit s = m_db_max_conn_cnt (st_pool s)"

definition db_ok :: "'w db_state \<Rightarrow> bool" where
  "db_ok s \<longleftrightarrow> distinct (map fst (st_heap s))"

lemmas db_view = db_live_def db_free_def db_made_def db_limit_def db_ok_def

lemma make_conn_cases:
  obtains (failed) w where "make_conn lib wish s = (None, s\<lparr>st_world := w\<rparr>)"
  | (made) p c w where "make_conn lib wish s = (Some p, s\<lparr>st_world := w, st_heap := (p, c) # st_heap s\<rparr>)" "p \<notin> db_live s"
proof -
  obtain ret c w where i: "KaDBConn_Init lib (KaDBConn_new (pool_info.truncate (st_pool s))) (st_world s) = (ret, c, w)"
    by (metis prod_cases3)
  show thesis
  proof (cases "ret = 0")
    case True
    show thesis by (rule made[of "new_ptr wish (st_heap s)" c w]) (simp_all add: True make_conn_def i Let_def db_live_def new_ptr_fresh)
  next
    case False
    show thesis by (rule failed[of w]) (simp add: False make_conn_def i Let_def)
  qed
qed

lemma getKaConn_free:
  "db_free s = c # cs \<Longrightarrow>
   fst (getKaConn a s) = Acq_conn c \<and> db_free (snd (getKaConn a s)) = cs \<and> db_made (snd (getKaConn a s)) = db_made s \<and>
   db_live (snd (getKaConn a s)) = db_live s"
  by (simp add: getKaConn_def pop_free_def db_view)

lemma getKaConn_new:
  assumes "db_free s = []" "db_made s < db_limit s"
  shows "(fst (getKaConn a s) = Acq_null \<and> db_free (snd (getKaConn a s)) = [] \<and> db_made (snd (getKaConn a s)) = db_made s \<and>
       db_live (snd (getKaConn a s)) = db_live s) \<or>
      (\<exists>c. fst (getKaConn a s) = Acq_conn c \<and> db_free (snd (getKaConn a s)) = [] \<and> db_made (snd (getKaConn a s)) = db_made s + 1 \<and>
       c \<notin> db_live s \<and> db_live (snd (getKaConn a s)) = insert c (db_live s))"
proof (cases rule: make_conn_cases[of "fst a" "snd a" s])
  case (failed w)
  then show ?thesis using assms by (simp add: getKaConn_def db_view)
next
  case (made p c w)
  then show ?thesis using assms by (simp add: getKaConn_def push_free_def pop_free_def db_view Let_def)
qed

lemma getKaConn_ok: "db_ok s \<Longrightarrow> db_ok (snd (getKaConn a s))"
proof (cases rule: make_conn_cases[of "fst a" "snd a" s])
  case (failed w)
  assume "db_ok s"
  then show ?thesis using failed by (simp add: getKaConn_def pop_free_def db_view)
next
  case (made p c w)
  assume "db_ok s"
  then show ?thesis using made by (simp add: getKaConn_def push_free_def pop_free_def db_view Let_def)
qed

lemma getKaConn_limit: "db_limit (snd (getKaConn a s)) = db_limit s"
proof (cases rule: make_conn_cases[of "fst a" "snd a" s])
  case (failed w)
  then show ?thesis by (simp add: getKaConn_def pop_free_def db_view)
next
  case (made p c w)
  then show ?thesis by (simp add: getKaConn_def push_free_def pop_free_def db_view Let_def)
qed

lemma RelKaConn_view:
  "db_made (RelKaConn c s) = db_made s" "db_limit (RelKaConn c s) = db_limit s" "db_live (RelKaConn c s) = db_live s"
  "db_ok (RelKaConn c s) = db_ok s" "db_free (RelKaConn c s) = (if c \<in> set (db_free s) then db_free s else db_free s @ [c])"
  by (simp_all add: RelKaConn_def push_free_def db_view)

lemma getKaConn_full: "db_free s = [] \<Longrightarrow> db_limit s \<le> db_made s \<Longrightarrow> getKaConn a s = (Acq_wait, s)"
  by (simp add: getKaConn_def db_view)

interpretation db: conn_pool db_ok db_free db_made db_limit db_live getKaConn RelKaConn
  by unfold_locales
    (simp_all add: RelKaConn_view getKaConn_ok getKaConn_limit getKaConn_free getKaConn_full getKaConn_new)

text \<open>A thread's use of its connection: what the connection holds and the outside world may change.\<close>

inductive db_usage :: "nat \<Rightarrow> 'w db_state \<Rightarrow> 'w db_state \<Rightarrow> bool" where
  db_use: "db_usage q s (s\<lparr>st_heap := map (\<lambda>e. if fst e = q then (q, c) else e) (st_heap s), st_world := w\<rparr>)"

lemma map_fst_write: "map fst (map (\<lambda>e. if fst e = q then (q, c) else e) h) = map fst h"
  by (induction h) auto

lemma db_usage_view: "db_usage q s s' \<Longrightarrow> st_pool s' = st_pool s \<and> map fst (st_heap s') = map fst (st_heap s)"
  by (induction rule: db_usage.induct) (simp add: map_fst_write del: map_map)

interpretation db_shared: shared_pool db_ok db_free db_made db_limit db_live getKaConn RelKaConn db_usage
proof
  fix q :: nat and s s' :: "'w db_state"
  assume u: "db_usage q s s'"
  note v = db_usage_view[OF u]
  show "db_free s' = db_free s" "db_made s' = db_made s" "db_limit s' = db_limit s" "db_ok s \<Longrightarrow> db_ok s'"
    using v by (simp_all add: db_view)
  have "set (map fst (st_heap s')) = set (map fst (st_heap s))" using v by simp
  then show "db_live s' = db_live s" by (simp add: db_live_def)
qed

section \<open>The manager\<close>

text \<open>The map of the manager, in key order, with the pools themselves in place of the pointers to them.\<close>

record KaDBManager =
  m_DBPools :: "(string \<times> KaDBPool) list"

record 'w db_world =
  w_manager :: "KaDBManager option"
  w_heap :: conn_heap
  w_outside :: 'w

primrec pools_insert :: "string \<Rightarrow> KaDBPool \<Rightarrow> (string \<times> KaDBPool) list \<Rightarrow> (string \<times> KaDBPool) list" where
  "pools_insert k v [] = [(k, v)]"
| "pools_insert k v (e # es) =
     (if k < fst e then (k, v) # e # es else if k = fst e then e # es else e # pools_insert k v es)"

definition non_null :: "'a option \<Rightarrow> cxx_error + 'a" where
  "non_null x = (case x of None \<Rightarrow> Inl Undefined_Behaviour | Some y \<Rightarrow> Inr y)"

text \<open>\<open>KaDBManager::init\<close>; \<open>file\<close> is the text of \<open>../conf/mysql.conf\<close>, \<open>None\<close> when it cannot be opened. \<open>atoi\<close>
  and \<open>std::string\<close> of a null pointer are undefined.\<close>

definition KaDBManager_init :: "'w mysql_lib \<Rightarrow> string option \<Rightarrow> nat list \<Rightarrow> KaDBManager \<Rightarrow> conn_heap \<Rightarrow> 'w \<Rightarrow>
    cxx_error + (int \<times> KaDBManager \<times> conn_heap \<times> 'w)" where
  "KaDBManager_init lib file wishes m h w =
     bind_r (ConfigFileReader_new file ''../conf/mysql.conf'') (\<lambda>configure.
     bind_r (GetConfigName ''KaIM_host'' configure) (\<lambda>ip.
     bind_r (GetConfigName '''' configure) (\<lambda>port.
     bind_r (bind_r (non_null port) atoi) (\<lambda>Port.
     bind_r (GetConfigName '''' configure) (\<lambda>user.
     bind_r (GetConfigName '''' configure) (\<lambda>passwd.
     bind_r (GetConfigName '''' configure) (\<lambda>dbname.
     bind_r (GetConfigName ''KaIM_maxconncnt'' configure) (\<lambda>cnt.
     bind_r (bind_r (non_null cnt) atoi) (\<lambda>max_cnt.
     bind_r (non_null ip) (\<lambda>ip'. bind_r (non_null user) (\<lambda>user'. bind_r (non_null passwd) (\<lambda>passwd'. bind_r (non_null dbname) (\<lambda>dbname'.
       let (ret, s) = KaDBPool_init lib wishes
             \<lparr>st_pool = KaDBPool_new ''defaultPool'' ip' (ucast Port) user' passwd' dbname' (sint max_cnt), st_heap = h, st_world = w\<rparr>
       in if ret \<noteq> 0 then Inr (3, m, st_heap s, st_world s)
          else Inr (0, m\<lparr>m_DBPools := pools_insert ''defaultPool'' (st_pool s) (m_DBPools m)\<rparr>, st_heap s, st_world s))))))))))))))"

text \<open>\<open>getInstance\<close>: the test is \<open>!= NULL\<close>. The first component of the result is the pointer returned.\<close>

definition getInstance :: "'w mysql_lib \<Rightarrow> string option \<Rightarrow> nat list \<Rightarrow> 'w db_world \<Rightarrow>
    cxx_error + (KaDBManager option \<times> 'w db_world)" where
  "getInstance lib file wishes s =
     (if w_manager s \<noteq> None then
        bind_r (KaDBManager_init lib file wishes \<lparr>m_DBPools = []\<rparr> (w_heap s) (w_outside s)) (\<lambda>(ret, m, h, w).
          let g = (if ret \<noteq> 0 then None else Some m) in
          Inr (g, s\<lparr>w_manager := g, w_heap := h, w_outside := w\<rparr>))
      else Inr (w_manager s, s))"

definition pools_set :: "string \<Rightarrow> KaDBPool \<Rightarrow> (string \<times> KaDBPool) list \<Rightarrow> (string \<times> KaDBPool) list" where
  "pools_set k v ps = map (\<lambda>e. if fst e = k then (k, v) else e) ps"

text \<open>\<open>getDBConn\<close>; a name with no pool gives \<open>NULL\<close>.\<close>

definition getDBConn :: "'w mysql_lib \<times> nat \<Rightarrow> string \<Rightarrow> KaDBManager \<times> conn_heap \<times> 'w \<Rightarrow>
    nat acquired \<times> KaDBManager \<times> conn_heap \<times> 'w" where
  "getDBConn a dbPoolName s =
     (let (m, h, w) = s; name = c_str dbPoolName in
      case map_of (m_DBPools m) name of
        None \<Rightarrow> (Acq_null, s)
      | Some p \<Rightarrow>
          (let (r, s') = getKaConn a \<lparr>st_pool = p, st_heap = h, st_world = w\<rparr>
           in (r, m\<lparr>m_DBPools := pools_set name (st_pool s') (m_DBPools m)\<rparr>, st_heap s', st_world s')))"

text \<open>\<open>RelDBConn\<close>: \<open>None\<close> is the null pointer. The test returns for every other pointer.\<close>

definition RelDBConn :: "nat option \<Rightarrow> KaDBManager \<times> conn_heap \<times> 'w \<Rightarrow> cxx_error + (KaDBManager \<times> conn_heap \<times> 'w)" where
  "RelDBConn pConn s =
     (let (m, h, w) = s in
      case pConn of
        Some p \<Rightarrow> Inr s
      | None \<Rightarrow> Inl Undefined_Behaviour)"

section \<open>Properties of the pool\<close>

definition pool_filled :: "nat \<Rightarrow> 'w db_state \<Rightarrow> bool" where
  "pool_filled n s \<longleftrightarrow> db_ok s \<and> distinct (db_free s) \<and> set (db_free s) \<subseteq> db_live s \<and> length (db_free s) = n"

lemma make_conn_filled:
  assumes "make_conn lib wish s = (Some p, s1)" "pool_filled n s"
  shows "pool_filled (Suc n) (push_free p s1) \<and> db_made (push_free p s1) = db_made s \<and> db_limit (push_free p s1) = db_limit s"
proof (cases rule: make_conn_cases[of lib wish s])
  case (failed w)
  then show ?thesis using assms by simp
next
  case (made q c w)
  then show ?thesis using assms by (auto simp: pool_filled_def push_free_def db_view)
qed

lemma init_loop_filled:
  "init_loop lib k wishes s = (0, s') \<Longrightarrow> pool_filled n s \<Longrightarrow>
   pool_filled (n + k) s' \<and> db_made s' = db_made s \<and> db_limit s' = db_limit s"
proof (induction k arbitrary: wishes s n)
  case (Suc k)
  obtain r s1 where m: "make_conn lib (case wishes of [] \<Rightarrow> 0 | x # _ \<Rightarrow> x) s = (r, s1)" by (metis prod.exhaust)
  then obtain p where r: "r = Some p" using Suc.prems(1) by (cases r) auto
  have "init_loop lib k (tl wishes) (push_free p s1) = (0, s')" using Suc.prems(1) m r by simp
  then show ?case using Suc.IH[of "tl wishes" "push_free p s1" "Suc n"] make_conn_filled[OF m[unfolded r] Suc.prems(2)] by simp
qed simp

lemma KaDBPool_init_inv:
  assumes "KaDBPool_init lib wishes \<lparr>st_pool = KaDBPool_new name ip port user pwd dbname maxConn, st_heap = h, st_world = w\<rparr> = (0, s0)"
    and "distinct (map fst h)"
  shows "db.pool_inv (s0, []) \<and> db_made s0 = 2 \<and> db_limit s0 = maxConn"
proof -
  let ?s = "\<lparr>st_pool = KaDBPool_new name ip port user pwd dbname maxConn, st_heap = h, st_world = w\<rparr>"
  have "pool_filled 0 ?s" using assms(2) by (simp add: pool_filled_def db_view KaDBPool_new_def)
  then have "pool_filled (Suc (Suc 0)) s0 \<and> db_made s0 = db_made ?s \<and> db_limit s0 = db_limit ?s"
    using init_loop_filled[of lib 2 wishes ?s s0 0] assms(1) by (simp add: KaDBPool_init_def KaDBPool_new_def MIN_CONN_CNT_def)
  then show ?thesis by (simp add: db.pool_inv_def pool_filled_def db_made_def db_limit_def KaDBPool_new_def MIN_CONN_CNT_def)
qed

text \<open>C16. Whatever the callers and the allocator do after a successful \<open>init\<close>, no connection of the pool is
  lent twice or lent while it is in the free list, and the connections lent and free never number
  more than the limit, or two where the limit is less. That covers callers that give a connection back
  twice, as long as it is still free the second time: \<open>RelKaConn\<close> then changes nothing. A connection that is given
  back a second time when another caller already has it is put on the free list all the same, to
  be lent a second time.\<close>

theorem db_pool_never_shares:
  assumes "KaDBPool_init lib wishes \<lparr>st_pool = KaDBPool_new name ip port user pwd dbname maxConn, st_heap = h, st_world = w\<rparr> = (0, s0)"
    and "distinct (map fst h)"
    and "no_stale (\<lambda>s. m_free_list (st_pool s)) getKaConn RelKaConn ops (s0, [])"
    and "pool_run getKaConn RelKaConn ops (s0, []) = (s, lent)"
  shows "distinct lent \<and> set lent \<inter> set (m_free_list (st_pool s)) = {} \<and>
         int (length lent) + int (length (m_free_list (st_pool s))) \<le> max 2 maxConn \<and>
         (\<forall>c \<in> set (m_free_list (st_pool s)). m_free_list (st_pool (RelKaConn c s)) = m_free_list (st_pool s)) \<and>
         (\<forall>c \<in> set lent. m_free_list (st_pool (RelKaConn c s)) = m_free_list (st_pool s) @ [c])"
proof -
  have "db_free = (\<lambda>s :: 'a db_state. m_free_list (st_pool s))" by (simp add: fun_eq_iff db_free_def)
  then have "no_stale db_free getKaConn RelKaConn ops (s0, [])" using assms(3) by (simp only:)
  from db.run_distinct[OF conjunct1[OF KaDBPool_init_inv[OF assms(1,2)]] this assms(4)] KaDBPool_init_inv[OF assms(1,2)]
  show ?thesis by (simp add: db_free_def)
qed

text \<open>C17. No thread waits for a connection in vain. Any number of threads take connections from a pool, use them
  and give them back, in any interleaving and with spurious wake-ups. A thread is asleep on the
  condition variable only while the free list is empty, the limit is reached and every connection of the
  pool is held by some thread; and from every such state the thread can still be served.\<close>

theorem db_waiters_are_served:
  assumes "KaDBPool_init lib wishes \<lparr>st_pool = KaDBPool_new name ip port user pwd dbname maxConn, st_heap = h, st_world = w\<rparr> = (0, s0)"
    and "distinct (map fst h)"
    and "client_steps getKaConn RelKaConn db_usage (s0, replicate n Idle) (s, ts)" and "t < n" and "ts ! t = Asleep"
  shows "m_free_list (st_pool s) = [] \<and> m_db_max_conn_cnt (st_pool s) \<le> m_db_cur_conn_cnt (st_pool s) \<and>
    int (length (held ts)) = m_db_cur_conn_cnt (st_pool s) \<and>
    (\<exists>s' ts' c. client_steps getKaConn RelKaConn db_usage (s, ts) (s', ts') \<and> ts' ! t = Holding c)"
proof -
  have "db.pool_inv (s0, [])" "0 < db_made s0" using KaDBPool_init_inv[OF assms(1,2)] by simp_all
  from db_shared.waiters_served[OF this assms(3-5)] show ?thesis by (simp add: db_view)
qed

text \<open>A library that answers every call with success; the world is the next unused handle.\<close>

definition demo_lib :: "nat mysql_lib" where
  "demo_lib = \<lparr>mysql_init = (\<lambda>w. (Some w, Suc w)), mysql_options = (\<lambda>h q w. w),
     mysql_real_connect = (\<lambda>h host user pwd db port w. (True, w)), mysql_real_query = (\<lambda>h q w. (0, w)),
     mysql_errno = (\<lambda>h w. 0), mysql_store_result = (\<lambda>h w. (None, w)), mysql_affected_rows = (\<lambda>h w. 1),
     mysql_field_count = (\<lambda>h w. 0), mysql_insert_id = (\<lambda>h w. 7), mysql_next_result = (\<lambda>h w. (-1, w))\<rparr>"

definition demo_db :: "nat list \<Rightarrow> int \<Rightarrow> conn_heap \<Rightarrow> nat \<Rightarrow> nat db_state" where
  "demo_db free cur h w = \<lparr>st_pool = (KaDBPool_new ''p'' ''127.0.0.1'' 3306 ''ka'' ''x'' ''im'' 3)\<lparr>m_db_cur_conn_cnt := cur, m_free_list := free\<rparr>,
     st_heap = h, st_world = w\<rparr>"

definition demo_conn :: "nat \<Rightarrow> KaDBConn" where
  "demo_conn h = \<lparr>m_DBPool = pool_info.truncate (KaDBPool_new ''p'' ''127.0.0.1'' 3306 ''ka'' ''x'' ''im'' 3), m_mysql = Some h\<rparr>"

lemmas demo_db_defs = demo_db_def demo_conn_def demo_lib_def KaDBPool_new_def pool_info.truncate_def KaDBConn_new_def KaDBConn_Init_def
  make_conn_def new_ptr_def push_free_def pop_free_def MIN_CONN_CNT_def

lemma demo_db_init:
  "KaDBPool_init demo_lib [5, 5] (demo_db [] 2 [] 0) = (0, demo_db [5, 6] 2 [(6, demo_conn 1), (5, demo_conn 0)] 2)"
  by (simp add: KaDBPool_init_def numeral_2_eq_2 demo_db_defs)

theorem db_pool_never_shares_witness:
  "pool_run getKaConn RelKaConn [Acquire (demo_lib, 5), Acquire (demo_lib, 5), Acquire (demo_lib, 5), Acquire (demo_lib, 5), Give_back 1, Give_again 6]
     (demo_db [5, 6] 2 [(6, demo_conn 1), (5, demo_conn 0)] 2, []) =
     (demo_db [6] 3 [(7, demo_conn 2), (6, demo_conn 1), (5, demo_conn 0)] 3, [5, 7]) \<and>
   int (length [5, 7 :: nat]) + int (length [6 :: nat]) \<le> max 2 3"
proof -
  let ?ops = "[Acquire (demo_lib, 5), Acquire (demo_lib, 5), Acquire (demo_lib, 5), Acquire (demo_lib, 5), Give_back 1, Give_again 6]"
  have run: "pool_run getKaConn RelKaConn ?ops (demo_db [5, 6] 2 [(6, demo_conn 1), (5, demo_conn 0)] 2, []) =
     (demo_db [6] 3 [(7, demo_conn 2), (6, demo_conn 1), (5, demo_conn 0)] 3, [5, 7])"
    and fresh: "no_stale (\<lambda>s. m_free_list (st_pool s)) getKaConn RelKaConn ?ops (demo_db [5, 6] 2 [(6, demo_conn 1), (5, demo_conn 0)] 2, [])"
    by (simp_all add: getKaConn_def RelKaConn_def demo_db_defs)
  have start: "demo_db [] 2 [] 0 = \<lparr>st_pool = KaDBPool_new ''p'' ''127.0.0.1'' 3306 ''ka'' ''x'' ''im'' 3, st_heap = [], st_world = 0\<rparr>"
    by (simp add: demo_db_def KaDBPool_new_def MIN_CONN_CNT_def)
  have "m_free_list (st_pool (demo_db [6] 3 [(7, demo_conn 2), (6, demo_conn 1), (5, demo_conn 0)] 3)) = [6]"
    by (simp add: demo_db_def)
  then show ?thesis using db_pool_never_shares[OF demo_db_init[unfolded start] _ fresh run] run by simp
qed

lemma demo_db_asleep:
  "client_steps getKaConn RelKaConn db_usage (demo_db [5, 6] 2 [(6, demo_conn 1), (5, demo_conn 0)] 2, replicate 4 Idle)
     (demo_db [] 3 [(7, demo_conn 2), (6, demo_conn 1), (5, demo_conn 0)] 3, [Holding 5, Holding 6, Holding 7, Asleep])"
proof -
  let ?h = "[(6, demo_conn 1), (5, demo_conn 0)]" and ?h3 = "[(7, demo_conn 2), (6, demo_conn 1), (5, demo_conn 0)]"
  have get: "getKaConn (demo_lib, 5) (demo_db [5, 6] 2 ?h 2) = (Acq_conn 5, demo_db [6] 2 ?h 2)"
      "getKaConn (demo_lib, 5) (demo_db [6] 2 ?h 2) = (Acq_conn 6, demo_db [] 2 ?h 2)"
      "getKaConn (demo_lib, 5) (demo_db [] 2 ?h 2) = (Acq_conn 7, demo_db [] 3 ?h3 3)"
      "getKaConn (demo_lib, 5) (demo_db [] 3 ?h3 3) = (Acq_wait, demo_db [] 3 ?h3 3)"
    by (simp_all add: getKaConn_def demo_db_defs)
  have four: "replicate 4 Idle = [Idle, Idle, Idle, Idle]" by (simp add: numeral_eq_Suc)
  show ?thesis unfolding four
    apply (rule steps_call[of 0], simp, simp)
    apply (rule steps_get[of 0], simp, simp, rule get(1))
    apply (rule steps_call[of 1], simp, simp)
    apply (rule steps_get[of 1], simp, simp, rule get(2))
    apply (rule steps_call[of 2], simp, simp)
    apply (rule steps_get[of 2], simp, simp, rule get(3))
    apply (rule steps_call[of 3], simp, simp)
    apply (rule steps_wait[of 3], simp, simp, rule get(4))
    apply (simp add: numeral_eq_Suc)
    done
qed

theorem db_waiters_are_served_witness:
  "\<exists>s ts t c. client_steps getKaConn RelKaConn db_usage
     (demo_db [] 3 [(7, demo_conn 2), (6, demo_conn 1), (5, demo_conn 0)] 3, [Holding 5, Holding 6, Holding 7, Asleep]) (s, ts) \<and>
     t = (3 :: nat) \<and> ts ! t = Holding c"
proof -
  have start: "demo_db [] 2 [] 0 = \<lparr>st_pool = KaDBPool_new ''p'' ''127.0.0.1'' 3306 ''ka'' ''x'' ''im'' 3, st_heap = [], st_world = 0\<rparr>"
    by (simp add: demo_db_def KaDBPool_new_def MIN_CONN_CNT_def)
  have "distinct (map fst ([] :: conn_heap))" "(3 :: nat) < 4" "[Holding (5 :: nat), Holding 6, Holding 7, Asleep] ! 3 = Asleep" by simp_all
  from db_waiters_are_served[OF demo_db_init[unfolded start] this(1) demo_db_asleep this(2,3)] show ?thesis by blast
qed

section \<open>Properties of the manager\<close>

lemma map_insert_keys: "fst ` set (map_insert k v m) = insert k (fst ` set m)"
  by (induction m) auto

lemma TrimSpace_not_empty: "TrimSpace stop name = Inr (Some s) \<Longrightarrow> s \<noteq> []"
proof -
  assume "TrimSpace stop name = Inr (Some s)"
  then have nb: "\<not> list_all blank name" and s: "s = dropWhile blank (rev (dropWhile blank (rev name)))"
    by (auto simp: TrimSpace_def split: if_splits)
  from nb obtain c where c: "c \<in> set name" "\<not> blank c" by (auto simp: list_all_iff)
  have "name = rev (dropWhile blank (rev name)) @ rev (takeWhile blank (rev name))"
    by (metis rev_append rev_rev_ident takeWhile_dropWhile_id)
  then have "c \<in> set (rev (dropWhile blank (rev name))) \<or> c \<in> set (takeWhile blank (rev name))"
    using c(1) by (metis Un_iff set_append set_rev)
  then have "c \<in> set (rev (dropWhile blank (rev name)))" using c(2) by (auto dest: set_takeWhileD)
  then show "s \<noteq> []" using c(2) by (auto simp: s)
qed

lemma ParseLine_keys: "ParseLine line m = Inr m' \<Longrightarrow> '''' \<notin> fst ` set m \<Longrightarrow> '''' \<notin> fst ` set m'"
proof (cases "CHR ''='' \<in> set line")
  case True
  assume "ParseLine line m = Inr m'" and m: "'''' \<notin> fst ` set m"
  with True obtain key val where t: "TrimSpace False (takeWhile (\<lambda>c. c \<noteq> CHR ''='') line) = Inr key"
    "m' = (case (key, val) of (Some k, Some v) \<Rightarrow> map_insert k v m | _ \<Rightarrow> m)"
    by (auto simp: ParseLine_def bind_r_eq_Inr)
  show ?thesis
  proof (cases key)
    case (Some k)
    have "k \<noteq> ''''" using TrimSpace_not_empty t(1) Some by blast
    then show ?thesis using t(2) Some m by (cases val) (auto simp: map_insert_keys)
  qed (use t(2) m in simp)
qed (simp add: ParseLine_def)

lemma load_line_keys: "load_line chunk m = Inr m' \<Longrightarrow> '''' \<notin> fst ` set m \<Longrightarrow> '''' \<notin> fst ` set m'"
  using ParseLine_keys by (auto simp: load_line_def Let_def split: if_splits)

lemma load_lines_keys: "load_lines s m = Inr m' \<Longrightarrow> '''' \<notin> fst ` set m \<Longrightarrow> '''' \<notin> fst ` set m'"
proof (induction s m rule: load_lines.induct)
  case (1 s m)
  show ?case
  proof (cases "fgets s")
    case None
    then show ?thesis using "1.prems" by (simp add: load_lines.simps[of s])
  next
    case (Some cr)
    obtain chunk rest where cr: "cr = (chunk, rest)" by (cases cr)
    obtain m1 where m1: "load_line chunk m = Inr m1" "load_lines rest m1 = Inr m'"
      using "1.prems"(1) Some cr by (auto simp: load_lines.simps[of s] bind_r_eq_Inr)
    show ?thesis using "1.IH"[OF Some cr[symmetric] m1(2)] load_line_keys[OF m1(1) "1.prems"(2)] by blast
  qed
qed

lemma no_blank_name:
  "ConfigFileReader_new file name = Inr r \<Longrightarrow> GetConfigName '''' r = Inl Undefined_Behaviour \<or> GetConfigName '''' r = Inr None"
proof -
  assume r: "ConfigFileReader_new file name = Inr r"
  show ?thesis
  proof (cases "file")
    case None
    then show ?thesis using r by (auto simp: ConfigFileReader_new_def LoadFile_def GetConfigName_def)
  next
    case (Some s)
    then obtain m where "load_lines s [] = Inr m" "m_config_map r = m" "m_has_load r = Some True"
      using r by (auto simp: ConfigFileReader_new_def LoadFile_def bind_r_eq_Inr)
    moreover from this have "map_of m '''' = None" using load_lines_keys[of s "[]" m] by (simp add: map_of_eq_None_iff)
    ultimately show ?thesis by (simp add: GetConfigName_def)
  qed
qed

lemma load_line_error: "load_line chunk m = Inl e \<Longrightarrow> e = Undefined_Behaviour"
  by (auto simp: load_line_def ParseLine_def TrimSpace_def bind_r_eq_Inl Let_def split: if_splits)

lemma load_lines_error: "load_lines s m = Inl e \<Longrightarrow> e = Undefined_Behaviour"
proof (induction s m rule: load_lines.induct)
  case (1 s m)
  show ?case
  proof (cases "fgets s")
    case (Some cr)
    obtain chunk rest where cr: "cr = (chunk, rest)" by (cases cr)
    consider "load_line chunk m = Inl e" | m1 where "load_line chunk m = Inr m1" "load_lines rest m1 = Inl e"
      using "1.prems" Some cr by (auto simp: load_lines.simps[of s] bind_r_eq_Inl)
    then show ?thesis using load_line_error "1.IH"[OF Some cr[symmetric]] by cases blast+
  qed (use "1.prems" in \<open>simp add: load_lines.simps[of s]\<close>)
qed

lemma ConfigFileReader_new_error: "ConfigFileReader_new file name = Inl e \<Longrightarrow> e = Undefined_Behaviour"
  using load_lines_error by (cases "file") (auto simp: ConfigFileReader_new_def LoadFile_def bind_r_eq_Inl)

lemma KaDBManager_init_undefined: "KaDBManager_init lib file wishes m h w = Inl Undefined_Behaviour"
proof (cases "ConfigFileReader_new file ''../conf/mysql.conf''")
  case (Inl e)
  then show ?thesis using ConfigFileReader_new_error[OF Inl] by (simp add: KaDBManager_init_def)
next
  case (Inr r)
  have ip: "GetConfigName ''KaIM_host'' r = Inl Undefined_Behaviour \<or> (\<exists>v. GetConfigName ''KaIM_host'' r = Inr v)"
    by (simp add: GetConfigName_def split: option.split)
  from no_blank_name[OF Inr] ip show ?thesis
    by (auto simp: KaDBManager_init_def Inr non_null_def)
qed

text \<open>The singleton of the manager is never made: starting from the null pointer every call of
  \<open>getInstance\<close> gives null and does nothing, whatever the configuration file says; and were \<open>init\<close>
  called, it would be undefined for every configuration file and every database, since it asks for
  the value of an empty name, which no file can define, and converts the null pointer it gets.\<close>

theorem db_manager_never_exists:
  "getInstance lib file wishes \<lparr>w_manager = None, w_heap = h, w_outside = w\<rparr> =
     Inr (None, \<lparr>w_manager = None, w_heap = h, w_outside = w\<rparr>) \<and>
   KaDBManager_init lib file' wishes' m h' w' = Inl Undefined_Behaviour"
  by (simp add: getInstance_def KaDBManager_init_undefined)

section \<open>Queries\<close>

text \<open>A library that also counts the queries sent and the handles made.\<close>

definition count_lib :: "'w mysql_lib \<Rightarrow> ('w \<times> nat \<times> nat) mysql_lib" where
  "count_lib lib = \<lparr>
     mysql_init = (\<lambda>(w, q, i). let (h, w') = mysql_init lib w in (h, w', q, Suc i)),
     mysql_options = (\<lambda>h opt (w, n). (mysql_options lib h opt w, n)),
     mysql_real_connect = (\<lambda>h host user pwd db port (w, n). let (ok, w') = mysql_real_connect lib h host user pwd db port w in (ok, w', n)),
     mysql_real_query = (\<lambda>h sql (w, q, i). let (r, w') = mysql_real_query lib h sql w in (r, w', Suc q, i)),
     mysql_errno = (\<lambda>h (w, n). mysql_errno lib h w),
     mysql_store_result = (\<lambda>h (w, n). let (r, w') = mysql_store_result lib h w in (r, w', n)),
     mysql_affected_rows = (\<lambda>h (w, n). mysql_affected_rows lib h w),
     mysql_field_count = (\<lambda>h (w, n). mysql_field_count lib h w),
     mysql_insert_id = (\<lambda>h (w, n). mysql_insert_id lib h w),
     mysql_next_result = (\<lambda>h (w, n). let (r, w') = mysql_next_result lib h w in (r, w', n))\<rparr>"

lemma count_Init:
  "KaDBConn_Init (count_lib lib) c (w, q, i) = (ret, c', w', q', i') \<Longrightarrow>
   KaDBConn_Init lib c w = (ret, c', w') \<and> q' = q \<and> i' = Suc i \<and> (ret = 0 \<longrightarrow> m_mysql c' \<noteq> None)"
  by (auto simp: KaDBConn_Init_def count_lib_def Let_def split: prod.splits option.splits if_splits)

lemma count_result:
  "query_result (count_lib lib) h c (w, q, i) = Inr (r, c', w', q', i') \<Longrightarrow>
   query_result lib h c w = Inr (r, c', w') \<and> q' = q \<and> i' = i \<and> c' = c \<and> (fst (mysql_store_result lib h w) = None \<longrightarrow> r = None)"
  by (auto simp: query_result_def count_lib_def Let_def bind_r_eq_Inr split: prod.splits option.splits)

lemma count_query: "mysql_real_query (count_lib lib) h sql (w, q, i) = (ret, w', q', i') \<Longrightarrow>
   mysql_real_query lib h sql w = (ret, w') \<and> q' = Suc q \<and> i' = i"
  by (auto simp: count_lib_def Let_def split: prod.splits)

lemma count_errno: "mysql_errno (count_lib lib) h (w, n) = mysql_errno lib h w"
  by (simp add: count_lib_def)

definition no_result_set :: "'w mysql_lib \<Rightarrow> bool" where
  "no_result_set lib \<longleftrightarrow> (\<forall>h w. fst (mysql_store_result lib h w) = None)"

lemma count_send:
  assumes "query_send (count_lib lib) sql h c (w, q, i) = Inr (r, c', w', q', i')"
  shows "query_send lib sql h c w = Inr (r, c', w') \<and> q' \<le> q + 2 \<and> i' \<le> i + 1 \<and> (no_result_set lib \<longrightarrow> r = None) \<and>
    (fst (mysql_real_query lib h sql w) \<noteq> 0 \<and> mysql_errno lib h (snd (mysql_real_query lib h sql w)) \<noteq> CR_SERVER_GONE_ERROR \<longrightarrow>
       r = None \<and> q' = q + 1 \<and> i' = i)"
proof -
  obtain ret w1 q1 i1 where 1: "mysql_real_query (count_lib lib) h sql (w, q, i) = (ret, w1, q1, i1)" by (metis prod_cases4)
  note c1 = count_query[OF 1]
  consider (ok) "ret = 0" | (gone) "ret \<noteq> 0" "mysql_errno lib h w1 = CR_SERVER_GONE_ERROR"
    | (other) "ret \<noteq> 0" "mysql_errno lib h w1 \<noteq> CR_SERVER_GONE_ERROR" by blast
  then show ?thesis
  proof cases
    case ok
    then have "query_result (count_lib lib) h c (w1, q1, i1) = Inr (r, c', w', q', i')" using assms 1 by (simp add: query_send_def)
    then show ?thesis using count_result c1 ok by (fastforce simp: query_send_def no_result_set_def)
  next
    case other
    then show ?thesis using assms 1 c1 by (simp add: query_send_def count_errno)
  next
    case gone
    obtain ret1 c2 w2 q2 i2 where 2: "KaDBConn_Init (count_lib lib) c (w1, q1, i1) = (ret1, c2, w2, q2, i2)" by (metis prod_cases5)
    note c2 = count_Init[OF 2]
    show ?thesis
    proof (cases "ret1 = 0")
      case False
      then show ?thesis using assms 1 2 c1 c2 gone by (simp add: query_send_def count_errno)
    next
      case True
      then obtain h1 where h1: "m_mysql c2 = Some h1" using c2 by blast
      obtain ret2 w3 q3 i3 where 3: "mysql_real_query (count_lib lib) h1 sql (w2, q2, i2) = (ret2, w3, q3, i3)" by (metis prod_cases4)
      note c3 = count_query[OF 3]
      show ?thesis
      proof (cases "ret2 = 0")
        case False
        then show ?thesis using assms 1 2 3 c1 c2 c3 gone True h1 by (simp add: query_send_def count_errno)
      next
        case r2: True
        then have "query_result (count_lib lib) h1 c2 (w3, q3, i3) = Inr (r, c', w', q', i')"
          using assms 1 2 3 gone True h1 by (simp add: query_send_def count_errno)
        from count_result[OF this] show ?thesis
          using c1 c2 c3 gone True h1 r2 by (simp add: query_send_def no_result_set_def)
      qed
    qed
  qed
qed

text \<open>C30. \<open>query\<close> sends a statement once, and a second time only after it has reconnected because the
  server was gone; any other failure is reported as null at once. It makes at most two handles, one
  of them only for a connection that had none. A statement without a result set gives null too,
  though it has been executed: its callers cannot tell it from a failure.\<close>

theorem query_retries_once:
  assumes "query (count_lib lib) sql c (w, 0, 0) = Inr (r, c', w', queries, handles)"
  shows "query lib sql c w = Inr (r, c', w') \<and> queries \<le> 2 \<and> handles \<le> (if m_mysql c = None then 2 else 1) \<and>
    (no_result_set lib \<longrightarrow> r = None) \<and>
    (\<forall>h. m_mysql c = Some h \<and> fst (mysql_real_query lib h (c_str sql) w) \<noteq> 0 \<and>
       mysql_errno lib h (snd (mysql_real_query lib h (c_str sql) w)) \<noteq> CR_SERVER_GONE_ERROR \<longrightarrow>
       r = None \<and> queries = 1 \<and> handles = 0)"
proof (cases "m_mysql c")
  case (Some h)
  then have "query_send (count_lib lib) (c_str sql) h c (w, 0, 0) = Inr (r, c', w', queries, handles)"
    using assms by (simp add: query_def)
  from count_send[OF this] show ?thesis using Some by (simp add: query_def)
next
  case None
  obtain ret c1 w1 q1 i1 where 1: "KaDBConn_Init (count_lib lib) c (w, 0, 0) = (ret, c1, w1, q1, i1)" by (metis prod_cases5)
  note c1 = count_Init[OF 1]
  show ?thesis
  proof (cases "ret = 0")
    case False
    then show ?thesis using assms None 1 c1 by (simp add: query_def)
  next
    case True
    then obtain h where h: "m_mysql c1 = Some h" using c1 by blast
    then have "query_send (count_lib lib) (c_str sql) h c1 (w1, q1, i1) = Inr (r, c', w', queries, handles)"
      using assms None 1 True by (simp add: query_def)
    from count_send[OF this] show ?thesis using None True h c1 by (simp add: query_def)
  qed
qed

text \<open>A server that is gone at the first query and back at the second.\<close>

definition gone_lib :: "nat mysql_lib" where
  "gone_lib = demo_lib\<lparr>mysql_real_query := (\<lambda>h q w. (if h = 0 then 1 else 0, w)), mysql_errno := (\<lambda>h w. 2006)\<rparr>"

theorem query_retries_once_witness:
  "query gone_lib ''insert'' (demo_conn 0) 5 = Inr (None, demo_conn 5, 6) \<and> (2 :: nat) \<le> 2 \<and> no_result_set gone_lib"
proof -
  have "query (count_lib gone_lib) ''insert'' (demo_conn 0) (5, 0, 0) = Inr (None, demo_conn 5, 6, 2, 1)"
    by (simp add: query_def query_send_def query_result_def KaDBConn_Init_def demo_conn_def count_lib_def gone_lib_def demo_lib_def
        CR_SERVER_GONE_ERROR_def c_str_def)
  from query_retries_once[OF this] show ?thesis by (simp add: no_result_set_def gone_lib_def demo_lib_def)
qed

end
