(* ===== verification/RedisConns.thy ===== *)
theory RedisConns
  imports ConfigReader ConnPools
begin

text \<open>
  \<open>src/DataBase/KaRedis/KaCachePool.h\<close> and the first part of \<open>KaCachePool.cpp\<close>: a connection to the Redis
  cache and its commands. The hiredis library is a record of its functions over the outside world,
  which also holds the clock. A command is the list of its arguments: \<open>redisCommand\<close> splits its
  format at spaces and puts each \<open>%s\<close>, \<open>%d\<close> or \<open>%ld\<close> into one argument, so for the constant formats of the
  source the list is written out; for a format made at run time \<open>redis_split\<close> is what the library
  does with it, or \<open>None\<close> when it has conversions, whose arguments are not there and are read all the
  same. A context is null, a live context, or one that has been freed while the connection still points
  to it. The lemmas say which commands are safe with which answers, and that the calls of a connection keep to
  a protocol.
\<close>

section \<open>The client library\<close>

datatype reply_type = REDIS_REPLY_STRING | REDIS_REPLY_ARRAY | REDIS_REPLY_INTEGER | REDIS_REPLY_NIL
  | REDIS_REPLY_STATUS | REDIS_REPLY_ERROR

datatype redisReply = Reply (reply_kind: reply_type) (reply_integer: int) (reply_str: "string option") (reply_elements: "redisReply list")

text \<open>The \<open>len\<close> bytes at \<open>str\<close>; without a text \<open>str\<close> is null and \<open>len\<close> zero.\<close>

definition reply_text :: "redisReply \<Rightarrow> string" where
  "reply_text r = (case reply_str r of None \<Rightarrow> '''' | Some s \<Rightarrow> s)"

datatype connect_answer = Connect_null | Connect_err nat | Connect_ok nat

record 'w hiredis =
  redis_time :: "'w \<Rightarrow> u64"
  redis_connect :: "string \<Rightarrow> int \<Rightarrow> 'w \<Rightarrow> connect_answer \<times> 'w"
  redis_argv :: "nat \<Rightarrow> string list \<Rightarrow> 'w \<Rightarrow> redisReply option \<times> 'w"
  redis_split :: "string \<Rightarrow> string list option"
  redis_free :: "nat \<Rightarrow> 'w \<Rightarrow> 'w"

section \<open>A connection\<close>

datatype redis_context = Ctx_null | Ctx nat | Ctx_freed nat

record cache_info =
  m_pool_name :: string
  m_server_ip :: string
  m_server_port :: u16
  m_db_number :: int

definition cache_getServerIP :: "'a cache_info_scheme \<Rightarrow> string" where
  "cache_getServerIP p = c_str (m_server_ip p)"

definition cache_getServerPort :: "'a cache_info_scheme \<Rightarrow> int" where
  "cache_getServerPort p = uint (m_server_port p)"

definition cache_getDBNum :: "'a cache_info_scheme \<Rightarrow> int" where
  "cache_getDBNum p = m_db_number p"

definition cache_getPoolName :: "'a cache_info_scheme \<Rightarrow> string" where
  "cache_getPoolName p = c_str (m_pool_name p)"

record CacheConn =
  m_pKcaChePool :: cache_info
  m_pContext :: redis_context
  m_last_connect_time :: u64

definition CacheConn_new :: "cache_info \<Rightarrow> CacheConn" where
  "CacheConn_new p = \<lparr>m_pKcaChePool = p, m_pContext = Ctx_null, m_last_connect_time = 0\<rparr>"

definition CacheConn_delete :: "'w hiredis \<Rightarrow> CacheConn \<Rightarrow> 'w \<Rightarrow> cxx_error + 'w" where
  "CacheConn_delete lib c w =
     (case m_pContext c of
        Ctx_null \<Rightarrow> Inr w
      | Ctx h \<Rightarrow> Inr (redis_free lib h w)
      | Ctx_freed h \<Rightarrow> Inl Undefined_Behaviour)"

text \<open>\<open>CacheConn::Init\<close>. A status reply has a text.\<close>

definition select_ok :: "redisReply option \<Rightarrow> bool" where
  "select_ok reply =
     (case reply of
        None \<Rightarrow> False
      | Some r \<Rightarrow> reply_kind r = REDIS_REPLY_STATUS \<and> take 2 (c_str (reply_text r)) = ''OK'')"

definition CacheConn_Init :: "'w hiredis \<Rightarrow> CacheConn \<Rightarrow> 'w \<Rightarrow> int \<times> CacheConn \<times> 'w" where
  "CacheConn_Init lib c w =
     (if m_pContext c \<noteq> Ctx_null then (0, c, w)
      else if redis_time lib w < m_last_connect_time c + 4 then (1, c, w)
      else
        (let c1 = c\<lparr>m_last_connect_time := redis_time lib w\<rparr>;
             (answer, w1) = redis_connect lib (cache_getServerIP (m_pKcaChePool c1)) (cache_getServerPort (m_pKcaChePool c1)) w
         in case answer of
              Connect_null \<Rightarrow> (1, c1, w1)
            | Connect_err h \<Rightarrow> (1, c1, redis_free lib h w1)
            | Connect_ok h \<Rightarrow>
                (let c2 = c1\<lparr>m_pContext := Ctx h\<rparr>;
                     (reply, w2) = redis_argv lib h [''select'', show_int (cache_getDBNum (m_pKcaChePool c2))] w1
                 in (if select_ok reply then 0 else 2, c2, w2))))"


section \<open>Commands\<close>

text \<open>What every command does: \<open>Init\<close>, the command, and for a null reply the release of the context and
  the failure value; \<open>k\<close> is what it makes of a reply.\<close>

type_synonym ('w, 'b) cache_outcome = "cxx_error + ('b \<times> CacheConn \<times> 'w)"

definition on_context :: "'w hiredis \<Rightarrow> string list \<Rightarrow> 'b \<Rightarrow> (redisReply \<Rightarrow> cxx_error + 'b) \<Rightarrow> CacheConn \<Rightarrow> 'w \<Rightarrow> ('w, 'b) cache_outcome" where
  "on_context lib args failed k c w =
     (case m_pContext c of
        Ctx h \<Rightarrow>
          (let (reply, w1) = redis_argv lib h args w in
           case reply of
             None \<Rightarrow> Inr (failed, c\<lparr>m_pContext := Ctx_null\<rparr>, redis_free lib h w1)
           | Some r \<Rightarrow> bind_r (k r) (\<lambda>v. Inr (v, c, w1)))
      | _ \<Rightarrow> Inl Undefined_Behaviour)"

definition when_init :: "'w hiredis \<Rightarrow> 'b \<Rightarrow> (CacheConn \<Rightarrow> 'w \<Rightarrow> ('w, 'b) cache_outcome) \<Rightarrow> CacheConn \<Rightarrow> 'w \<Rightarrow> ('w, 'b) cache_outcome" where
  "when_init lib failed body c w =
     (let (ret, c1, w1) = CacheConn_Init lib c w in if ret \<noteq> 0 then Inr (failed, c1, w1) else body c1 w1)"

definition cache_command :: "'w hiredis \<Rightarrow> string list \<Rightarrow> 'b \<Rightarrow> (redisReply \<Rightarrow> 'b) \<Rightarrow> CacheConn \<Rightarrow> 'w \<Rightarrow> ('w, 'b) cache_outcome" where
  "cache_command lib args failed k = when_init lib failed (on_context lib args failed (\<lambda>r. Inr (k r)))"

definition cache_get :: "'w hiredis \<Rightarrow> string \<Rightarrow> CacheConn \<Rightarrow> 'w \<Rightarrow> ('w, string) cache_outcome" where
  "cache_get lib key = cache_command lib [''GET'', c_str key] ''''
     (\<lambda>r. if reply_kind r = REDIS_REPLY_STRING then reply_text r else '''')"

definition cache_setExpire :: "'w hiredis \<Rightarrow> string \<Rightarrow> int \<Rightarrow> string \<Rightarrow> CacheConn \<Rightarrow> 'w \<Rightarrow> ('w, string) cache_outcome" where
  "cache_setExpire lib key timeout v = cache_command lib [''SETEX'', c_str key, show_int timeout, c_str v] '''' reply_text"

definition cache_set :: "'w hiredis \<Rightarrow> string \<Rightarrow> string \<Rightarrow> CacheConn \<Rightarrow> 'w \<Rightarrow> ('w, string) cache_outcome" where
  "cache_set lib key v = cache_command lib [''SET'', c_str key, c_str v] '''' reply_text"

text \<open>\<open>mget\<close>: the keys are joined with spaces, and the name of the command is put before them.\<close>

type_synonym string_map = "(string \<times> string) list"

primrec map_put :: "string \<Rightarrow> string \<Rightarrow> string_map \<Rightarrow> string_map" where
  "map_put k v [] = [(k, v)]"
| "map_put k v (e # es) =
     (if k < fst e then (k, v) # e # es else if k = fst e then (k, v) # es else e # map_put k v es)"

fun join_keys :: "string list \<Rightarrow> string" where
  "join_keys [] = ''''"
| "join_keys [k] = k"
| "join_keys (k # ks) = k @ '' '' @ join_keys ks"

fun mget_elements :: "nat \<Rightarrow> redisReply list \<Rightarrow> string list \<Rightarrow> string_map \<Rightarrow> cxx_error + string_map" where
  "mget_elements i [] keys m = Inr m"
| "mget_elements i (r # rs) keys m =
     (if reply_kind r = REDIS_REPLY_STRING then
        (if length keys \<le> i then Inl Undefined_Behaviour
         else mget_elements (Suc i) rs keys (map_put (keys ! i) (c_str (reply_text r)) m))
      else mget_elements (Suc i) rs keys m)"

definition cache_mget :: "'w hiredis \<Rightarrow> string list \<Rightarrow> string_map \<Rightarrow> CacheConn \<Rightarrow> 'w \<Rightarrow> ('w, bool \<times> string_map) cache_outcome" where
  "cache_mget lib keys ret_value = when_init lib (False, ret_value) (\<lambda>c w.
     if keys = [] then Inr ((False, ret_value), c, w)
     else
       (let strkey = join_keys keys in
        if strkey = '''' then Inr ((False, ret_value), c, w)
        else (case redis_split lib (c_str (''MGET'' @ strkey)) of
          None \<Rightarrow> Inl Undefined_Behaviour
        | Some args \<Rightarrow> on_context lib args (False, ret_value)
            (\<lambda>r. if reply_kind r = REDIS_REPLY_ARRAY
                 then bind_r (mget_elements 0 (reply_elements r) keys ret_value) (\<lambda>m. Inr (True, m))
                 else Inr (True, ret_value)) c w)))"

text \<open>\<open>isExist\<close> frees the context after a null reply and keeps pointing to it.\<close>

definition cache_isExist :: "'w hiredis \<Rightarrow> string \<Rightarrow> CacheConn \<Rightarrow> 'w \<Rightarrow> ('w, bool) cache_outcome" where
  "cache_isExist lib key = when_init lib False (\<lambda>c w.
     case m_pContext c of
       Ctx h \<Rightarrow>
         (let (reply, w1) = redis_argv lib h [''EXISTS'', c_str key] w in
          case reply of
            None \<Rightarrow> Inr (False, c\<lparr>m_pContext := Ctx_freed h\<rparr>, redis_free lib h w1)
          | Some r \<Rightarrow> Inr (reply_integer r \<noteq> 0, c, w1))
     | _ \<Rightarrow> Inl Undefined_Behaviour)"

definition cache_incrBy :: "'w hiredis \<Rightarrow> string \<Rightarrow> int \<Rightarrow> CacheConn \<Rightarrow> 'w \<Rightarrow> ('w, int) cache_outcome" where
  "cache_incrBy lib key v = cache_command lib [''INCRBY'', c_str key, show_int v] (-1) reply_integer"

definition cache_incr :: "'w hiredis \<Rightarrow> string \<Rightarrow> CacheConn \<Rightarrow> 'w \<Rightarrow> ('w, int) cache_outcome" where
  "cache_incr lib key = cache_command lib [''INCR'', c_str key] (-1) reply_integer"

definition cache_decr :: "'w hiredis \<Rightarrow> string \<Rightarrow> CacheConn \<Rightarrow> 'w \<Rightarrow> ('w, int) cache_outcome" where
  "cache_decr lib key = cache_command lib [''DECR'', c_str key] (-1) reply_integer"

section \<open>Commands on hashes\<close>

definition cache_hdel :: "'w hiredis \<Rightarrow> string \<Rightarrow> string \<Rightarrow> CacheConn \<Rightarrow> 'w \<Rightarrow> ('w, int) cache_outcome" where
  "cache_hdel lib key field = cache_command lib [''HDEL'', c_str key, c_str field] 0 reply_integer"

text \<open>\<open>hget\<close> sends \<open>GET\<close> with two arguments.\<close>

definition cache_hget :: "'w hiredis \<Rightarrow> string \<Rightarrow> string \<Rightarrow> CacheConn \<Rightarrow> 'w \<Rightarrow> ('w, string) cache_outcome" where
  "cache_hget lib key field = cache_command lib [''GET'', c_str key, c_str field] '''' reply_text"

text \<open>\<open>hgetAll\<close> sends \<open>HEGTALL\<close>; it copies of each value as many bytes as the field's name has.\<close>

definition copy_bytes :: "string option \<Rightarrow> nat \<Rightarrow> cxx_error + string" where
  "copy_bytes str len =
     (case str of
        None \<Rightarrow> if len = 0 then Inr '''' else Inl Undefined_Behaviour
      | Some s \<Rightarrow> if len \<le> length s + 1 then Inr (take len (s @ [CHR 0x00])) else Inl Undefined_Behaviour)"

fun hgetAll_pairs :: "redisReply list \<Rightarrow> string_map \<Rightarrow> cxx_error + string_map" where
  "hgetAll_pairs (f # v # rs) m =
     bind_r (copy_bytes (reply_str v) (length (reply_text f))) (\<lambda>val.
       hgetAll_pairs rs (map_insert (reply_text f) val m))"
| "hgetAll_pairs _ m = Inr m"

definition cache_hgetAll :: "'w hiredis \<Rightarrow> string \<Rightarrow> string_map \<Rightarrow> CacheConn \<Rightarrow> 'w \<Rightarrow> ('w, bool \<times> string_map) cache_outcome" where
  "cache_hgetAll lib key ret_value = when_init lib (False, ret_value)
     (on_context lib [''HEGTALL'', c_str key] (False, ret_value)
       (\<lambda>r. if reply_kind r = REDIS_REPLY_ARRAY \<and> even (length (reply_elements r))
            then bind_r (hgetAll_pairs (reply_elements r) ret_value) (\<lambda>m. Inr (True, m))
            else Inr (True, ret_value)))"

definition cache_hset :: "'w hiredis \<Rightarrow> string \<Rightarrow> string \<Rightarrow> string \<Rightarrow> CacheConn \<Rightarrow> 'w \<Rightarrow> ('w, int) cache_outcome" where
  "cache_hset lib key field v = cache_command lib [''HSET'', c_str key, c_str field, c_str v] (-1) reply_integer"

definition cache_hincrBy :: "'w hiredis \<Rightarrow> string \<Rightarrow> string \<Rightarrow> int \<Rightarrow> CacheConn \<Rightarrow> 'w \<Rightarrow> ('w, int) cache_outcome" where
  "cache_hincrBy lib key field v = cache_command lib [''HINCRBY'', c_str key, c_str field, show_int v] (-1) reply_integer"

text \<open>The argument vector of \<open>hmset\<close> and \<open>hmget\<close>: an array of \<open>argc\<close> pointers, not initialised, that is
  filled index by index. A write past its end, and handing over an entry that was never written, is
  undefined.\<close>

definition argv_write :: "string \<Rightarrow> nat \<times> string option list \<Rightarrow> cxx_error + (nat \<times> string option list)" where
  "argv_write s st =
     (let (i, argv) = st in if length argv \<le> i then Inl Undefined_Behaviour else Inr (Suc i, argv[i := Some (c_str s)]))"

primrec argv_fill :: "string list \<Rightarrow> nat \<times> string option list \<Rightarrow> cxx_error + (nat \<times> string option list)" where
  "argv_fill [] st = Inr st"
| "argv_fill (s # ss) st = bind_r (argv_write s st) (argv_fill ss)"

definition argv_pass :: "string option list \<Rightarrow> cxx_error + string list" where
  "argv_pass argv = (if None \<in> set argv then Inl Undefined_Behaviour else Inr (map the argv))"

definition hmset_argv :: "string \<Rightarrow> string_map \<Rightarrow> cxx_error + string list" where
  "hmset_argv key hash =
     bind_r (argv_fill (''HMSET'' # key # concat (map (\<lambda>(f, v). [f, v]) hash)) (0, replicate (length hash * 2 + 2) None))
       (\<lambda>(i, argv). argv_pass argv)"

definition hmget_argv :: "string \<Rightarrow> string list \<Rightarrow> cxx_error + string list" where
  "hmget_argv key flds =
     bind_r (argv_fill (''HMGET'' # key # flds) (0, replicate (length flds + 2) None)) (\<lambda>(i, argv). argv_pass argv)"

definition cache_hmset :: "'w hiredis \<Rightarrow> string \<Rightarrow> string_map \<Rightarrow> CacheConn \<Rightarrow> 'w \<Rightarrow> ('w, string) cache_outcome" where
  "cache_hmset lib key hash = when_init lib '''' (\<lambda>c w.
     bind_r (hmset_argv key hash) (\<lambda>argv. on_context lib argv '''' (\<lambda>r. Inr (reply_text r)) c w))"

definition cache_hmget :: "'w hiredis \<Rightarrow> string \<Rightarrow> string list \<Rightarrow> string list \<Rightarrow> CacheConn \<Rightarrow> 'w \<Rightarrow> ('w, bool \<times> string list) cache_outcome" where
  "cache_hmget lib key flds ret_value = when_init lib (False, ret_value) (\<lambda>c w.
     bind_r (hmget_argv key flds) (\<lambda>argv. on_context lib argv (False, ret_value)
       (\<lambda>r. Inr (True, if reply_kind r = REDIS_REPLY_ARRAY then ret_value @ map reply_text (reply_elements r) else ret_value)) c w))"

section \<open>Commands on lists\<close>

definition cache_lpush :: "'w hiredis \<Rightarrow> string \<Rightarrow> string \<Rightarrow> CacheConn \<Rightarrow> 'w \<Rightarrow> ('w, int) cache_outcome" where
  "cache_lpush lib key v = cache_command lib [''LPUSH'', c_str key, c_str v] (-1) reply_integer"

definition cache_rpush :: "'w hiredis \<Rightarrow> string \<Rightarrow> string \<Rightarrow> CacheConn \<Rightarrow> 'w \<Rightarrow> ('w, int) cache_outcome" where
  "cache_rpush lib key v = cache_command lib [''RPUSH'', c_str key, c_str v] (-1) reply_integer"

definition cache_llen :: "'w hiredis \<Rightarrow> string \<Rightarrow> CacheConn \<Rightarrow> 'w \<Rightarrow> ('w, int) cache_outcome" where
  "cache_llen lib key = cache_command lib [''LLEN'', c_str key] (-1) reply_integer"

text \<open>\<open>lrange\<close> prints two \<open>long\<close> arguments with \<open>%d\<close>, which on the code's platform takes their low 32 bits.\<close>

definition low_int :: "int \<Rightarrow> int" where
  "low_int v = sint (word_of_int v :: 32 word)"

definition cache_lrange :: "'w hiredis \<Rightarrow> string \<Rightarrow> int \<Rightarrow> int \<Rightarrow> string list \<Rightarrow> CacheConn \<Rightarrow> 'w \<Rightarrow> ('w, bool \<times> string list) cache_outcome" where
  "cache_lrange lib key start stop ret_value = cache_command lib
     [''LRANGE'', c_str key, show_int (low_int start), show_int (low_int stop)] (False, ret_value)
     (\<lambda>r. (True, if reply_kind r = REDIS_REPLY_ARRAY then ret_value @ map reply_text (reply_elements r) else ret_value))"

section \<open>Argument vectors\<close>

lemma argv_fill_result:
  "i + length ss \<le> length argv \<Longrightarrow>
   argv_fill ss (i, argv) = Inr (i + length ss, take i argv @ map (\<lambda>s. Some (c_str s)) ss @ drop (i + length ss) argv)"
proof (induction ss arbitrary: i argv)
  case (Cons s ss)
  then have i: "i < length argv" by simp
  have "argv_fill (s # ss) (i, argv) = argv_fill ss (Suc i, argv[i := Some (c_str s)])"
    using i by (simp add: argv_write_def)
  then show ?case using Cons.IH[of "Suc i" "argv[i := Some (c_str s)]"] Cons.prems i
    by (simp add: take_Suc_conv_app_nth drop_update_cancel)
qed simp

lemma argv_pass_full: "argv_pass (map (\<lambda>s. Some (f s)) ss) = Inr (map f ss)"
  by (induction ss) (auto simp: argv_pass_def)

lemma length_pairs: "length (concat (map (\<lambda>(f, v). [f, v]) hash)) = length hash * 2"
  by (induction hash) auto

lemma c_str_names: "c_str ''HMSET'' = ''HMSET''" "c_str ''HMGET'' = ''HMGET''"
  by (simp_all add: c_str_def)

lemma hmset_argv_result:
  "hmset_argv key hash = Inr (''HMSET'' # c_str key # concat (map (\<lambda>(f, v). [c_str f, c_str v]) hash))"
proof -
  have m: "map c_str (concat (map (\<lambda>(f, v). [f, v]) hash)) = concat (map (\<lambda>(f, v). [c_str f, c_str v]) hash)"
    by (induction hash) auto
  show ?thesis
    using argv_fill_result[of 0 "''HMSET'' # key # concat (map (\<lambda>(f, v). [f, v]) hash)" "replicate (length hash * 2 + 2) None"]
      argv_pass_full[of c_str "''HMSET'' # key # concat (map (\<lambda>(f, v). [f, v]) hash)"]
    by (simp add: hmset_argv_def length_pairs m c_str_names)
qed

lemma hmget_argv_result: "hmget_argv key flds = Inr (''HMGET'' # c_str key # map c_str flds)"
  using argv_fill_result[of 0 "''HMGET'' # key # flds" "replicate (length flds + 2) None"]
    argv_pass_full[of c_str "''HMGET'' # key # flds"]
  by (simp add: hmget_argv_def c_str_names)

text \<open>The argument vectors of \<open>hmset\<close> and \<open>hmget\<close> are exactly filled: no entry is written out of bounds,
  none is left uninitialised, and the command handed over has the name, the key and then the
  pairs of the map, or the fields, in order.\<close>

theorem argv_exactly_filled:
  "hmset_argv key hash = Inr (''HMSET'' # c_str key # concat (map (\<lambda>(f, v). [c_str f, c_str v]) hash)) \<and>
   hmget_argv key flds = Inr (''HMGET'' # c_str key # map c_str flds)"
  by (rule conjI [OF hmset_argv_result hmget_argv_result])

section \<open>A connection's life\<close>

datatype cache_cmd = Cmd_get string | Cmd_setExpire string int string | Cmd_set string string | Cmd_mget "string list" string_map
  | Cmd_isExist string | Cmd_incrBy string int | Cmd_incr string | Cmd_decr string | Cmd_hdel string string | Cmd_hget string string
  | Cmd_hgetAll string string_map | Cmd_hset string string string | Cmd_hincrBy string string int | Cmd_hmset string string_map
  | Cmd_hmget string "string list" "string list" | Cmd_lpush string string | Cmd_rpush string string | Cmd_llen string
  | Cmd_lrange string int int "string list"

definition drop_value :: "('w, 'b) cache_outcome \<Rightarrow> cxx_error + (CacheConn \<times> 'w)" where
  "drop_value r = bind_r r (\<lambda>(v, c, w). Inr (c, w))"

fun run_cmd :: "'w hiredis \<Rightarrow> cache_cmd \<Rightarrow> CacheConn \<Rightarrow> 'w \<Rightarrow> cxx_error + (CacheConn \<times> 'w)" where
  "run_cmd lib (Cmd_get k) c w = drop_value (cache_get lib k c w)"
| "run_cmd lib (Cmd_setExpire k t v) c w = drop_value (cache_setExpire lib k t v c w)"
| "run_cmd lib (Cmd_set k v) c w = drop_value (cache_set lib k v c w)"
| "run_cmd lib (Cmd_mget ks m) c w = drop_value (cache_mget lib ks m c w)"
| "run_cmd lib (Cmd_isExist k) c w = drop_value (cache_isExist lib k c w)"
| "run_cmd lib (Cmd_incrBy k v) c w = drop_value (cache_incrBy lib k v c w)"
| "run_cmd lib (Cmd_incr k) c w = drop_value (cache_incr lib k c w)"
| "run_cmd lib (Cmd_decr k) c w = drop_value (cache_decr lib k c w)"
| "run_cmd lib (Cmd_hdel k f) c w = drop_value (cache_hdel lib k f c w)"
| "run_cmd lib (Cmd_hget k f) c w = drop_value (cache_hget lib k f c w)"
| "run_cmd lib (Cmd_hgetAll k m) c w = drop_value (cache_hgetAll lib k m c w)"
| "run_cmd lib (Cmd_hset k f v) c w = drop_value (cache_hset lib k f v c w)"
| "run_cmd lib (Cmd_hincrBy k f v) c w = drop_value (cache_hincrBy lib k f v c w)"
| "run_cmd lib (Cmd_hmset k h) c w = drop_value (cache_hmset lib k h c w)"
| "run_cmd lib (Cmd_hmget k fs r) c w = drop_value (cache_hmget lib k fs r c w)"
| "run_cmd lib (Cmd_lpush k v) c w = drop_value (cache_lpush lib k v c w)"
| "run_cmd lib (Cmd_rpush k v) c w = drop_value (cache_rpush lib k v c w)"
| "run_cmd lib (Cmd_llen k) c w = drop_value (cache_llen lib k c w)"
| "run_cmd lib (Cmd_lrange k a b r) c w = drop_value (cache_lrange lib k a b r c w)"

primrec run_cmds :: "'w hiredis \<Rightarrow> cache_cmd list \<Rightarrow> CacheConn \<Rightarrow> 'w \<Rightarrow> cxx_error + (CacheConn \<times> 'w)" where
  "run_cmds lib [] c w = Inr (c, w)"
| "run_cmds lib (x # xs) c w = bind_r (run_cmd lib x c w) (\<lambda>(c', w'). run_cmds lib xs c' w')"

definition dangling :: "CacheConn \<Rightarrow> bool" where
  "dangling c \<longleftrightarrow> (case m_pContext c of Ctx_freed h \<Rightarrow> True | _ \<Rightarrow> False)"

text \<open>The commands that depend on nothing but a reply.\<close>

fun plain_cmd :: "cache_cmd \<Rightarrow> bool" where
  "plain_cmd (Cmd_isExist k) = False"
| "plain_cmd (Cmd_mget ks m) = False"
| "plain_cmd (Cmd_hgetAll k m) = False"
| "plain_cmd _ = True"

lemma Init_context:
  "CacheConn_Init lib c w = (ret, c', w') \<Longrightarrow> \<not> dangling c \<Longrightarrow> \<not> dangling c' \<and> (ret = 0 \<longrightarrow> (\<exists>h. m_pContext c' = Ctx h))"
  by (cases "m_pContext c") (auto simp: CacheConn_Init_def dangling_def Let_def split: if_splits prod.splits connect_answer.splits)

text \<open>A command that returns, and leaves no dangling context.\<close>

definition safe_end :: "('w, 'b) cache_outcome \<Rightarrow> bool" where
  "safe_end r \<longleftrightarrow> (case r of Inl _ \<Rightarrow> False | Inr (v, c, w) \<Rightarrow> \<not> dangling c)"

definition safe_state :: "cxx_error + (CacheConn \<times> 'w) \<Rightarrow> bool" where
  "safe_state r \<longleftrightarrow> (case r of Inl _ \<Rightarrow> False | Inr (c, w) \<Rightarrow> \<not> dangling c)"

lemma safe_stateD: "safe_state r \<Longrightarrow> \<exists>c w. r = Inr (c, w) \<and> \<not> dangling c"
  by (auto simp: safe_state_def split: sum.splits)

text \<open>What each command sends, if it sends anything, and the answers it can cope with. \<open>isExist\<close> needs one,
  \<open>mget\<close> an array with no more strings than keys, and \<open>hgetAll\<close> values that are not shorter than their
  fields, but for one byte.\<close>

fun cmd_args :: "'w hiredis \<Rightarrow> cache_cmd \<Rightarrow> string list option" where
  "cmd_args lib (Cmd_get k) = Some [''GET'', c_str k]"
| "cmd_args lib (Cmd_setExpire k t v) = Some [''SETEX'', c_str k, show_int t, c_str v]"
| "cmd_args lib (Cmd_set k v) = Some [''SET'', c_str k, c_str v]"
| "cmd_args lib (Cmd_mget ks m) = (if join_keys ks = '''' then None else redis_split lib (c_str (''MGET'' @ join_keys ks)))"
| "cmd_args lib (Cmd_isExist k) = Some [''EXISTS'', c_str k]"
| "cmd_args lib (Cmd_incrBy k v) = Some [''INCRBY'', c_str k, show_int v]"
| "cmd_args lib (Cmd_incr k) = Some [''INCR'', c_str k]"
| "cmd_args lib (Cmd_decr k) = Some [''DECR'', c_str k]"
| "cmd_args lib (Cmd_hdel k f) = Some [''HDEL'', c_str k, c_str f]"
| "cmd_args lib (Cmd_hget k f) = Some [''GET'', c_str k, c_str f]"
| "cmd_args lib (Cmd_hgetAll k m) = Some [''HEGTALL'', c_str k]"
| "cmd_args lib (Cmd_hset k f v) = Some [''HSET'', c_str k, c_str f, c_str v]"
| "cmd_args lib (Cmd_hincrBy k f v) = Some [''HINCRBY'', c_str k, c_str f, show_int v]"
| "cmd_args lib (Cmd_hmset k h) = Some (''HMSET'' # c_str k # concat (map (\<lambda>(f, v). [c_str f, c_str v]) h))"
| "cmd_args lib (Cmd_hmget k fs r) = Some (''HMGET'' # c_str k # map c_str fs)"
| "cmd_args lib (Cmd_lpush k v) = Some [''LPUSH'', c_str k, c_str v]"
| "cmd_args lib (Cmd_rpush k v) = Some [''RPUSH'', c_str k, c_str v]"
| "cmd_args lib (Cmd_llen k) = Some [''LLEN'', c_str k]"
| "cmd_args lib (Cmd_lrange k a b r) = Some [''LRANGE'', c_str k, show_int (low_int a), show_int (low_int b)]"

fun sends_nothing :: "cache_cmd \<Rightarrow> bool" where
  "sends_nothing (Cmd_mget ks m) = (join_keys ks = '''')"
| "sends_nothing _ = False"

fun pairs_fit :: "redisReply list \<Rightarrow> bool" where
  "pairs_fit (f # v # rs) =
     ((case reply_str v of None \<Rightarrow> reply_text f = '''' | Some s \<Rightarrow> length (reply_text f) \<le> length s + 1) \<and> pairs_fit rs)"
| "pairs_fit _ = True"

fun reply_ok :: "cache_cmd \<Rightarrow> redisReply option \<Rightarrow> bool" where
  "reply_ok (Cmd_isExist k) r = (r \<noteq> None)"
| "reply_ok (Cmd_mget ks m) (Some r) = (reply_kind r = REDIS_REPLY_ARRAY \<longrightarrow>
     (\<forall>i < length (reply_elements r). reply_kind (reply_elements r ! i) = REDIS_REPLY_STRING \<longrightarrow> i < length ks))"
| "reply_ok (Cmd_hgetAll k m) (Some r) = (reply_kind r = REDIS_REPLY_ARRAY \<and> even (length (reply_elements r)) \<longrightarrow>
     pairs_fit (reply_elements r))"
| "reply_ok _ _ = True"

text \<open>A command that gets a connection is answered well: what it sends can be sent, and it can cope with the
  answer.\<close>

definition well_answered :: "'w hiredis \<Rightarrow> cache_cmd \<Rightarrow> CacheConn \<Rightarrow> 'w \<Rightarrow> bool" where
  "well_answered lib x c w \<longleftrightarrow>
     (let (ret, c1, w1) = CacheConn_Init lib c w in
      ret \<noteq> 0 \<or> sends_nothing x \<or>
      (\<exists>h args. m_pContext c1 = Ctx h \<and> cmd_args lib x = Some args \<and> reply_ok x (fst (redis_argv lib h args w1))))"

primrec well_run :: "'w hiredis \<Rightarrow> cache_cmd list \<Rightarrow> CacheConn \<Rightarrow> 'w \<Rightarrow> bool" where
  "well_run lib [] c w = True"
| "well_run lib (x # xs) c w = (well_answered lib x c w \<and> (\<forall>c' w'. run_cmd lib x c w = Inr (c', w') \<longrightarrow> well_run lib xs c' w'))"

lemma mget_returns:
  "returns (mget_elements i rs keys m) \<longleftrightarrow> (\<forall>j < length rs. reply_kind (rs ! j) = REDIS_REPLY_STRING \<longrightarrow> i + j < length keys)"
proof (induction i rs keys m rule: mget_elements.induct)
  case (2 i r rs keys m)
  then show ?case by (auto simp: All_less_Suc2)
qed simp

lemma returns_bind: "returns (bind_r m f) \<longleftrightarrow> (\<exists>x. m = Inr x \<and> returns (f x))"
  by (cases m) simp_all

lemma hgetAll_returns: "returns (hgetAll_pairs rs m) \<longleftrightarrow> pairs_fit rs"
proof (induction rs m rule: hgetAll_pairs.induct)
  case (1 f v rs m)
  then show ?case by (cases "reply_str v") (auto simp: copy_bytes_def returns_bind)
qed simp_all

lemma on_context_exact:
  assumes "m_pContext c = Ctx h"
  shows "safe_end (on_context lib args failed k c w) \<longleftrightarrow> (\<forall>r. fst (redis_argv lib h args w) = Some r \<longrightarrow> returns (k r))"
proof -
  obtain reply w1 where r: "redis_argv lib h args w = (reply, w1)" by (cases "redis_argv lib h args w")
  show ?thesis
  proof (cases reply)
    case None
    then show ?thesis using assms r by (simp add: on_context_def dangling_def safe_end_def)
  next
    case (Some x)
    then show ?thesis using assms r by (cases "k x") (simp_all add: on_context_def dangling_def safe_end_def returns_iff)
  qed
qed

lemma when_init_exact:
  assumes "\<not> dangling c"
  shows "safe_end (when_init lib failed body c w) \<longleftrightarrow>
    (let (ret, c1, w1) = CacheConn_Init lib c w in ret \<noteq> 0 \<or> (\<exists>h. m_pContext c1 = Ctx h) \<and> safe_end (body c1 w1))"
proof -
  obtain ret c1 w1 where i: "CacheConn_Init lib c w = (ret, c1, w1)" by (metis prod_cases3)
  show ?thesis using Init_context[OF i assms] i by (auto simp: when_init_def safe_end_def)
qed

lemmas command_defs = cache_get_def cache_setExpire_def cache_set_def cache_incrBy_def cache_incr_def cache_decr_def cache_hdel_def
  cache_hget_def cache_hset_def cache_hincrBy_def cache_lpush_def cache_rpush_def cache_llen_def cache_lrange_def

lemma drop_value_safe: "safe_state (drop_value r) \<longleftrightarrow> safe_end r"
  by (auto simp: drop_value_def safe_end_def safe_state_def split: sum.splits)


text \<open>Exactly the commands that are answered well return and leave no dangling context.\<close>

lemma run_cmd_exact: "\<not> dangling c \<Longrightarrow> safe_state (run_cmd lib x c w) \<longleftrightarrow> well_answered lib x c w"
proof -
  assume c: "\<not> dangling c"
  obtain ret c1 w1 where i: "CacheConn_Init lib c w = (ret, c1, w1)" by (metis prod_cases3)
  note init = when_init_exact[OF c, unfolded i Let_def split]
  show ?thesis
  proof (cases "ret = 0")
    case False
    then show ?thesis
      by (cases x) (simp_all add: drop_value_safe command_defs cache_command_def cache_mget_def cache_isExist_def cache_hgetAll_def
          cache_hmset_def cache_hmget_def init well_answered_def i)
  next
    case True
    then obtain h where h: "m_pContext c1 = Ctx h" using Init_context[OF i c] by blast
    note exact = on_context_exact[OF h]
    show ?thesis
    proof (cases x)
      case (Cmd_mget ks m)
      show ?thesis
      proof (cases "join_keys ks = ''''")
        case False
        then have "ks \<noteq> []" by auto
        with Cmd_mget False True h i show ?thesis
          by (cases "redis_split lib (c_str (''MGET'' @ join_keys ks))"; cases "fst (redis_argv lib h (the (redis_split lib (c_str (''MGET'' @ join_keys ks)))) w1)")
            (simp_all add: drop_value_safe cache_mget_def init well_answered_def exact Let_def safe_end_def[of "Inl _"] returns_bind mget_returns returns_iff[symmetric])
      next
        case True
        then show ?thesis using Cmd_mget \<open>ret = 0\<close> i Init_context[OF i c]
          by (cases "ks = []") (simp_all add: drop_value_safe cache_mget_def init well_answered_def safe_end_def[of "Inr _"] Let_def)
      qed
    next
      case (Cmd_isExist k)
      then show ?thesis using True h i
        by (cases "redis_argv lib h [''EXISTS'', c_str k] w1"; cases "fst (redis_argv lib h [''EXISTS'', c_str k] w1)")
          (simp_all add: drop_value_safe cache_isExist_def init well_answered_def safe_end_def[of "Inr _"] dangling_def)
    next
      case (Cmd_hgetAll k m)
      then show ?thesis using True h i
        by (cases "fst (redis_argv lib h [''HEGTALL'', c_str k] w1)")
          (auto simp: drop_value_safe cache_hgetAll_def init well_answered_def exact returns_bind hgetAll_returns returns_iff[symmetric])
    qed (use True h i in \<open>simp_all add: drop_value_safe command_defs cache_command_def cache_hmset_def cache_hmget_def hmset_argv_result
        hmget_argv_result init well_answered_def exact\<close>)
  qed
qed

lemma plain_answered: "plain_cmd x \<Longrightarrow> \<not> dangling c \<Longrightarrow> well_answered lib x c w"
proof -
  assume x: "plain_cmd x" and c: "\<not> dangling c"
  obtain ret c1 w1 where i: "CacheConn_Init lib c w = (ret, c1, w1)" by (metis prod_cases3)
  have "\<exists>args. cmd_args lib x = Some args" "reply_ok x r" for r using x by (cases x; simp)+
  then show ?thesis using Init_context[OF i c] by (auto simp: well_answered_def i)
qed

lemma safe_run: "\<not> dangling c \<Longrightarrow> well_answered lib x c w \<Longrightarrow> \<exists>c' w'. run_cmd lib x c w = Inr (c', w') \<and> \<not> dangling c'"
  using run_cmd_exact[of c lib x w] safe_stateD[of "run_cmd lib x c w"] by simp

lemma plain_run: "list_all plain_cmd xs \<Longrightarrow> \<not> dangling c \<Longrightarrow> well_run lib xs c w"
proof (induction xs arbitrary: c w)
  case (Cons y ys c w)
  then have y: "well_answered lib y c w" using plain_answered[of y] by simp
  from safe_run[OF Cons.prems(2) y] Cons.IH Cons.prems(1) y show ?case by auto
qed simp

lemma run_cmds_safe: "well_run lib xs c w \<Longrightarrow> \<not> dangling c \<Longrightarrow> \<exists>c' w'. run_cmds lib xs c w = Inr (c', w') \<and> \<not> dangling c'"
proof (induction xs arbitrary: c w)
  case (Cons x xs)
  then obtain c1 w1 where "run_cmd lib x c w = Inr (c1, w1)" "\<not> dangling c1" using safe_run by (metis well_run.simps(2))
  with Cons show ?case by auto
qed simp

lemma delete_returns: "\<not> dangling c \<longleftrightarrow> (\<exists>w'. CacheConn_delete lib c w = Inr w')"
  by (cases "m_pContext c") (simp_all add: CacheConn_delete_def dangling_def)

text \<open>After a freed context that is still pointed to, every command is undefined.\<close>

lemma when_init_dangling:
  "dangling c \<Longrightarrow> when_init lib failed body c w = body c w"
  by (cases "m_pContext c") (simp_all add: when_init_def CacheConn_Init_def dangling_def)

lemma on_context_dangling: "dangling c \<Longrightarrow> on_context lib args failed k c w = Inl Undefined_Behaviour"
  by (cases "m_pContext c") (simp_all add: on_context_def dangling_def)

lemma isExist_dangling: "dangling c \<Longrightarrow> cache_isExist lib key c w = Inl Undefined_Behaviour"
  by (cases "m_pContext c") (simp_all add: cache_isExist_def when_init_dangling dangling_def)

fun needs_context :: "cache_cmd \<Rightarrow> bool" where
  "needs_context (Cmd_mget ks m) = (join_keys ks \<noteq> '''')"
| "needs_context _ = True"

lemma run_cmd_dangling:
  "dangling c \<Longrightarrow> needs_context x \<Longrightarrow> run_cmd lib x c w = Inl Undefined_Behaviour"
  by (cases x) (auto simp: drop_value_def command_defs cache_command_def cache_hgetAll_def cache_hmset_def cache_hmget_def cache_mget_def
    isExist_dangling when_init_dangling on_context_dangling hmset_argv_result hmget_argv_result Let_def split: option.split)

text \<open>C18. When a command is safe, and when a sequence of commands is. From a connection that does not point to a
  freed context a command returns, and leaves no such pointer, exactly if it is answered well: it gets no
  connection, or sends nothing, or what it sends can be formatted and the answer is one it can cope with. That
  is every answer for all commands but three: \<open>isExist\<close> must not lose its reply, \<open>mget\<close> must not get more strings
  than it has keys, and \<open>hgetAll\<close> no value that is more than a byte shorter than its field. A sequence in which each
  command is answered well returns, and so does the destructor after it. After \<open>isExist\<close> has lost its reply
  the connection points to the context it has freed, and every later command that uses the context, and
  the destructor, is undefined.\<close>

theorem cache_context_lifetime:
  assumes "\<not> dangling c"
  shows "((\<exists>c' w'. run_cmd lib x c w = Inr (c', w') \<and> \<not> dangling c') \<longleftrightarrow> well_answered lib x c w) \<and>
    (plain_cmd x \<longrightarrow> well_answered lib x c w) \<and>
    (well_run lib xs c w \<longrightarrow>
       (\<exists>c' w' w''. run_cmds lib xs c w = Inr (c', w') \<and> \<not> dangling c' \<and> CacheConn_delete lib c' w' = Inr w'')) \<and>
    (\<forall>h w1. m_pContext c = Ctx h \<and> redis_argv lib h [''EXISTS'', c_str key] w = (None, w1) \<longrightarrow>
       (\<exists>c'. cache_isExist lib key c w = Inr (False, c', redis_free lib h w1) \<and>
         (\<forall>x w2. needs_context x \<longrightarrow> run_cmd lib x c' w2 = Inl Undefined_Behaviour) \<and>
         (\<forall>w2. CacheConn_delete lib c' w2 = Inl Undefined_Behaviour)))"
proof (intro conjI impI allI)
  show "(\<exists>c' w'. run_cmd lib x c w = Inr (c', w') \<and> \<not> dangling c') \<longleftrightarrow> well_answered lib x c w"
    unfolding run_cmd_exact[OF assms, symmetric] safe_state_def by (auto split: sum.splits)
  show "well_answered lib x c w" if "plain_cmd x" using plain_answered[OF that assms] .
  assume "well_run lib xs c w"
  from run_cmds_safe[OF this assms] obtain c' w' where "run_cmds lib xs c w = Inr (c', w')" "\<not> dangling c'" by blast
  moreover from this(2) obtain w'' where "CacheConn_delete lib c' w' = Inr w''" using delete_returns[of c' lib w'] by blast
  ultimately show "\<exists>c' w' w''. run_cmds lib xs c w = Inr (c', w') \<and> \<not> dangling c' \<and> CacheConn_delete lib c' w' = Inr w''" by blast
next
  fix h w1 assume "m_pContext c = Ctx h \<and> redis_argv lib h [''EXISTS'', c_str key] w = (None, w1)"
  then have 1: "cache_isExist lib key c w = Inr (False, c\<lparr>m_pContext := Ctx_freed h\<rparr>, redis_free lib h w1)"
    by (simp add: cache_isExist_def when_init_def CacheConn_Init_def)
  have "dangling (c\<lparr>m_pContext := Ctx_freed h\<rparr>)" by (simp add: dangling_def)
  then have 2: "\<forall>x w2. needs_context x \<longrightarrow> run_cmd lib x (c\<lparr>m_pContext := Ctx_freed h\<rparr>) w2 = Inl Undefined_Behaviour"
    by (simp add: run_cmd_dangling)
  have 3: "\<forall>w2. CacheConn_delete lib (c\<lparr>m_pContext := Ctx_freed h\<rparr>) w2 = Inl Undefined_Behaviour" by (simp add: CacheConn_delete_def)
  show "\<exists>c'. cache_isExist lib key c w = Inr (False, c', redis_free lib h w1) \<and>
         (\<forall>x w2. needs_context x \<longrightarrow> run_cmd lib x c' w2 = Inl Undefined_Behaviour) \<and>
         (\<forall>w2. CacheConn_delete lib c' w2 = Inl Undefined_Behaviour)"
    by (rule exI, rule conjI, rule 1, rule conjI, rule 2, rule 3)
qed

section \<open>A reference server\<close>

text \<open>A library over a simple server: the world is the clock, whether the network works, the next
  context and the stored strings.\<close>

record demo_server =
  ds_clock :: u64
  ds_up :: bool
  ds_next :: nat
  ds_store :: "(string \<times> string) list"

definition demo_answer :: "string list \<Rightarrow> demo_server \<Rightarrow> redisReply \<times> demo_server" where
  "demo_answer args w =
     (case args of
        [cmd, a] \<Rightarrow>
          (if cmd = ''select'' then (Reply REDIS_REPLY_STATUS 0 (Some ''OK'') [], w)
           else if cmd = ''GET'' then
             ((case map_of (ds_store w) a of
                 None \<Rightarrow> Reply REDIS_REPLY_NIL 0 None []
               | Some v \<Rightarrow> Reply REDIS_REPLY_STRING 0 (Some v) []), w)
           else (Reply REDIS_REPLY_ERROR 0 (Some ''ERR unknown command'') [], w))
      | [cmd, a, b] \<Rightarrow>
          (if cmd = ''SET'' then (Reply REDIS_REPLY_STATUS 0 (Some ''OK'') [], w\<lparr>ds_store := (a, b) # ds_store w\<rparr>)
           else (Reply REDIS_REPLY_ERROR 0 (Some ''ERR wrong number of arguments'') [], w))
      | _ \<Rightarrow> (Reply REDIS_REPLY_ERROR 0 (Some ''ERR unknown command'') [], w))"

definition demo_redis :: "demo_server hiredis" where
  "demo_redis = \<lparr>redis_time = ds_clock,
     redis_connect = (\<lambda>ip port w. if ds_up w then (Connect_ok (ds_next w), w\<lparr>ds_next := Suc (ds_next w)\<rparr>) else (Connect_null, w)),
     redis_argv = (\<lambda>h args w. if ds_up w then (let (r, w') = demo_answer args w in (Some r, w')) else (None, w)),
     redis_split = (\<lambda>s. Some [s]), redis_free = (\<lambda>h w. w)\<rparr>"

definition demo_cache :: "redis_context \<Rightarrow> u64 \<Rightarrow> CacheConn" where
  "demo_cache ctx t = \<lparr>m_pKcaChePool = \<lparr>m_pool_name = ''r'', m_server_ip = ''127.0.0.1'', m_server_port = 6379, m_db_number = 1\<rparr>,
     m_pContext = ctx, m_last_connect_time = t\<rparr>"

theorem cache_context_lifetime_witness:
  "cache_isExist demo_redis ''k'' (demo_cache (Ctx 3) 10) (demo_server.make 20 False 4 []) =
     Inr (False, demo_cache (Ctx_freed 3) 10, demo_server.make 20 False 4 []) \<and>
   run_cmd demo_redis (Cmd_get ''k'') (demo_cache (Ctx_freed 3) 10) (demo_server.make 30 True 4 []) = Inl Undefined_Behaviour"
proof -
  let ?w = "demo_server.make 20 False 4 []"
  have nd: "\<not> dangling (demo_cache (Ctx 3) 10)" by (simp add: dangling_def demo_cache_def)
  have ex: "cache_isExist demo_redis ''k'' (demo_cache (Ctx 3) 10) ?w = Inr (False, demo_cache (Ctx_freed 3) 10, ?w)"
    by (simp add: cache_isExist_def when_init_def CacheConn_Init_def demo_cache_def demo_redis_def demo_server.make_def)
  have none: "m_pContext (demo_cache (Ctx 3) 10) = Ctx 3 \<and> redis_argv demo_redis 3 [''EXISTS'', c_str ''k''] ?w = (None, ?w)"
    by (simp add: demo_cache_def demo_redis_def demo_server.make_def)
  from cache_context_lifetime[OF nd, where lib = demo_redis and w = ?w and key = "''k''"] none
  obtain c' where c': "cache_isExist demo_redis ''k'' (demo_cache (Ctx 3) 10) ?w = Inr (False, c', redis_free demo_redis 3 ?w)"
    "\<forall>x w2. needs_context x \<longrightarrow> run_cmd demo_redis x c' w2 = Inl Undefined_Behaviour" by blast
  have "c' = demo_cache (Ctx_freed 3) 10" using c'(1) ex by simp
  moreover have "needs_context (Cmd_get ''k'')" by simp
  ultimately show ?thesis using c'(2) ex by blast
qed

section \<open>Reconnecting\<close>

text \<open>A journal of what a connection does with the library: each attempt to connect with its time, its address
  and its answer, each command sent and each context freed. \<open>journal lib\<close> is \<open>lib\<close> with the journal kept
  beside the world.\<close>

datatype redis_event = Tried u64 string int connect_answer | Sent nat "string list" | Freed nat

definition journal :: "'w hiredis \<Rightarrow> ('w \<times> redis_event list) hiredis" where
  "journal lib = \<lparr>redis_time = (\<lambda>s. redis_time lib (fst s)),
     redis_connect = (\<lambda>ip port s. let (answer, w1) = redis_connect lib ip port (fst s) in
       (answer, (w1, snd s @ [Tried (redis_time lib (fst s)) ip port answer]))),
     redis_argv = (\<lambda>h args s. let (reply, w1) = redis_argv lib h args (fst s) in (reply, (w1, snd s @ [Sent h args]))),
     redis_split = redis_split lib,
     redis_free = (\<lambda>h s. (redis_free lib h (fst s), snd s @ [Freed h]))\<rparr>"

text \<open>The protocol of a connection to the cache of \<open>p\<close>, which a journal may keep to: it connects only
  without a context, to the server of the pool, and no sooner than four seconds after the last attempt; a
  context that came with an error is freed at once; on a new one the database of the pool is selected first;
  then commands are sent on it until it is freed.\<close>

datatype cache_phase = Unconnected | Broken nat | Fresh nat | Connected nat

fun protocol_step :: "cache_info \<Rightarrow> cache_phase \<times> u64 \<Rightarrow> redis_event \<Rightarrow> (cache_phase \<times> u64) option" where
  "protocol_step p (Unconnected, t0) (Tried t ip port answer) =
     (if \<not> t < t0 + 4 \<and> ip = cache_getServerIP p \<and> port = cache_getServerPort p
      then Some (case answer of Connect_null \<Rightarrow> Unconnected | Connect_err h \<Rightarrow> Broken h | Connect_ok h \<Rightarrow> Fresh h, t) else None)"
| "protocol_step p (Broken h, t0) (Freed h') = (if h' = h then Some (Unconnected, t0) else None)"
| "protocol_step p (Fresh h, t0) (Sent h' args) =
     (if h' = h \<and> args = [''select'', show_int (cache_getDBNum p)] then Some (Connected h, t0) else None)"
| "protocol_step p (Connected h, t0) (Sent h' args) = (if h' = h then Some (Connected h, t0) else None)"
| "protocol_step p (Connected h, t0) (Freed h') = (if h' = h then Some (Unconnected, t0) else None)"
| "protocol_step p _ _ = None"

primrec protocol :: "cache_info \<Rightarrow> cache_phase \<times> u64 \<Rightarrow> redis_event list \<Rightarrow> (cache_phase \<times> u64) option" where
  "protocol p st [] = Some st"
| "protocol p st (e # es) = Option.bind (protocol_step p st e) (\<lambda>st'. protocol p st' es)"

lemma protocol_append: "protocol p st (es @ fs) = Option.bind (protocol p st es) (\<lambda>st'. protocol p st' fs)"
  by (induction es arbitrary: st) (simp_all add: bind_assoc)

text \<open>Where a connection stands: with a live context, or idle.\<close>

definition stands :: "CacheConn \<Rightarrow> cache_phase \<times> u64" where
  "stands c = (case m_pContext c of Ctx h \<Rightarrow> Connected h | _ \<Rightarrow> Unconnected, m_last_connect_time c)"

definition abides :: "cache_info \<Rightarrow> CacheConn \<Rightarrow> redis_event list \<Rightarrow> bool" where
  "abides p c tr \<longleftrightarrow> m_pKcaChePool c = p \<and> protocol p (Unconnected, 0) tr = Some (stands c)"

definition kept :: "cache_info \<Rightarrow> ('w \<times> redis_event list, 'b) cache_outcome \<Rightarrow> bool" where
  "kept p r \<longleftrightarrow> (case r of Inl _ \<Rightarrow> True | Inr (v, c, s) \<Rightarrow> abides p c (snd s))"

lemma kept_simps [simp]: "kept p (Inl e)" "kept p (Inr (v, c, s)) \<longleftrightarrow> abides p c (snd s)"
  by (simp_all add: kept_def)

lemma Init_abides:
  assumes "abides p c (snd s)" and "CacheConn_Init (journal lib) c s = (ret, c1, s1)"
  shows "abides p c1 (snd s1)"
  using assms by (auto simp: CacheConn_Init_def journal_def Let_def abides_def stands_def protocol_append
      split: if_splits prod.splits connect_answer.splits)

lemma on_context_kept: "abides p c (snd s) \<Longrightarrow> kept p (on_context (journal lib) args failed k c s)"
  by (auto simp: on_context_def journal_def abides_def stands_def protocol_append Let_def bind_r_def
      split: redis_context.splits prod.splits option.splits sum.splits)

lemma when_init_kept:
  assumes "\<And>c s. abides p c (snd s) \<Longrightarrow> kept p (body c s)" and "abides p c (snd s)"
  shows "kept p (when_init (journal lib) failed body c s)"
proof -
  obtain ret c1 s1 where i: "CacheConn_Init (journal lib) c s = (ret, c1, s1)" by (metis prod_cases3)
  show ?thesis using Init_abides[OF assms(2) i] assms(1)[of c1 s1] by (simp add: when_init_def i)
qed

lemma isExist_kept: "abides p c (snd s) \<Longrightarrow> kept p (cache_isExist (journal lib) key c s)"
  unfolding cache_isExist_def
  by (rule when_init_kept) (auto simp: journal_def abides_def stands_def protocol_append Let_def
      split: redis_context.splits prod.splits option.splits)

lemma mget_kept: "abides p c (snd s) \<Longrightarrow> kept p (cache_mget (journal lib) keys m c s)"
  unfolding cache_mget_def by (rule when_init_kept) (auto simp: Let_def on_context_kept split: option.split)

definition kept_end :: "cache_info \<Rightarrow> cxx_error + (CacheConn \<times> 'w \<times> redis_event list) \<Rightarrow> bool" where
  "kept_end p r \<longleftrightarrow> (case r of Inl _ \<Rightarrow> True | Inr (c, s) \<Rightarrow> abides p c (snd s))"

lemma drop_value_kept: "kept_end p (drop_value r) \<longleftrightarrow> kept p r"
  by (auto simp: kept_end_def kept_def drop_value_def split: sum.splits)

lemma run_cmd_kept: "abides p c (snd s) \<Longrightarrow> kept_end p (run_cmd (journal lib) x c s)"
  by (cases x) (simp_all add: drop_value_kept command_defs cache_command_def isExist_kept mget_kept cache_hgetAll_def
      cache_hmset_def cache_hmget_def hmset_argv_result hmget_argv_result when_init_kept on_context_kept)

lemma run_cmds_kept: "abides p c (snd s) \<Longrightarrow> kept_end p (run_cmds (journal lib) xs c s)"
proof (induction xs arbitrary: c s)
  case (Cons y ys c s)
  then show ?case using run_cmd_kept[OF Cons.prems, of lib y]
    by (cases "run_cmd (journal lib) y c s") (auto simp: kept_end_def)
qed (simp add: kept_end_def)

text \<open>Keeping the journal changes nothing of what is done.\<close>

definition unjournal :: "('w \<times> redis_event list, 'b) cache_outcome \<Rightarrow> ('w, 'b) cache_outcome" where
  "unjournal r = bind_r r (\<lambda>(v, c, s). Inr (v, c, fst s))"

definition unjournal_end :: "cxx_error + (CacheConn \<times> 'w \<times> redis_event list) \<Rightarrow> cxx_error + (CacheConn \<times> 'w)" where
  "unjournal_end r = bind_r r (\<lambda>(c, s). Inr (c, fst s))"

lemma Init_journal: "CacheConn_Init lib c (fst s) = (let (ret, c1, s1) = CacheConn_Init (journal lib) c s in (ret, c1, fst s1))"
  by (auto simp: CacheConn_Init_def journal_def Let_def split: prod.splits connect_answer.splits)

lemma on_context_journal: "on_context lib args failed k c (fst s) = unjournal (on_context (journal lib) args failed k c s)"
  by (auto simp: on_context_def journal_def unjournal_def Let_def bind_r_def split: redis_context.splits prod.splits option.splits sum.splits)

lemma when_init_journal:
  assumes "\<And>c s. body c (fst s) = unjournal (jbody c s)"
  shows "when_init lib failed body c (fst s) = unjournal (when_init (journal lib) failed jbody c s)"
  by (auto simp: when_init_def Init_journal[of lib c s] unjournal_def assms[unfolded unjournal_def] Let_def split: prod.splits)

lemma command_journal:
  "when_init lib failed (on_context lib args failed k) c (fst s) =
     unjournal (when_init (journal lib) failed (on_context (journal lib) args failed k) c s)"
  by (rule when_init_journal) (rule on_context_journal)

lemma isExist_journal: "cache_isExist lib key c (fst s) = unjournal (cache_isExist (journal lib) key c s)"
  unfolding cache_isExist_def
  by (rule when_init_journal) (auto simp: journal_def unjournal_def Let_def split: redis_context.splits prod.splits option.splits)

lemma mget_journal: "cache_mget lib keys m c (fst s) = unjournal (cache_mget (journal lib) keys m c s)"
proof -
  have "redis_split (journal lib) = redis_split lib" by (simp add: journal_def)
  then show ?thesis unfolding cache_mget_def
    by (intro when_init_journal) (auto simp: Let_def on_context_journal unjournal_def[of "Inl _"] unjournal_def[of "Inr _"] split: option.split)
qed

lemma drop_value_journal: "drop_value (unjournal r) = unjournal_end (drop_value r)"
  by (cases r) (auto simp: drop_value_def unjournal_def unjournal_end_def)

lemma run_cmd_journal: "run_cmd lib x c (fst s) = unjournal_end (run_cmd (journal lib) x c s)"
  by (cases x) (simp_all add: drop_value_journal[symmetric] command_defs cache_command_def isExist_journal mget_journal cache_hgetAll_def
      cache_hmset_def cache_hmget_def hmset_argv_result hmget_argv_result command_journal)

lemma run_cmds_journal: "run_cmds lib xs c (fst s) = unjournal_end (run_cmds (journal lib) xs c s)"
proof (induction xs arbitrary: c s)
  case (Cons y ys c s)
  then show ?case
    by (cases "run_cmd (journal lib) y c s") (auto simp: run_cmd_journal[of lib y c s] unjournal_end_def)
qed (simp add: unjournal_end_def)

lemma journalled_run:
  assumes "run_cmds lib xs (CacheConn_new p) w = Inr (c', w')"
  shows "\<exists>tr. run_cmds (journal lib) xs (CacheConn_new p) (w, []) = Inr (c', w', tr) \<and> abides p c' tr"
proof -
  have "abides p (CacheConn_new p) (snd (w, []))" by (simp add: abides_def stands_def CacheConn_new_def)
  from run_cmds_kept[OF this, of lib xs] run_cmds_journal[of lib xs "CacheConn_new p" "(w, [])"] assms
  show ?thesis
    by (cases "run_cmds (journal lib) xs (CacheConn_new p) (w, [])") (auto simp: kept_end_def unjournal_end_def)
qed

lemma delete_abides:
  assumes "protocol p (Unconnected, 0) tr = Some (stands c)" and "CacheConn_delete (journal lib) c (w, tr) = Inr (w2, tr2)"
  shows "\<exists>t. protocol p (Unconnected, 0) tr2 = Some (Unconnected, t)"
  using assms by (auto simp: CacheConn_delete_def journal_def stands_def protocol_append split: redis_context.splits)

lemma when_init_fails:
  "CacheConn_Init lib c w = (ret, c1, w1) \<Longrightarrow> ret \<noteq> 0 \<Longrightarrow> drop_value (when_init lib failed body c w) = Inr (c1, w1)"
  by (simp add: when_init_def drop_value_def)

lemma run_cmd_init_fails:
  "CacheConn_Init lib c w = (ret, c1, w1) \<Longrightarrow> ret \<noteq> 0 \<Longrightarrow> run_cmd lib x c w = Inr (c1, w1)"
  by (cases x) (simp_all add: command_defs cache_command_def cache_mget_def cache_isExist_def cache_hgetAll_def cache_hmset_def
      cache_hmget_def when_init_fails)

lemma Init_too_soon:
  "m_pContext c = Ctx_null \<Longrightarrow> redis_time lib w < m_last_connect_time c + 4 \<Longrightarrow> CacheConn_Init lib c w = (1, c, w)"
  by (simp add: CacheConn_Init_def)

lemma Init_tries:
  assumes "m_pContext c = Ctx_null" and "\<not> redis_time lib w < m_last_connect_time c + 4"
  shows "\<exists>ret c1 w1 answer tr. CacheConn_Init (journal lib) c (w, []) = (ret, c1, w1,
      Tried (redis_time lib w) (cache_getServerIP (m_pKcaChePool c)) (cache_getServerPort (m_pKcaChePool c)) answer # tr) \<and>
    (ret = 1 \<longleftrightarrow> m_pContext c1 = Ctx_null)"
  using assms by (auto simp: CacheConn_Init_def journal_def Let_def split: prod.split connect_answer.split)

lemma Init_select_refused:
  "CacheConn_Init lib c w = (2, c1, w1) \<Longrightarrow> CacheConn_Init lib c1 w2 = (0, c1, w2)"
  by (auto simp: CacheConn_Init_def Let_def split: if_splits prod.splits connect_answer.splits)


definition demo_cache_info :: cache_info where
  "demo_cache_info = \<lparr>m_pool_name = ''r'', m_server_ip = ''127.0.0.1'', m_server_port = 6379, m_db_number = 1\<rparr>"


section \<open>Commands and the server\<close>

text \<open>What Redis documents of \<open>SET\<close> and \<open>GET\<close>, for a world in which it can be reached: \<open>store\<close> is the strings
  it holds.\<close>

definition stores_strings :: "'w hiredis \<Rightarrow> ('w \<Rightarrow> bool) \<Rightarrow> ('w \<Rightarrow> string \<Rightarrow> string option) \<Rightarrow> bool" where
  "stores_strings lib reached store \<longleftrightarrow>
     (\<forall>h k v w. reached w \<longrightarrow> (\<exists>status w1. redis_argv lib h [''SET'', k, v] w = (Some (Reply REDIS_REPLY_STATUS 0 (Some status) []), w1) \<and>
        reached w1 \<and> store w1 = (store w)(k := Some v))) \<and>
     (\<forall>h k w. reached w \<longrightarrow> (\<exists>w1. redis_argv lib h [''GET'', k] w =
        (Some (case store w k of None \<Rightarrow> Reply REDIS_REPLY_NIL 0 None [] | Some v \<Rightarrow> Reply REDIS_REPLY_STRING 0 (Some v) []), w1)))"

lemma command_on_live:
  "m_pContext c = Ctx h \<Longrightarrow> redis_argv lib h args w = (Some r, w1) \<Longrightarrow> cache_command lib args failed k c w = Inr (k r, c, w1)"
  by (simp add: cache_command_def when_init_def CacheConn_Init_def on_context_def)

text \<open>C32. With a live context and a server that stores strings, \<open>get\<close> after \<open>set\<close> gives the value back, up to
  its first zero byte, and for every other key what was stored before.\<close>

theorem set_get_roundtrip:
  assumes "stores_strings lib reached store" and "reached w" and "m_pContext c = Ctx h"
  shows "\<exists>status w1. cache_set lib key v c w = Inr (status, c, w1) \<and>
    (\<exists>w2. cache_get lib key c w1 = Inr (c_str v, c, w2)) \<and>
    (\<forall>key'. c_str key' \<noteq> c_str key \<longrightarrow>
      (\<exists>w2. cache_get lib key' c w1 = Inr (case store w (c_str key') of None \<Rightarrow> '''' | Some x \<Rightarrow> x, c, w2)))"
proof -
  obtain status w1 where s: "redis_argv lib h [''SET'', c_str key, c_str v] w = (Some (Reply REDIS_REPLY_STATUS 0 (Some status) []), w1)"
    "reached w1" "store w1 = (store w)(c_str key := Some (c_str v))"
    using assms(1,2) unfolding stores_strings_def by blast
  have g: "\<exists>w2. cache_get lib k c w1 = Inr (case store w1 (c_str k) of None \<Rightarrow> '''' | Some x \<Rightarrow> x, c, w2)" for k
  proof -
    obtain w2 where "redis_argv lib h [''GET'', c_str k] w1 =
        (Some (case store w1 (c_str k) of None \<Rightarrow> Reply REDIS_REPLY_NIL 0 None [] | Some v \<Rightarrow> Reply REDIS_REPLY_STRING 0 (Some v) []), w2)"
      using assms(1) s(2) unfolding stores_strings_def by blast
    from command_on_live[OF assms(3) this, of "''''" "\<lambda>r. if reply_kind r = REDIS_REPLY_STRING then reply_text r else ''''"]
    show ?thesis by (cases "store w1 (c_str k)") (auto simp: cache_get_def reply_text_def)
  qed
  have "cache_set lib key v c w = Inr (status, c, w1)"
    using command_on_live[OF assms(3) s(1), of "''''" reply_text] by (simp add: cache_set_def reply_text_def)
  moreover have "\<exists>w2. cache_get lib key c w1 = Inr (c_str v, c, w2)" using g[of key] s(3) by simp
  moreover have "\<forall>key'. c_str key' \<noteq> c_str key \<longrightarrow>
      (\<exists>w2. cache_get lib key' c w1 = Inr (case store w (c_str key') of None \<Rightarrow> '''' | Some x \<Rightarrow> x, c, w2))"
  proof (intro allI impI)
    fix key' assume "c_str key' \<noteq> c_str key"
    then show "\<exists>w2. cache_get lib key' c w1 = Inr (case store w (c_str key') of None \<Rightarrow> '''' | Some x \<Rightarrow> x, c, w2)"
      using g[of key'] s(3) by simp
  qed
  ultimately show ?thesis by blast
qed

lemma demo_redis_stores: "stores_strings demo_redis ds_up (\<lambda>w. map_of (ds_store w))"
  by (auto simp: stores_strings_def demo_redis_def demo_answer_def fun_eq_iff)

theorem set_get_roundtrip_witness:
  "\<exists>status w1 w2. cache_set demo_redis ''user'' ''ka'' (demo_cache (Ctx 0) 5) (demo_server.make 9 True 1 []) = Inr (status, demo_cache (Ctx 0) 5, w1) \<and>
     cache_get demo_redis ''user'' (demo_cache (Ctx 0) 5) w1 = Inr (''ka'', demo_cache (Ctx 0) 5, w2)"
proof -
  have up: "ds_up (demo_server.make 9 True 1 [])" by (simp add: demo_server.make_def)
  have ctx: "m_pContext (demo_cache (Ctx 0) 5) = Ctx 0" by (simp add: demo_cache_def)
  have "c_str ''ka'' = ''ka''" by (simp add: c_str_def)
  with set_get_roundtrip[OF demo_redis_stores up ctx, of "''user''" "''ka''"] show ?thesis by metis
qed

end
