(* ===== verification/RedisPools.thy ===== *)
theory RedisPools
  imports RedisConns
begin

text \<open>
  The second part of \<open>src/DataBase/KaRedis/KaCachePool.cpp\<close>: the pool of cache connections and the manager,
  the only instance of its class. Pools and connections live as in the theory of the connections:
  a pointer to a connection is an address of the heap.
\<close>

section \<open>The pool\<close>

definition MIN_CACHE_CONN_CNT :: int where
  "MIN_CACHE_CONN_CNT = 2"

record KaCachePool = cache_info +
  m_cur_conn_cnt :: int
  m_max_conn_cnt :: int
  m_free_list :: "nat list"

definition KaCachePool_new :: "string \<Rightarrow> string \<Rightarrow> u16 \<Rightarrow> int \<Rightarrow> int \<Rightarrow> KaCachePool" where
  "KaCachePool_new pool_name server_ip server_port db_num max_conn_cnt =
     \<lparr>m_pool_name = pool_name, m_server_ip = server_ip, m_server_port = server_port, m_db_number = db_num,
      m_cur_conn_cnt = MIN_CACHE_CONN_CNT, m_max_conn_cnt = max_conn_cnt, m_free_list = []\<rparr>"

type_synonym cache_heap = "(nat \<times> CacheConn) list"

record 'w cache_state =
  cs_pool :: KaCachePool
  cs_heap :: cache_heap
  cs_world :: 'w

text \<open>\<open>new CacheConn(this)\<close> and \<open>Init\<close>; a connection whose \<open>Init\<close> fails is deleted, which frees the context
  it may have.\<close>

definition free_context :: "'w hiredis \<Rightarrow> CacheConn \<Rightarrow> 'w \<Rightarrow> 'w" where
  "free_context lib c w = (case CacheConn_delete lib c w of Inl _ \<Rightarrow> w | Inr w' \<Rightarrow> w')"

definition cache_make_conn :: "'w hiredis \<Rightarrow> nat \<Rightarrow> 'w cache_state \<Rightarrow> nat option \<times> 'w cache_state" where
  "cache_make_conn lib wish s =
     (let p = new_ptr wish (cs_heap s);
          (ret, c, w) = CacheConn_Init lib (CacheConn_new (cache_info.truncate (cs_pool s))) (cs_world s)
      in if ret \<noteq> 0 then (None, s\<lparr>cs_world := free_context lib c w\<rparr>)
         else (Some p, s\<lparr>cs_world := w, cs_heap := (p, c) # cs_heap s\<rparr>))"

definition cache_push_free :: "nat \<Rightarrow> 'w cache_state \<Rightarrow> 'w cache_state" where
  "cache_push_free p s = s\<lparr>cs_pool := (cs_pool s)\<lparr>m_free_list := m_free_list (cs_pool s) @ [p]\<rparr>\<rparr>"

text \<open>The loop of \<open>Init\<close> with \<open>k\<close> turns left.\<close>

fun cache_init_loop :: "'w hiredis \<Rightarrow> nat \<Rightarrow> nat list \<Rightarrow> 'w cache_state \<Rightarrow> int \<times> 'w cache_state" where
  "cache_init_loop lib 0 wishes s = (0, s)"
| "cache_init_loop lib (Suc k) wishes s =
     (case cache_make_conn lib (case wishes of [] \<Rightarrow> 0 | x # _ \<Rightarrow> x) s of
        (None, s1) \<Rightarrow> (1, s1)
      | (Some p, s1) \<Rightarrow> cache_init_loop lib k (tl wishes) (cache_push_free p s1))"

definition KaCachePool_Init :: "'w hiredis \<Rightarrow> nat list \<Rightarrow> 'w cache_state \<Rightarrow> int \<times> 'w cache_state" where
  "KaCachePool_Init lib wishes s = cache_init_loop lib (nat (m_cur_conn_cnt (cs_pool s))) wishes s"

definition cache_pop_free :: "'w cache_state \<Rightarrow> nat acquired \<times> 'w cache_state" where
  "cache_pop_free s =
     (Acq_conn (hd (m_free_list (cs_pool s))),
      s\<lparr>cs_pool := (cs_pool s)\<lparr>m_free_list := tl (m_free_list (cs_pool s))\<rparr>\<rparr>)"

text \<open>\<open>getCacheConn\<close>: with an empty list it waits when the limit is reached; otherwise the loop makes one
  connection, which ends it.\<close>

definition getCacheConn :: "'w hiredis \<times> nat \<Rightarrow> 'w cache_state \<Rightarrow> nat acquired \<times> 'w cache_state" where
  "getCacheConn a s =
     (if m_free_list (cs_pool s) = [] then
        (if m_max_conn_cnt (cs_pool s) \<le> m_cur_conn_cnt (cs_pool s) then (Acq_wait, s)
         else
           (case cache_make_conn (fst a) (snd a) s of
              (None, s1) \<Rightarrow> (Acq_null, s1)
            | (Some p, s1) \<Rightarrow>
                (let s2 = cache_push_free p s1;
                     s3 = s2\<lparr>cs_pool := (cs_pool s2)\<lparr>m_cur_conn_cnt := m_cur_conn_cnt (cs_pool s2) + 1\<rparr>\<rparr>
                 in cache_pop_free s3)))
      else cache_pop_free s)"

definition RelCacheConn :: "nat \<Rightarrow> 'w cache_state \<Rightarrow> 'w cache_state" where
  "RelCacheConn pConn s = (if pConn \<in> set (m_free_list (cs_pool s)) then s else cache_push_free pConn s)"

text \<open>The destructor deletes the free connections, in order; a dangling context would be freed again.\<close>

fun delete_conns :: "'w hiredis \<Rightarrow> nat list \<Rightarrow> cache_heap \<Rightarrow> 'w \<Rightarrow> cxx_error + (cache_heap \<times> 'w)" where
  "delete_conns lib [] h w = Inr (h, w)"
| "delete_conns lib (p # ps) h w =
     (case map_of h p of
        None \<Rightarrow> Inl Undefined_Behaviour
      | Some c \<Rightarrow> bind_r (CacheConn_delete lib c w) (\<lambda>w1. delete_conns lib ps (filter (\<lambda>(q, c). q \<noteq> p) h) w1))"

definition KaCachePool_delete :: "'w hiredis \<Rightarrow> 'w cache_state \<Rightarrow> cxx_error + 'w cache_state" where
  "KaCachePool_delete lib s =
     bind_r (delete_conns lib (m_free_list (cs_pool s)) (cs_heap s) (cs_world s)) (\<lambda>(h, w).
       Inr (s\<lparr>cs_heap := h, cs_world := w, cs_pool := (cs_pool s)\<lparr>m_free_list := [], m_cur_conn_cnt := 0\<rparr>\<rparr>))"

section \<open>The contract of the pool\<close>

definition cache_live :: "'w cache_state \<Rightarrow> nat set" where
  "cache_live s = fst ` set (cs_heap s)"

definition cache_free :: "'w cache_state \<Rightarrow> nat list" where
  "cache_free s = m_free_list (cs_pool s)"

definition cache_made :: "'w cache_state \<Rightarrow> int" where
  "cache_made s = m_cur_conn_cnt (cs_pool s)"

definition cache_limit :: "'w cache_state \<Rightarrow> int" where
  "cache_limit s = m_max_conn_cnt (cs_pool s)"


definition cache_ok :: "'w cache_state \<Rightarrow> bool" where
  "cache_ok s \<longleftrightarrow> distinct (map fst (cs_heap s))"

lemmas cache_view = cache_live_def cache_free_def cache_made_def cache_limit_def cache_ok_def

lemma cache_make_conn_cases:
  obtains (failed) w where "cache_make_conn lib wish s = (None, s\<lparr>cs_world := w\<rparr>)"
  | (made) p c w where "cache_make_conn lib wish s = (Some p, s\<lparr>cs_world := w, cs_heap := (p, c) # cs_heap s\<rparr>)" "p \<notin> cache_live s"
proof -
  obtain ret c w where i: "CacheConn_Init lib (CacheConn_new (cache_info.truncate (cs_pool s))) (cs_world s) = (ret, c, w)"
    by (metis prod_cases3)
  show thesis
  proof (cases "ret = 0")
    case True
    show thesis by (rule made[of "new_ptr wish (cs_heap s)" c w]) (simp_all add: True cache_make_conn_def i Let_def cache_live_def new_ptr_fresh)
  next
    case False
    show thesis by (rule failed[of "free_context lib c w"]) (simp add: False cache_make_conn_def i Let_def)
  qed
qed

lemma getCacheConn_free:
  "cache_free s = c # cs \<Longrightarrow>
   fst (getCacheConn a s) = Acq_conn c \<and> cache_free (snd (getCacheConn a s)) = cs \<and> cache_made (snd (getCacheConn a s)) = cache_made s \<and>
   cache_live (snd (getCacheConn a s)) = cache_live s"
  by (simp add: getCacheConn_def cache_pop_free_def cache_view)

lemma getCacheConn_new:
  assumes "cache_free s = []" "cache_made s < cache_limit s"
  shows "(fst (getCacheConn a s) = Acq_null \<and> cache_free (snd (getCacheConn a s)) = [] \<and> cache_made (snd (getCacheConn a s)) = cache_made s \<and>
       cache_live (snd (getCacheConn a s)) = cache_live s) \<or>
      (\<exists>c. fst (getCacheConn a s) = Acq_conn c \<and> cache_free (snd (getCacheConn a s)) = [] \<and> cache_made (snd (getCacheConn a s)) = cache_made s + 1 \<and>
       c \<notin> cache_live s \<and> cache_live (snd (getCacheConn a s)) = insert c (cache_live s))"
proof (cases rule: cache_make_conn_cases[of "fst a" "snd a" s])
  case (failed w)
  then show ?thesis using assms by (simp add: getCacheConn_def cache_view)
next
  case (made p c w)
  then show ?thesis using assms by (simp add: getCacheConn_def cache_push_free_def cache_pop_free_def cache_view Let_def)
qed

lemma getCacheConn_full: "cache_free s = [] \<Longrightarrow> cache_limit s \<le> cache_made s \<Longrightarrow> getCacheConn a s = (Acq_wait, s)"
  by (simp add: getCacheConn_def cache_view)

lemma getCacheConn_keeps:
  "cache_ok s \<Longrightarrow> cache_ok (snd (getCacheConn a s))"
  "cache_limit (snd (getCacheConn a s)) = cache_limit s"
  by (rule cache_make_conn_cases[of "fst a" "snd a" s];
      simp add: getCacheConn_def cache_push_free_def cache_pop_free_def cache_view Let_def)+

lemma RelCacheConn_view:
  "cache_made (RelCacheConn c s) = cache_made s" "cache_limit (RelCacheConn c s) = cache_limit s" "cache_live (RelCacheConn c s) = cache_live s"
  "cache_ok (RelCacheConn c s) = cache_ok s"
  "cache_free (RelCacheConn c s) = (if c \<in> set (cache_free s) then cache_free s else cache_free s @ [c])"
  by (simp_all add: RelCacheConn_def cache_push_free_def cache_view)

interpretation cache: conn_pool cache_ok cache_free cache_made cache_limit cache_live getCacheConn RelCacheConn
  by unfold_locales
    (simp_all add: RelCacheConn_view getCacheConn_keeps getCacheConn_free getCacheConn_full getCacheConn_new)

text \<open>A thread's use of its connection: the commands change what it holds, the server and the clock.\<close>

inductive cache_usage :: "nat \<Rightarrow> 'w cache_state \<Rightarrow> 'w cache_state \<Rightarrow> bool" where
  cache_use: "cache_usage q s (s\<lparr>cs_heap := map (\<lambda>e. if fst e = q then (q, c) else e) (cs_heap s), cs_world := w\<rparr>)"

lemma cache_usage_view: "cache_usage q s s' \<Longrightarrow> cs_pool s' = cs_pool s \<and> map fst (cs_heap s') = map fst (cs_heap s)"
  by (induction rule: cache_usage.induct) auto

interpretation cache_shared: shared_pool cache_ok cache_free cache_made cache_limit cache_live getCacheConn RelCacheConn cache_usage
proof
  fix q :: nat and s s' :: "'w cache_state"
  assume u: "cache_usage q s s'"
  note v = cache_usage_view[OF u]
  show "cache_free s' = cache_free s" "cache_made s' = cache_made s" "cache_limit s' = cache_limit s" "cache_ok s \<Longrightarrow> cache_ok s'"
    using v by (simp_all add: cache_view)
  have "set (map fst (cs_heap s')) = set (map fst (cs_heap s))" using v by simp
  then show "cache_live s' = cache_live s" by (simp add: cache_live_def)
qed

section \<open>The manager\<close>

text \<open>The map of the manager, in key order, with the pools themselves in place of the pointers to them.\<close>

record KaCacheManager =
  m_pKaCaChePool_map :: "(string \<times> KaCachePool) list"

record 'w cache_world =
  cw_manager :: "KaCacheManager option"
  cw_heap :: cache_heap
  cw_outside :: 'w

primrec cache_pools_insert :: "string \<Rightarrow> KaCachePool \<Rightarrow> (string \<times> KaCachePool) list \<Rightarrow> (string \<times> KaCachePool) list" where
  "cache_pools_insert k v [] = [(k, v)]"
| "cache_pools_insert k v (e # es) =
     (if k < fst e then (k, v) # e # es else if k = fst e then e # es else e # cache_pools_insert k v es)"

definition cache_pools_set :: "string \<Rightarrow> KaCachePool \<Rightarrow> (string \<times> KaCachePool) list \<Rightarrow> (string \<times> KaCachePool) list" where
  "cache_pools_set k v ps = map (\<lambda>e. if fst e = k then (k, v) else e) ps"

definition need :: "'a option \<Rightarrow> cxx_error + 'a" where
  "need x = (case x of None \<Rightarrow> Inl Undefined_Behaviour | Some y \<Rightarrow> Inr y)"

text \<open>\<open>KaCacheManager::Init\<close>; \<open>file\<close> is the text of \<open>../DataConf/redis.conf\<close>. \<open>atoi\<close> and \<open>std::string\<close> of a null
  pointer are undefined.\<close>

definition KaCacheManager_Init :: "'w hiredis \<Rightarrow> string option \<Rightarrow> nat list \<Rightarrow> KaCacheManager \<Rightarrow> cache_heap \<Rightarrow> 'w \<Rightarrow>
    cxx_error + (int \<times> KaCacheManager \<times> cache_heap \<times> 'w)" where
  "KaCacheManager_Init lib file wishes m h w =
     bind_r (ConfigFileReader_new file ''../DataConf/redis.conf'') (\<lambda>reader.
     bind_r (GetConfigName ''KaIM_host'' reader) (\<lambda>ip.
     bind_r (GetConfigName ''KaIM_port'' reader) (\<lambda>port.
     bind_r (GetConfigName ''KaIM_DBNUM'' reader) (\<lambda>dbNum.
     bind_r (GetConfigName ''KaIM_MAX_CONN'' reader) (\<lambda>max_conn.
     bind_r (bind_r (need port) atoi) (\<lambda>p. bind_r (bind_r (need dbNum) atoi) (\<lambda>d. bind_r (bind_r (need max_conn) atoi) (\<lambda>mx.
     bind_r (need ip) (\<lambda>ip'.
       let (ret, s) = KaCachePool_Init lib wishes
             \<lparr>cs_pool = KaCachePool_new ''KaRedis_1'' ip' (ucast p) (sint d) (sint mx), cs_heap = h, cs_world = w\<rparr>
       in if ret \<noteq> 0 then Inr (3, m, cs_heap s, cs_world s)
          else Inr (0, m\<lparr>m_pKaCaChePool_map := cache_pools_insert ''KaRedis_1'' (cs_pool s) (m_pKaCaChePool_map m)\<rparr>,
            cs_heap s, cs_world s))))))))))"

definition cache_getInstance :: "'w hiredis \<Rightarrow> string option \<Rightarrow> nat list \<Rightarrow> 'w cache_world \<Rightarrow>
    cxx_error + (KaCacheManager option \<times> 'w cache_world)" where
  "cache_getInstance lib file wishes s =
     (if cw_manager s = None then
        bind_r (KaCacheManager_Init lib file wishes \<lparr>m_pKaCaChePool_map = []\<rparr> (cw_heap s) (cw_outside s)) (\<lambda>(ret, m, h, w).
          let g = (if ret \<noteq> 0 then None else Some m) in
          Inr (g, s\<lparr>cw_manager := g, cw_heap := h, cw_outside := w\<rparr>))
      else Inr (cw_manager s, s))"

definition manager_getCacheConn :: "'w hiredis \<times> nat \<Rightarrow> string \<Rightarrow> KaCacheManager \<times> cache_heap \<times> 'w \<Rightarrow>
    nat acquired \<times> KaCacheManager \<times> cache_heap \<times> 'w" where
  "manager_getCacheConn a pool_name s =
     (let (m, h, w) = s; name = c_str pool_name in
      case map_of (m_pKaCaChePool_map m) name of
        None \<Rightarrow> (Acq_null, s)
      | Some p \<Rightarrow>
          (let (r, s') = getCacheConn a \<lparr>cs_pool = p, cs_heap = h, cs_world = w\<rparr>
           in (r, m\<lparr>m_pKaCaChePool_map := cache_pools_set name (cs_pool s') (m_pKaCaChePool_map m)\<rparr>, cs_heap s', cs_world s')))"

text \<open>\<open>KaCacheManager::RelCacheConn\<close>; a pointer that is not on the heap is undefined. \<open>CacheConn::getPoolName\<close>
  is declared and has no body: it is the parameter \<open>poolName\<close>.\<close>

definition manager_RelCacheConn :: "(CacheConn \<Rightarrow> string) \<Rightarrow> nat option \<Rightarrow> KaCacheManager \<times> cache_heap \<times> 'w \<Rightarrow>
    cxx_error + (KaCacheManager \<times> cache_heap \<times> 'w)" where
  "manager_RelCacheConn poolName pCacheConn s =
     (let (m, h, w) = s in
      case pCacheConn of
        None \<Rightarrow> Inr s
      | Some q \<Rightarrow>
          (case map_of h q of
             None \<Rightarrow> Inl Undefined_Behaviour
           | Some c \<Rightarrow>
               (let name = poolName c in
                case map_of (m_pKaCaChePool_map m) name of
                  None \<Rightarrow> Inr s
                | Some p \<Rightarrow>
                    Inr (m\<lparr>m_pKaCaChePool_map := cache_pools_set name
                        (cs_pool (RelCacheConn q \<lparr>cs_pool = p, cs_heap = h, cs_world = w\<rparr>)) (m_pKaCaChePool_map m)\<rparr>, h, w))))"

section \<open>Properties of the pool\<close>

definition cache_filled :: "nat \<Rightarrow> 'w cache_state \<Rightarrow> bool" where
  "cache_filled n s \<longleftrightarrow> cache_ok s \<and> distinct (cache_free s) \<and> set (cache_free s) \<subseteq> cache_live s \<and> length (cache_free s) = n"

lemma cache_make_conn_filled:
  assumes "cache_make_conn lib wish s = (Some p, s1)" "cache_filled n s"
  shows "cache_filled (Suc n) (cache_push_free p s1) \<and> cache_made (cache_push_free p s1) = cache_made s \<and>
    cache_limit (cache_push_free p s1) = cache_limit s"
proof (cases rule: cache_make_conn_cases[of lib wish s])
  case (failed w)
  then show ?thesis using assms by simp
next
  case (made q c w)
  then show ?thesis using assms by (auto simp: cache_filled_def cache_push_free_def cache_view)
qed

lemma cache_init_loop_filled:
  "cache_init_loop lib k wishes s = (0, s') \<Longrightarrow> cache_filled n s \<Longrightarrow>
   cache_filled (n + k) s' \<and> cache_made s' = cache_made s \<and> cache_limit s' = cache_limit s"
proof (induction k arbitrary: wishes s n)
  case (Suc k)
  obtain r s1 where m: "cache_make_conn lib (case wishes of [] \<Rightarrow> 0 | x # _ \<Rightarrow> x) s = (r, s1)" by (metis prod.exhaust)
  then obtain p where r: "r = Some p" using Suc.prems(1) by (cases r) auto
  have "cache_init_loop lib k (tl wishes) (cache_push_free p s1) = (0, s')" using Suc.prems(1) m r by simp
  then show ?case
    using Suc.IH[of "tl wishes" "cache_push_free p s1" "Suc n"] cache_make_conn_filled[OF m[unfolded r] Suc.prems(2)] by simp
qed simp

lemma KaCachePool_Init_inv:
  assumes "KaCachePool_Init lib wishes \<lparr>cs_pool = KaCachePool_new name ip port num maxConn, cs_heap = h, cs_world = w\<rparr> = (0, s0)"
    and "distinct (map fst h)"
  shows "cache.pool_inv (s0, []) \<and> cache_made s0 = 2 \<and> cache_limit s0 = maxConn"
proof -
  let ?s = "\<lparr>cs_pool = KaCachePool_new name ip port num maxConn, cs_heap = h, cs_world = w\<rparr>"
  have "cache_filled 0 ?s" using assms(2) by (simp add: cache_filled_def cache_view KaCachePool_new_def)
  then have "cache_filled (Suc (Suc 0)) s0 \<and> cache_made s0 = cache_made ?s \<and> cache_limit s0 = cache_limit ?s"
    using cache_init_loop_filled[of lib 2 wishes ?s s0 0] assms(1)
    by (simp add: KaCachePool_Init_def KaCachePool_new_def MIN_CACHE_CONN_CNT_def)
  then show ?thesis
    by (simp add: cache.pool_inv_def cache_filled_def cache_made_def cache_limit_def KaCachePool_new_def MIN_CACHE_CONN_CNT_def)
qed

text \<open>C26. Whatever the callers and the allocator do after a successful \<open>Init\<close>, no cache connection is lent
  twice or lent while it is in the free list, and the connections lent and free never number more
  than the limit, or two where the limit is less. Callers may give a connection back twice, as long as it
  is still free the second time; one that another caller already has is put on the free list all the
  same, to be lent a second time.\<close>

theorem cache_pool_never_shares:
  assumes "KaCachePool_Init lib wishes \<lparr>cs_pool = KaCachePool_new name ip port num maxConn, cs_heap = h, cs_world = w\<rparr> = (0, s0)"
    and "distinct (map fst h)"
    and "no_stale (\<lambda>s. m_free_list (cs_pool s)) getCacheConn RelCacheConn ops (s0, [])"
    and "pool_run getCacheConn RelCacheConn ops (s0, []) = (s, lent)"
  shows "distinct lent \<and> set lent \<inter> set (m_free_list (cs_pool s)) = {} \<and>
         int (length lent) + int (length (m_free_list (cs_pool s))) \<le> max 2 maxConn \<and>
         (\<forall>c \<in> set (m_free_list (cs_pool s)). m_free_list (cs_pool (RelCacheConn c s)) = m_free_list (cs_pool s)) \<and>
         (\<forall>c \<in> set lent. m_free_list (cs_pool (RelCacheConn c s)) = m_free_list (cs_pool s) @ [c])"
proof -
  have "cache_free = (\<lambda>s :: 'a cache_state. m_free_list (cs_pool s))" by (simp add: fun_eq_iff cache_free_def)
  then have "no_stale cache_free getCacheConn RelCacheConn ops (s0, [])" using assms(3) by (simp only:)
  from cache.run_distinct[OF conjunct1[OF KaCachePool_Init_inv[OF assms(1,2)]] this assms(4)] KaCachePool_Init_inv[OF assms(1,2)]
  show ?thesis by (simp add: cache_free_def)
qed

text \<open>The same for the threads that share the cache pool: a thread sleeps only while every connection is
  held by a thread, and can then still be served.\<close>

theorem cache_waiters_are_served:
  assumes "KaCachePool_Init lib wishes \<lparr>cs_pool = KaCachePool_new name ip port num maxConn, cs_heap = h, cs_world = w\<rparr> = (0, s0)"
    and "distinct (map fst h)"
    and "client_steps getCacheConn RelCacheConn cache_usage (s0, replicate n Idle) (s, ts)" and "t < n" and "ts ! t = Asleep"
  shows "m_free_list (cs_pool s) = [] \<and> m_max_conn_cnt (cs_pool s) \<le> m_cur_conn_cnt (cs_pool s) \<and>
    int (length (held ts)) = m_cur_conn_cnt (cs_pool s) \<and>
    (\<exists>s' ts' c. client_steps getCacheConn RelCacheConn cache_usage (s, ts) (s', ts') \<and> ts' ! t = Holding c)"
proof -
  have "cache.pool_inv (s0, [])" "0 < cache_made s0" using KaCachePool_Init_inv[OF assms(1,2)] by simp_all
  from cache_shared.waiters_served[OF this assms(3-5)] show ?thesis by (simp add: cache_view)
qed

definition demo_cache_pool :: "nat list \<Rightarrow> int \<Rightarrow> KaCachePool" where
  "demo_cache_pool free cur = (KaCachePool_new ''KaRedis_1'' ''127.0.0.1'' 6379 1 10)\<lparr>m_cur_conn_cnt := cur, m_free_list := free\<rparr>"

definition demo_pool_conn :: "nat \<Rightarrow> u64 \<Rightarrow> CacheConn" where
  "demo_pool_conn h t = \<lparr>m_pKcaChePool = cache_info.truncate (demo_cache_pool [] 2), m_pContext = Ctx h, m_last_connect_time = t\<rparr>"

lemma demo_Init:
  "CacheConn_Init demo_redis (CacheConn_new (cache_info.truncate (demo_cache_pool free cur))) (demo_server.make 100 True n []) =
     (0, demo_pool_conn n 100, demo_server.make 100 True (Suc n) [])"
  by (simp add: CacheConn_Init_def CacheConn_new_def demo_pool_conn_def demo_redis_def demo_answer_def demo_server.make_def
      demo_cache_pool_def KaCachePool_new_def cache_info.truncate_def select_ok_def reply_text_def c_str_def)

lemma demo_make:
  "cache_make_conn demo_redis wish \<lparr>cs_pool = demo_cache_pool free cur, cs_heap = h, cs_world = demo_server.make 100 True n []\<rparr> =
     (Some (new_ptr wish h), \<lparr>cs_pool = demo_cache_pool free cur, cs_heap = (new_ptr wish h, demo_pool_conn n 100) # h,
       cs_world = demo_server.make 100 True (Suc n) []\<rparr>)"
  by (simp add: cache_make_conn_def demo_Init Let_def)

lemma demo_push:
  "cache_push_free p \<lparr>cs_pool = demo_cache_pool free cur, cs_heap = h, cs_world = w\<rparr> =
     \<lparr>cs_pool = demo_cache_pool (free @ [p]) cur, cs_heap = h, cs_world = w\<rparr>"
  by (simp add: cache_push_free_def demo_cache_pool_def)

lemma demo_cache_new: "demo_cache_pool [] 2 = KaCachePool_new ''KaRedis_1'' ''127.0.0.1'' 6379 1 10"
  by (simp add: demo_cache_pool_def KaCachePool_new_def MIN_CACHE_CONN_CNT_def)

lemma demo_cache_pool_Init:
  "KaCachePool_Init demo_redis [7, 9] \<lparr>cs_pool = demo_cache_pool [] 2, cs_heap = [], cs_world = demo_server.make 100 True 0 []\<rparr> =
     (0, \<lparr>cs_pool = demo_cache_pool [7, 9] 2, cs_heap = [(9, demo_pool_conn 1 100), (7, demo_pool_conn 0 100)],
       cs_world = demo_server.make 100 True 2 []\<rparr>)"
proof -
  have "m_cur_conn_cnt (demo_cache_pool [] 2) = 2" by (simp add: demo_cache_pool_def)
  then show ?thesis by (simp add: KaCachePool_Init_def numeral_2_eq_2 demo_make demo_push new_ptr_def)
qed

theorem cache_pool_never_shares_witness:
  "pool_run getCacheConn RelCacheConn [Acquire (demo_redis, 7), Acquire (demo_redis, 7), Give_back 0, Give_again 7]
     (\<lparr>cs_pool = demo_cache_pool [7, 9] 2, cs_heap = [(9, demo_pool_conn 1 100), (7, demo_pool_conn 0 100)],
       cs_world = demo_server.make 100 True 2 []\<rparr>, []) =
     (\<lparr>cs_pool = demo_cache_pool [7] 2, cs_heap = [(9, demo_pool_conn 1 100), (7, demo_pool_conn 0 100)],
       cs_world = demo_server.make 100 True 2 []\<rparr>, [9]) \<and>
   set [9 :: nat] \<inter> set [7] = {}"
proof -
  have run: "pool_run getCacheConn RelCacheConn [Acquire (demo_redis, 7), Acquire (demo_redis, 7), Give_back 0, Give_again 7]
     (\<lparr>cs_pool = demo_cache_pool [7, 9] 2, cs_heap = [(9, demo_pool_conn 1 100), (7, demo_pool_conn 0 100)],
       cs_world = demo_server.make 100 True 2 []\<rparr>, []) =
     (\<lparr>cs_pool = demo_cache_pool [7] 2, cs_heap = [(9, demo_pool_conn 1 100), (7, demo_pool_conn 0 100)],
       cs_world = demo_server.make 100 True 2 []\<rparr>, [9])"
    and fresh: "no_stale (\<lambda>s. m_free_list (cs_pool s)) getCacheConn RelCacheConn [Acquire (demo_redis, 7), Acquire (demo_redis, 7), Give_back 0, Give_again 7]
     (\<lparr>cs_pool = demo_cache_pool [7, 9] 2, cs_heap = [(9, demo_pool_conn 1 100), (7, demo_pool_conn 0 100)],
       cs_world = demo_server.make 100 True 2 []\<rparr>, [])"
    by (simp_all add: getCacheConn_def RelCacheConn_def cache_pop_free_def cache_push_free_def demo_cache_pool_def)
  have free: "m_free_list (demo_cache_pool [7] 2) = [7]" by (simp add: demo_cache_pool_def)
  from cache_pool_never_shares[OF demo_cache_pool_Init[unfolded demo_cache_new] _ fresh run] run free
  show ?thesis by simp
qed

section \<open>The manager from its configuration\<close>

lemma reader_loaded: "ConfigFileReader_new (Some s) f = Inr r \<Longrightarrow> GetConfigName k r = Inr (map_of (m_config_map r) k)"
  by (auto simp: ConfigFileReader_new_def LoadFile_def bind_r_eq_Inr GetConfigName_def)

lemma atoi_show: "- (2 ^ 31) \<le> i \<Longrightarrow> i < 2 ^ 31 \<Longrightarrow> atoi (show_int i) = Inr (word_of_int i)"
  by (simp add: atoi_def)

lemma sint_word32: "- (2 ^ 31) \<le> i \<Longrightarrow> i < 2 ^ 31 \<Longrightarrow> sint (word_of_int i :: 32 word) = i"
  by (simp add: signed_of_int signed_take_bit_int_eq_self)

lemma ucast_of_int32: "ucast (word_of_int i :: 32 word) = (word_of_int i :: u16)"
  by (rule bit_word_eqI) (simp add: bit_simps)

lemma KaCacheManager_Init_reads:
  assumes "ConfigFileReader_new (Some text) ''../DataConf/redis.conf'' = Inr r"
    and "map_of (m_config_map r) ''KaIM_host'' = Some ip" "map_of (m_config_map r) ''KaIM_port'' = Some (show_int p)"
    and "map_of (m_config_map r) ''KaIM_DBNUM'' = Some (show_int d)" "map_of (m_config_map r) ''KaIM_MAX_CONN'' = Some (show_int mx)"
    and "0 \<le> p" "p < 2 ^ 16" "0 \<le> d" "d < 2 ^ 31" "0 \<le> mx" "mx < 2 ^ 31"
    and "KaCachePool_Init lib wishes \<lparr>cs_pool = KaCachePool_new ''KaRedis_1'' ip (word_of_int p) d mx, cs_heap = h, cs_world = w\<rparr> = (0, s1)"
  shows "KaCacheManager_Init lib (Some text) wishes \<lparr>m_pKaCaChePool_map = []\<rparr> h w =
    Inr (0, \<lparr>m_pKaCaChePool_map = [(''KaRedis_1'', cs_pool s1)]\<rparr>, cs_heap s1, cs_world s1)"
proof -
  have a: "atoi (show_int p) = Inr (word_of_int p)" "atoi (show_int d) = Inr (word_of_int d)" "atoi (show_int mx) = Inr (word_of_int mx)"
    by (rule atoi_show; use assms in simp)+
  have s: "sint (word_of_int d :: 32 word) = d" "sint (word_of_int mx :: 32 word) = mx"
    by (rule sint_word32; use assms in simp)+
  show ?thesis
    by (simp add: KaCacheManager_Init_def assms(1-5,12) reader_loaded[OF assms(1)] need_def a s ucast_of_int32)
qed

text \<open>C33. A configuration file with the four entries gives one manager: the first \<open>getInstance\<close> makes it
  with one pool, \<open>KaRedis_1\<close>, of the host, port, database and limit that the file names; every later
  call gives the same manager and does nothing; the manager lends from that pool, and under any other
  name it gives null.\<close>

theorem cache_manager_from_config:
  assumes "ConfigFileReader_new (Some text) ''../DataConf/redis.conf'' = Inr r"
    and "map_of (m_config_map r) ''KaIM_host'' = Some ip" "map_of (m_config_map r) ''KaIM_port'' = Some (show_int p)"
    and "map_of (m_config_map r) ''KaIM_DBNUM'' = Some (show_int d)" "map_of (m_config_map r) ''KaIM_MAX_CONN'' = Some (show_int mx)"
    and "0 \<le> p" "p < 2 ^ 16" "0 \<le> d" "d < 2 ^ 31" "0 \<le> mx" "mx < 2 ^ 31"
    and "KaCachePool_Init lib wishes \<lparr>cs_pool = KaCachePool_new ''KaRedis_1'' ip (word_of_int p) d mx, cs_heap = h, cs_world = w\<rparr> = (0, s1)"
  shows "\<exists>m s'. cache_getInstance lib (Some text) wishes \<lparr>cw_manager = None, cw_heap = h, cw_outside = w\<rparr> = Inr (Some m, s') \<and>
    (\<forall>file2 wishes2. cache_getInstance lib file2 wishes2 s' = Inr (Some m, s')) \<and>
    fst (manager_getCacheConn a ''KaRedis_1'' (m, cs_heap s1, cs_world s1)) = fst (getCacheConn a s1) \<and>
    (c_str name \<noteq> ''KaRedis_1'' \<longrightarrow> manager_getCacheConn a name (m, cs_heap s1, cs_world s1) = (Acq_null, m, cs_heap s1, cs_world s1))"
proof -
  let ?m = "\<lparr>m_pKaCaChePool_map = [(''KaRedis_1'', cs_pool s1)]\<rparr>"
  let ?s = "\<lparr>cw_manager = Some ?m, cw_heap = cs_heap s1, cw_outside = cs_world s1\<rparr>"
  have 1: "cache_getInstance lib (Some text) wishes \<lparr>cw_manager = None, cw_heap = h, cw_outside = w\<rparr> = Inr (Some ?m, ?s)"
    by (simp add: cache_getInstance_def KaCacheManager_Init_reads[OF assms] Let_def)
  have 2: "\<forall>file2 wishes2. cache_getInstance lib file2 wishes2 ?s = Inr (Some ?m, ?s)" by (simp add: cache_getInstance_def)
  have n: "c_str ''KaRedis_1'' = ''KaRedis_1''" by (simp add: c_str_def)
  have 3: "fst (manager_getCacheConn a ''KaRedis_1'' (?m, cs_heap s1, cs_world s1)) = fst (getCacheConn a s1)"
  proof -
    have eta: "\<lparr>cs_pool = cs_pool s1, cs_heap = cs_heap s1, cs_world = cs_world s1\<rparr> = s1" by simp
    obtain q s' where g: "getCacheConn a s1 = (q, s')" by (cases "getCacheConn a s1")
    show ?thesis by (simp add: manager_getCacheConn_def n Let_def eta g)
  qed
  have 4: "c_str name \<noteq> ''KaRedis_1'' \<longrightarrow> manager_getCacheConn a name (?m, cs_heap s1, cs_world s1) = (Acq_null, ?m, cs_heap s1, cs_world s1)"
    by (simp add: manager_getCacheConn_def Let_def)
  show ?thesis by (rule exI, rule exI, rule conjI, rule 1, rule conjI, rule 2, rule conjI, rule 3, rule 4)
qed

text \<open>The file \<open>src/DataBase/DataConf/redis.conf\<close>.\<close>

definition redis_conf :: string where
  "redis_conf = ''KaIM_host=127.0.0.1'' @ [CHR 0x0A] @ ''KaIM_port=6379'' @ [CHR 0x0A] @ ''KaIM_DBNUM=1'' @ [CHR 0x0A] @
     ''KaIM_MAX_CONN=10'' @ [CHR 0x0A]"

definition redis_conf_reader :: ConfigFileReader where
  "redis_conf_reader = \<lparr>m_has_load = Some True, m_config_map = [(''KaIM_DBNUM'', ''1''), (''KaIM_MAX_CONN'', ''10''),
     (''KaIM_host'', ''127.0.0.1''), (''KaIM_port'', ''6379'')], m_configfile = ''../DataConf/redis.conf''\<rparr>"

lemma redis_conf_loads: "ConfigFileReader_new (Some redis_conf) ''../DataConf/redis.conf'' = Inr redis_conf_reader"
  by code_simp

lemma show_conf: "show_int 6379 = ''6379''" "show_int 1 = ''1''" "show_int 10 = ''10''"
  by (simp add: show_int_def show_nat_small show_nat_step digit_char_def, code_simp)+

theorem cache_manager_from_config_witness:
  "\<exists>m s'. cache_getInstance demo_redis (Some redis_conf) [7, 9]
      \<lparr>cw_manager = None, cw_heap = [], cw_outside = demo_server.make 100 True 0 []\<rparr> = Inr (Some m, s') \<and>
    cache_getInstance demo_redis None [] s' = Inr (Some m, s')"
proof -
  have maps: "map_of (m_config_map redis_conf_reader) ''KaIM_host'' = Some ''127.0.0.1''"
    "map_of (m_config_map redis_conf_reader) ''KaIM_port'' = Some (show_int 6379)"
    "map_of (m_config_map redis_conf_reader) ''KaIM_DBNUM'' = Some (show_int 1)"
    "map_of (m_config_map redis_conf_reader) ''KaIM_MAX_CONN'' = Some (show_int 10)"
    unfolding show_conf by (simp_all add: redis_conf_reader_def)
  have pool: "KaCachePool_Init demo_redis [7, 9] \<lparr>cs_pool = KaCachePool_new ''KaRedis_1'' ''127.0.0.1'' (word_of_int 6379) 1 10,
        cs_heap = [], cs_world = demo_server.make 100 True 0 []\<rparr> =
     (0, \<lparr>cs_pool = demo_cache_pool [7, 9] 2, cs_heap = [(9, demo_pool_conn 1 100), (7, demo_pool_conn 0 100)],
       cs_world = demo_server.make 100 True 2 []\<rparr>)"
    using demo_cache_pool_Init[unfolded demo_cache_new] by simp
  have "0 \<le> (6379 :: int)" "(6379 :: int) < 2 ^ 16" "0 \<le> (1 :: int)" "(1 :: int) < 2 ^ 31" "0 \<le> (10 :: int)" "(10 :: int) < 2 ^ 31"
    by simp_all
  from cache_manager_from_config[OF redis_conf_loads maps this pool] show ?thesis by blast
qed

end
