(* ===== verification/Daemons.thy ===== *)
theory Daemons
  imports Prelude
begin

text \<open>
  \<open>src/Util/DaemonRun.cpp\<close> and \<open>src/Util/KaSingleton.h\<close>: turning the process into a daemon, and the template of
  objects of which there is one. A process is its table of open descriptors, its session and its
  disposition of \<open>SIGCHLD\<close>; \<open>open\<close> gives the lowest free descriptor, \<open>dup2\<close> copies an entry.
\<close>

section \<open>Processes\<close>

record 'f process =
  descriptors :: "(nat \<times> 'f) list"
  own_session :: bool
  ignores_children :: bool

text \<open>The lowest number that is not in use, looked for from \<open>n\<close> on with \<open>k\<close> steps.\<close>

fun lowest_free :: "nat \<Rightarrow> nat \<Rightarrow> nat list \<Rightarrow> nat" where
  "lowest_free 0 n used = n"
| "lowest_free (Suc k) n used = (if n \<in> set used then lowest_free k (Suc n) used else n)"

definition next_fd :: "'f process \<Rightarrow> nat" where
  "next_fd p = lowest_free (length (descriptors p)) 0 (map fst (descriptors p))"

definition close_fd :: "nat \<Rightarrow> 'f process \<Rightarrow> 'f process" where
  "close_fd fd p = p\<lparr>descriptors := filter (\<lambda>e. fst e \<noteq> fd) (descriptors p)\<rparr>"

definition dup2 :: "nat \<Rightarrow> nat \<Rightarrow> 'f process \<Rightarrow> 'f process" where
  "dup2 old new p =
     (case map_of (descriptors p) old of
        None \<Rightarrow> p
      | Some f \<Rightarrow> if old = new then p else (close_fd new p)\<lparr>descriptors := (new, f) # filter (\<lambda>e. fst e \<noteq> new) (descriptors p)\<rparr>)"

datatype 'f daemon_end = Exited int | Daemon "'f process"

text \<open>\<open>daemon_run\<close>: \<open>pid\<close> is what \<open>fork\<close> returns, \<open>null\<close> the device, \<open>None\<close> when it cannot be opened.\<close>

definition daemon_run :: "int \<Rightarrow> 'f option \<Rightarrow> 'f process \<Rightarrow> 'f daemon_end" where
  "daemon_run pid null p =
     (let p1 = p\<lparr>ignores_children := True\<rparr> in
      if pid < 0 then Exited (-1)
      else if 0 < pid then Exited 0
      else
        (let p2 = p1\<lparr>own_session := True\<rparr> in
         case null of
           None \<Rightarrow> Daemon p2
         | Some f \<Rightarrow>
             (let fd = next_fd p2;
                  p3 = p2\<lparr>descriptors := (fd, f) # descriptors p2\<rparr>;
                  p4 = dup2 fd 2 (dup2 fd 1 (dup2 fd 0 p3))
              in Daemon (if 2 < fd then close_fd fd p4 else p4))))"

lemma lowest_free_not_used:
  "length (filter (\<lambda>x. n \<le> x) used) \<le> k \<Longrightarrow> distinct used \<Longrightarrow> lowest_free k n used \<notin> set used"
proof (induction k arbitrary: n)
  case 0
  then show ?case by (auto simp: filter_empty_conv)
next
  case (Suc k)
  show ?case
  proof (cases "n \<in> set used")
    case True
    have "filter (\<lambda>x. Suc n \<le> x) used = filter (\<lambda>x. x \<noteq> n) (filter (\<lambda>x. n \<le> x) used)"
      by (auto intro: filter_cong)
    moreover have "length (filter (\<lambda>x. x \<noteq> n) (filter (\<lambda>x. n \<le> x) used)) < length (filter (\<lambda>x. n \<le> x) used)"
      by (rule length_filter_less[of n]) (use True in auto)
    ultimately have "length (filter (\<lambda>x. Suc n \<le> x) used) \<le> k" using Suc.prems(1) by simp
    then show ?thesis using True Suc.IH[of "Suc n"] Suc.prems(2) by simp
  qed simp
qed

lemma next_fd_free: "distinct (map fst (descriptors p)) \<Longrightarrow> next_fd p \<notin> fst ` set (descriptors p)"
proof -
  assume d: "distinct (map fst (descriptors p))"
  have "length (filter (\<lambda>x. 0 \<le> x) (map fst (descriptors p))) \<le> length (descriptors p)"
    using length_filter_le[of "\<lambda>x. 0 \<le> x" "map fst (descriptors p)"] by simp
  from lowest_free_not_used[OF this d] show ?thesis by (simp add: next_fd_def)
qed

lemma map_of_filter_key: "map_of (filter (\<lambda>e. fst e \<noteq> k) xs) = (map_of xs)(k := None)"
  by (induction xs) auto

lemma dup2_table:
  "map_of (descriptors (dup2 old new p)) =
     (case map_of (descriptors p) old of None \<Rightarrow> map_of (descriptors p) | Some f \<Rightarrow> (map_of (descriptors p))(new \<mapsto> f))"
  by (auto simp: dup2_def map_of_filter_key fun_eq_iff split: option.split)

lemma close_fd_table: "map_of (descriptors (close_fd fd p)) = (map_of (descriptors p))(fd := None)"
  by (simp add: close_fd_def map_of_filter_key)

lemma dup2_standard:
  assumes "map_of (descriptors p) fd = Some f"
  shows "map_of (descriptors (dup2 fd 2 (dup2 fd 1 (dup2 fd 0 p)))) = (map_of (descriptors p))(0 \<mapsto> f, 1 \<mapsto> f, 2 \<mapsto> f)"
proof -
  have 1: "map_of (descriptors (dup2 fd new q)) = (map_of (descriptors q))(new \<mapsto> f)" if "map_of (descriptors q) fd = Some f" for q new
    using that by (simp add: dup2_table)
  have 0: "map_of (descriptors (dup2 fd 0 p)) = (map_of (descriptors p))(0 \<mapsto> f)" by (rule 1[OF assms])
  have 2: "map_of (descriptors (dup2 fd 1 (dup2 fd 0 p))) = (map_of (descriptors p))(0 \<mapsto> f, 1 \<mapsto> f)"
    unfolding 0[symmetric] by (rule 1) (use assms 0 in simp)
  show ?thesis unfolding 2[symmetric] by (rule 1) (use assms 2 in simp)
qed

lemma dup2_flags: "own_session (dup2 old new p) = own_session p" "ignores_children (dup2 old new p) = ignores_children p"
  by (simp_all add: dup2_def close_fd_def split: option.split)

lemma restore_table:
  "m fd = None \<Longrightarrow> 2 < (fd :: nat) \<Longrightarrow> ((m(fd \<mapsto> f))(0 \<mapsto> f, 1 \<mapsto> f, 2 \<mapsto> f))(fd := None) = m(0 \<mapsto> f, 1 \<mapsto> f, 2 \<mapsto> f)"
  "\<not> 2 < fd \<Longrightarrow> (m(fd \<mapsto> f))(0 \<mapsto> f, 1 \<mapsto> f, 2 \<mapsto> f) = m(0 \<mapsto> f, 1 \<mapsto> f, 2 \<mapsto> f)"
  by (auto simp: fun_eq_iff)

text \<open>The child that goes on has its three standard descriptors on the null device, every other
  descriptor as before and none more, in a session of its own; the parent ends with 0, and with -1
  when it could not fork. Without the device the descriptors stay as they were.\<close>

theorem daemon_run_detaches:
  assumes "distinct (map fst (descriptors p))"
  shows "(0 < pid \<longrightarrow> daemon_run pid null p = Exited 0) \<and> (pid < 0 \<longrightarrow> daemon_run pid null p = Exited (-1)) \<and>
    (\<exists>q. daemon_run 0 (Some f) p = Daemon q \<and> own_session q \<and> ignores_children q \<and>
       map_of (descriptors q) = (map_of (descriptors p))(0 \<mapsto> f, 1 \<mapsto> f, 2 \<mapsto> f)) \<and>
    (\<exists>q. daemon_run 0 None p = Daemon q \<and> own_session q \<and> descriptors q = descriptors p)"
proof -
  let ?p2 = "p\<lparr>ignores_children := True, own_session := True\<rparr>"
  let ?fd = "next_fd ?p2"
  let ?p3 = "?p2\<lparr>descriptors := (?fd, f) # descriptors ?p2\<rparr>"
  let ?p4 = "dup2 ?fd 2 (dup2 ?fd 1 (dup2 ?fd 0 ?p3))"
  let ?q = "if 2 < ?fd then close_fd ?fd ?p4 else ?p4"
  have "next_fd ?p2 = next_fd p" by (simp add: next_fd_def)
  then have fresh: "map_of (descriptors p) ?fd = None"
    using next_fd_free[OF assms] by (simp add: map_of_eq_None_iff)
  have "map_of (descriptors ?p3) ?fd = Some f" by simp
  from dup2_standard[OF this]
  have t4: "map_of (descriptors ?p4) = ((map_of (descriptors p))(?fd \<mapsto> f))(0 \<mapsto> f, 1 \<mapsto> f, 2 \<mapsto> f)" by simp
  have tq: "map_of (descriptors ?q) = (map_of (descriptors p))(0 \<mapsto> f, 1 \<mapsto> f, 2 \<mapsto> f)"
    using restore_table(1)[of "map_of (descriptors p)" ?fd f] restore_table(2)[of ?fd "map_of (descriptors p)" f] fresh t4 close_fd_table[of ?fd ?p4]
    by (cases "2 < ?fd") simp_all
  have flags: "own_session ?q \<and> ignores_children ?q"
    by (simp add: close_fd_def dup2_flags)
  have run: "daemon_run 0 (Some f) p = Daemon ?q" by (simp add: daemon_run_def Let_def)
  have "\<exists>q. daemon_run 0 (Some f) p = Daemon q \<and> own_session q \<and> ignores_children q \<and>
       map_of (descriptors q) = (map_of (descriptors p))(0 \<mapsto> f, 1 \<mapsto> f, 2 \<mapsto> f)"
    using run flags tq by blast
  then show ?thesis by (simp add: daemon_run_def)
qed

theorem daemon_run_detaches_witness:
  "\<exists>q. daemon_run 0 (Some ''null'') \<lparr>descriptors = [(0, ''tty''), (1, ''tty''), (2, ''tty''), (3, ''log'')], own_session = False,
      ignores_children = False\<rparr> = Daemon q \<and>
     map_of (descriptors q) = [0 \<mapsto> ''null'', 1 \<mapsto> ''null'', 2 \<mapsto> ''null'', 3 \<mapsto> ''log'']"
proof -
  let ?p = "\<lparr>descriptors = [(0, ''tty''), (1, ''tty''), (2, ''tty''), (3, ''log'')], own_session = False, ignores_children = False\<rparr>"
  have d: "distinct (map fst (descriptors ?p))" by simp
  have m: "(map_of (descriptors ?p))(0 \<mapsto> ''null'', 1 \<mapsto> ''null'', 2 \<mapsto> ''null'') =
      [0 \<mapsto> ''null'', 1 \<mapsto> ''null'', 2 \<mapsto> ''null'', 3 \<mapsto> ''log'']" by (auto simp: fun_eq_iff)
  from daemon_run_detaches[OF d, of 0 None "''null''"] show ?thesis unfolding m by blast
qed

section \<open>Singletons\<close>

text \<open>\<open>KaSingleton::Instance\<close>: the static pointer, and the object \<open>new\<close> makes when it is null.\<close>

definition singleton_Instance :: "('w \<Rightarrow> 'a \<times> 'w) \<Rightarrow> 'a option \<times> 'w \<Rightarrow> 'a \<times> 'a option \<times> 'w" where
  "singleton_Instance new_object s =
     (case s of
        (None, w) \<Rightarrow> (let (x, w1) = new_object w in (x, Some x, w1))
      | (Some x, w) \<Rightarrow> (x, Some x, w))"

definition singleton_init :: "('w \<Rightarrow> 'a \<times> 'w) \<Rightarrow> 'a option \<times> 'w \<Rightarrow> 'a option \<times> 'w" where
  "singleton_init new_object s = (let (x, w1) = new_object (snd s) in (Some x, w1))"

text \<open>\<open>destory\<close> deletes the object and leaves the pointer as it is.\<close>

definition singleton_destory :: "('a option \<Rightarrow> 'w \<Rightarrow> 'w) \<Rightarrow> 'a option \<times> 'w \<Rightarrow> 'a option \<times> 'w" where
  "singleton_destory delete_object s = (fst s, delete_object (fst s) (snd s))"

lemma singleton_once:
  "singleton_Instance new_object s = (x, s') \<Longrightarrow> singleton_Instance new_object s' = (x, s')"
  by (auto simp: singleton_Instance_def Let_def split: prod.splits option.splits)

lemma singleton_survives_destory:
  "singleton_Instance new_object (singleton_destory delete_object (Some x, w)) = (x, Some x, delete_object (Some x) w)"
  by (simp add: singleton_Instance_def singleton_destory_def)

end
