(* ===== verification/WireFormat.thy ===== *)
theory WireFormat
  imports ByteStream
begin

text \<open>
  What the message classes of \<open>src/MsgDefine/KaBaseDefine.pb.cc\<close> use of the protocol buffer library,
  as a parameter, with the documented wire format as a named hypothesis; the parse loops that the
  classes share; and what follows for every message whose fields are read back by them. A library
  that writes and reads base-128 numbers satisfies the hypothesis.
\<close>

section \<open>The library\<close>

text \<open>An input stream is the bytes that are left of it. A read gives the value, when it succeeds, and the
  rest; the functions that fill a string or copy an unknown field also say what they have stored when
  they fail. The second group are the functions of the parser that runs over a pointer, \<open>None\<close> for the
  null pointer. Writers give the bytes they append.\<close>

record pb_lib =
  ReadTagWithCutoff :: "u32 \<Rightarrow> byte list \<Rightarrow> (u32 \<times> bool) \<times> byte list"
  GetTagFieldNumber :: "u32 \<Rightarrow> u32"
  ReadUInt32 :: "byte list \<Rightarrow> u32 option \<times> byte list"
  ReadString :: "byte list \<Rightarrow> bool \<times> byte list \<times> byte list"
  VerifyUtf8String :: "byte list \<Rightarrow> bool"
  SkipField :: "u32 \<Rightarrow> byte list \<Rightarrow> bool \<times> byte list \<times> byte list"
  ctx_Done :: "byte list \<Rightarrow> bool"
  ReadTag :: "byte list \<Rightarrow> (u32 \<times> byte list) option"
  ReadVarint :: "byte list \<Rightarrow> u64 \<times> byte list option"
  StringParserUTF8 :: "byte list \<Rightarrow> byte list \<times> byte list option"
  UnknownFieldParse :: "u32 \<Rightarrow> byte list \<Rightarrow> byte list \<times> byte list option"
  WriteUInt32 :: "nat \<Rightarrow> u32 \<Rightarrow> byte list"
  WriteString :: "nat \<Rightarrow> byte list \<Rightarrow> byte list"
  UInt32Size :: "u32 \<Rightarrow> size_t"
  StringSize :: "byte list \<Rightarrow> size_t"
  ToCachedSize :: "size_t \<Rightarrow> int"

text \<open>The wire format. A field of a number below 16 is its tag, one byte with the number and the wire
  type, and its value; both readers give back what the writers wrote, whatever follows; the sizes are
  those of what is written. Text that is not UTF-8 is written, and refused by the string parser. The laws
  leave out the library's limit on the size of a whole stream (2 GiB unless it is raised): they describe
  streams below it.\<close>

definition reads_tag :: "pb_lib \<Rightarrow> u32 \<Rightarrow> byte list \<Rightarrow> byte list \<Rightarrow> byte list \<Rightarrow> bool" where
  "reads_tag lib tag bs w r \<longleftrightarrow> ReadTagWithCutoff lib 127 (bs @ r) = ((tag, True), w @ r) \<and>
     ReadTag lib (bs @ r) = Some (tag, w @ r) \<and> bs \<noteq> []"

definition uint32_field :: "pb_lib \<Rightarrow> nat \<Rightarrow> u32 \<Rightarrow> byte list \<Rightarrow> bool" where
  "uint32_field lib f v r \<longleftrightarrow> (\<exists>w x. reads_tag lib (word_of_nat (8 * f)) (WriteUInt32 lib f v) w r \<and>
     ReadUInt32 lib (w @ r) = (Some v, r) \<and> ReadVarint lib (w @ r) = (x, Some r) \<and> ucast x = v)"

definition text_field :: "pb_lib \<Rightarrow> nat \<Rightarrow> byte list \<Rightarrow> byte list \<Rightarrow> bool" where
  "text_field lib f s r \<longleftrightarrow> (\<exists>w. reads_tag lib (word_of_nat (8 * f + 2)) (WriteString lib f s) w r \<and>
     ReadString lib (w @ r) = (True, s, r) \<and>
     StringParserUTF8 lib (w @ r) = (s, if VerifyUtf8String lib s then Some r else None))"

definition wire_format :: "pb_lib \<Rightarrow> bool" where
  "wire_format lib \<longleftrightarrow>
     (\<forall>f v r. 0 < f \<and> f < 16 \<longrightarrow> uint32_field lib f v r \<and> length (WriteUInt32 lib f v) = 1 + unat (UInt32Size lib v)) \<and>
     (\<forall>f s r. 0 < f \<and> f < 16 \<and> length s < 2 ^ 31 \<longrightarrow> text_field lib f s r \<and>
        length (WriteString lib f s) = 1 + unat (StringSize lib s)) \<and>
     (\<forall>t. GetTagFieldNumber lib t = drop_bit 3 t) \<and>
     (\<exists>b. ReadTagWithCutoff lib 127 [] = ((0, b), [])) \<and> (\<forall>bs. ctx_Done lib bs \<longleftrightarrow> bs = [])"

text \<open>No reader gives back more than it was given, and reading a tag takes at least a byte.\<close>

definition readers_advance :: "pb_lib \<Rightarrow> bool" where
  "readers_advance lib \<longleftrightarrow>
     (\<forall>bs t b r. ReadTagWithCutoff lib 127 bs = ((t, b), r) \<longrightarrow> t \<noteq> 0 \<longrightarrow> length r < length bs) \<and>
     (\<forall>bs v r. ReadUInt32 lib bs = (v, r) \<longrightarrow> length r \<le> length bs) \<and>
     (\<forall>bs ok s r. ReadString lib bs = (ok, s, r) \<longrightarrow> length r \<le> length bs) \<and>
     (\<forall>t bs ok w r. SkipField lib t bs = (ok, w, r) \<longrightarrow> length r \<le> length bs) \<and>
     (\<forall>bs t r. ReadTag lib bs = Some (t, r) \<longrightarrow> length r < length bs) \<and>
     (\<forall>bs v r. ReadVarint lib bs = (v, Some r) \<longrightarrow> length r \<le> length bs) \<and>
     (\<forall>bs s r. StringParserUTF8 lib bs = (s, Some r) \<longrightarrow> length r \<le> length bs) \<and>
     (\<forall>t bs w r. UnknownFieldParse lib t bs = (w, Some r) \<longrightarrow> length r \<le> length bs)"

text \<open>The bytes of one field whose tag is none of \<open>known\<close>: both parsers copy it as it is.\<close>

definition unknown_field :: "pb_lib \<Rightarrow> u32 set \<Rightarrow> byte list \<Rightarrow> bool" where
  "unknown_field lib known u \<longleftrightarrow> (\<forall>r. \<exists>tag b w. tag \<notin> known \<and> tag \<noteq> 0 \<and> tag AND 7 \<noteq> 4 \<and>
     ReadTagWithCutoff lib 127 (u @ r) = ((tag, b), w @ r) \<and> SkipField lib tag (w @ r) = (True, u, r) \<and>
     ReadTag lib (u @ r) = Some (tag, w @ r) \<and> UnknownFieldParse lib tag (w @ r) = (u, Some r)) \<and> u \<noteq> []"

section \<open>The parse loops\<close>

text \<open>\<open>field tag m bs\<close> is the \<open>switch\<close> of a class: \<open>None\<close> when it jumps to \<open>handle_unusual\<close>, otherwise
  whether the field was read, the message and the rest. \<open>unknown\<close> appends to the unknown fields of the
  message. \<open>None\<close> as the value of a loop means that it does not return.\<close>

partial_function (option) merge_loop :: "pb_lib \<Rightarrow> (u32 \<Rightarrow> 'm \<Rightarrow> byte list \<Rightarrow> (bool \<times> 'm \<times> byte list) option) \<Rightarrow>
    (byte list \<Rightarrow> 'm \<Rightarrow> 'm) \<Rightarrow> 'm \<Rightarrow> byte list \<Rightarrow> (bool \<times> 'm \<times> byte list) option" where
  "merge_loop lib field unknown m bs =
     (case ReadTagWithCutoff lib 127 bs of ((tag, cutoff), r) \<Rightarrow>
       (case (if cutoff then field tag m r else None) of
          Some (ok, m1, r1) \<Rightarrow> if ok then merge_loop lib field unknown m1 r1 else Some (False, m1, r1)
        | None \<Rightarrow>
            if tag = 0 then Some (True, m, r)
            else (case SkipField lib tag r of (ok, w, r1) \<Rightarrow>
              if ok then merge_loop lib field unknown (unknown w m) r1 else Some (False, unknown w m, r1))))"

text \<open>The loop over a pointer gives the pointer it returns, the last tag it set, and the message.\<close>

partial_function (option) parse_loop :: "pb_lib \<Rightarrow> (u32 \<Rightarrow> 'm \<Rightarrow> byte list \<Rightarrow> ('m \<times> byte list option) option) \<Rightarrow>
    (byte list \<Rightarrow> 'm \<Rightarrow> 'm) \<Rightarrow> 'm \<Rightarrow> byte list \<Rightarrow> (byte list option \<times> u32 option \<times> 'm) option" where
  "parse_loop lib field unknown m bs =
     (if ctx_Done lib bs then Some (Some bs, None, m)
      else
        (case ReadTag lib bs of
           None \<Rightarrow> Some (None, None, m)
         | Some (tag, r) \<Rightarrow>
             (case field tag m r of
                Some (m1, p) \<Rightarrow> (case p of None \<Rightarrow> Some (None, None, m1) | Some r1 \<Rightarrow> parse_loop lib field unknown m1 r1)
              | None \<Rightarrow>
                  if tag AND 7 = 4 \<or> tag = 0 then Some (Some r, Some tag, m)
                  else (case UnknownFieldParse lib tag r of (w, p) \<Rightarrow>
                    (case p of None \<Rightarrow> Some (None, None, unknown w m)
                     | Some r1 \<Rightarrow> parse_loop lib field unknown (unknown w m) r1)))))"

text \<open>The two kinds of field the messages have, read from the stream into the message by \<open>upd\<close>: a
  \<open>uint32\<close>, which is stored only when it was read, and a string, which is read into the message and
  then checked. The same over a pointer, where the number is stored before the pointer is tested.\<close>

definition read_uint32 :: "pb_lib \<Rightarrow> (u32 \<Rightarrow> 'm \<Rightarrow> 'm) \<Rightarrow> 'm \<Rightarrow> byte list \<Rightarrow> bool \<times> 'm \<times> byte list" where
  "read_uint32 lib upd m bs =
     (case ReadUInt32 lib bs of (Some v, r) \<Rightarrow> (True, upd v m, r) | (None, r) \<Rightarrow> (False, m, r))"

definition read_text :: "pb_lib \<Rightarrow> (byte list \<Rightarrow> 'm \<Rightarrow> 'm) \<Rightarrow> 'm \<Rightarrow> byte list \<Rightarrow> bool \<times> 'm \<times> byte list" where
  "read_text lib upd m bs =
     (case ReadString lib bs of (ok, s, r) \<Rightarrow> (ok \<and> VerifyUtf8String lib s, upd s m, r))"

definition parse_uint32 :: "pb_lib \<Rightarrow> (u32 \<Rightarrow> 'm \<Rightarrow> 'm) \<Rightarrow> 'm \<Rightarrow> byte list \<Rightarrow> 'm \<times> byte list option" where
  "parse_uint32 lib upd m bs = (case ReadVarint lib bs of (x, p) \<Rightarrow> (upd (ucast x) m, p))"

definition parse_text :: "pb_lib \<Rightarrow> (byte list \<Rightarrow> 'm \<Rightarrow> 'm) \<Rightarrow> 'm \<Rightarrow> byte list \<Rightarrow> 'm \<times> byte list option" where
  "parse_text lib upd m bs = (case StringParserUTF8 lib bs of (s, p) \<Rightarrow> (upd s m, p))"

section \<open>Lemmas\<close>

lemma wire_formatD:
  assumes "wire_format lib" and "0 < f" and "f < 16"
  shows "uint32_field lib f v r" "length s < 2 ^ 31 \<Longrightarrow> text_field lib f s r"
    "length (WriteUInt32 lib f v) = 1 + unat (UInt32Size lib v)"
    "length s < 2 ^ 31 \<Longrightarrow> length (WriteString lib f s) = 1 + unat (StringSize lib s)"
  using assms by (simp_all add: wire_format_def)

lemma readers_advanceD:
  assumes "readers_advance lib"
  shows "ReadTagWithCutoff lib 127 bs = ((t, b), r) \<Longrightarrow> t \<noteq> 0 \<Longrightarrow> length r < length bs"
    "ReadUInt32 lib bs = (v, r) \<Longrightarrow> length r \<le> length bs" "ReadString lib bs = (k, s, r) \<Longrightarrow> length r \<le> length bs"
    "SkipField lib t bs = (k, s, r) \<Longrightarrow> length r \<le> length bs" "ReadTag lib bs = Some (t, r) \<Longrightarrow> length r < length bs"
    "ReadVarint lib bs = (x, Some r) \<Longrightarrow> length r \<le> length bs"
    "StringParserUTF8 lib bs = (s, Some r) \<Longrightarrow> length r \<le> length bs"
    "UnknownFieldParse lib t bs = (s, Some r) \<Longrightarrow> length r \<le> length bs"
  using assms unfolding readers_advance_def by meson+

lemma merge_step:
  assumes "reads_tag lib tag e w r" and "field tag m (w @ r) = Some (ok, m1, r1)"
  shows "merge_loop lib field unknown m (e @ r) = (if ok then merge_loop lib field unknown m1 r1 else Some (False, m1, r1))"
  using assms by (subst merge_loop.simps) (simp add: reads_tag_def)

lemma parse_step:
  assumes "reads_tag lib tag e w r" and "wire_format lib" and "field tag m (w @ r) = Some (m1, p)"
  shows "parse_loop lib field unknown m (e @ r) = (case p of None \<Rightarrow> Some (None, None, m1) | Some r1 \<Rightarrow> parse_loop lib field unknown m1 r1)"
  using assms by (subst parse_loop.simps) (simp add: reads_tag_def wire_format_def)

lemma merge_end: "wire_format lib \<Longrightarrow> (\<And>m bs. field 0 m bs = None) \<Longrightarrow> merge_loop lib field unknown m [] = Some (True, m, [])"
  by (subst merge_loop.simps) (auto simp: wire_format_def)

lemma parse_end: "wire_format lib \<Longrightarrow> parse_loop lib field unknown m [] = Some (Some [], None, m)"
  by (subst parse_loop.simps) (simp add: wire_format_def)

lemma merge_unknown:
  assumes "unknown_field lib known u" and "\<And>tag m bs. tag \<notin> known \<Longrightarrow> field tag m bs = None"
  shows "merge_loop lib field unknown m (u @ r) = merge_loop lib field unknown (unknown u m) r"
proof -
  obtain tag b w where "tag \<notin> known" "tag \<noteq> 0" "ReadTagWithCutoff lib 127 (u @ r) = ((tag, b), w @ r)"
    "SkipField lib tag (w @ r) = (True, u, r)"
    using assms(1) unfolding unknown_field_def by blast
  then show ?thesis by (subst merge_loop.simps) (simp add: assms(2))
qed

lemma parse_unknown:
  assumes "unknown_field lib known u" and "wire_format lib" and "\<And>tag m bs. tag \<notin> known \<Longrightarrow> field tag m bs = None"
  shows "parse_loop lib field unknown m (u @ r) = parse_loop lib field unknown (unknown u m) r"
proof -
  obtain tag b w where "tag \<notin> known" "tag \<noteq> 0" "tag AND 7 \<noteq> 4" "ReadTag lib (u @ r) = Some (tag, w @ r)"
    "UnknownFieldParse lib tag (w @ r) = (u, Some r)" and "u \<noteq> []"
    using assms(1) unfolding unknown_field_def by blast
  then show ?thesis using assms(2) by (subst parse_loop.simps) (simp add: assms(3) wire_format_def)
qed

text \<open>A field of each kind, left out when it has its default value.\<close>

lemma merge_uint32:
  assumes "wire_format lib" and "0 < f" and "f < 16"
    and "\<And>m bs. field (word_of_nat (8 * f)) m bs = Some (read_uint32 lib upd m bs)"
  shows "merge_loop lib field unknown m (if v \<noteq> 0 then WriteUInt32 lib f v @ r else r) =
    merge_loop lib field unknown (if v \<noteq> 0 then upd v m else m) r"
proof -
  obtain w where w: "reads_tag lib (word_of_nat (8 * f)) (WriteUInt32 lib f v) w r" "ReadUInt32 lib (w @ r) = (Some v, r)"
    using wire_formatD(1) [OF assms(1-3), of v r] by (auto simp: uint32_field_def)
  have "field (word_of_nat (8 * f)) m (w @ r) = Some (True, upd v m, r)"
    unfolding assms(4) by (simp add: read_uint32_def w)
  from merge_step [where field = field and unknown = unknown, OF w(1) this] show ?thesis by simp
qed

lemma parse_uint32_step:
  assumes "wire_format lib" and "0 < f" and "f < 16"
    and "\<And>m bs. field (word_of_nat (8 * f)) m bs = Some (parse_uint32 lib upd m bs)"
  shows "parse_loop lib field unknown m (if v \<noteq> 0 then WriteUInt32 lib f v @ r else r) =
    parse_loop lib field unknown (if v \<noteq> 0 then upd v m else m) r"
proof -
  obtain w x where w: "reads_tag lib (word_of_nat (8 * f)) (WriteUInt32 lib f v) w r" "ReadVarint lib (w @ r) = (x, Some r)" "ucast x = v"
    using wire_formatD(1) [OF assms(1-3), of v r] by (auto simp: uint32_field_def)
  have "field (word_of_nat (8 * f)) m (w @ r) = Some (upd v m, Some r)"
    unfolding assms(4) by (simp add: parse_uint32_def w)
  from parse_step [where field = field and unknown = unknown, OF w(1) assms(1) this] show ?thesis by simp
qed

lemma merge_text:
  assumes "wire_format lib" and "0 < f" and "f < 16" and "length s < 2 ^ 31"
    and "\<And>m bs. field (word_of_nat (8 * f + 2)) m bs = Some (read_text lib upd m bs)"
  shows "merge_loop lib field unknown m (if s \<noteq> [] then WriteString lib f s @ r else r) =
    (if s \<noteq> [] then if VerifyUtf8String lib s then merge_loop lib field unknown (upd s m) r else Some (False, upd s m, r)
     else merge_loop lib field unknown m r)"
proof -
  obtain w where w: "reads_tag lib (word_of_nat (8 * f + 2)) (WriteString lib f s) w r" "ReadString lib (w @ r) = (True, s, r)"
    using wire_formatD(2) [OF assms(1-4), of r] by (auto simp: text_field_def)
  have "field (word_of_nat (8 * f + 2)) m (w @ r) = Some (VerifyUtf8String lib s, upd s m, r)"
    unfolding assms(5) by (simp add: read_text_def w)
  from merge_step [where field = field and unknown = unknown, OF w(1) this] show ?thesis by simp
qed

lemma parse_text_step:
  assumes "wire_format lib" and "0 < f" and "f < 16" and "length s < 2 ^ 31"
    and "\<And>m bs. field (word_of_nat (8 * f + 2)) m bs = Some (parse_text lib upd m bs)"
  shows "parse_loop lib field unknown m (if s \<noteq> [] then WriteString lib f s @ r else r) =
    (if s \<noteq> [] then if VerifyUtf8String lib s then parse_loop lib field unknown (upd s m) r else Some (None, None, upd s m)
     else parse_loop lib field unknown m r)"
proof -
  obtain w where w: "reads_tag lib (word_of_nat (8 * f + 2)) (WriteString lib f s) w r" "StringParserUTF8 lib (w @ r) = (s, if VerifyUtf8String lib s then Some r else None)"
    using wire_formatD(2) [OF assms(1-4), of r] by (auto simp: text_field_def)
  have "field (word_of_nat (8 * f + 2)) m (w @ r) = Some (upd s m, if VerifyUtf8String lib s then Some r else None)"
    unfolding assms(5) by (simp add: parse_text_def w)
  from parse_step [where field = field and unknown = unknown, OF w(1) assms(1) this] show ?thesis by simp
qed

text \<open>Any sequence of unknown fields is appended.\<close>

lemma merge_unknowns:
  assumes "\<forall>u \<in> set us. unknown_field lib known u" and "\<And>tag m bs. tag \<notin> known \<Longrightarrow> field tag m bs = None"
  shows "merge_loop lib field unknown m (concat us @ r) = merge_loop lib field unknown (fold unknown us m) r"
  using assms(1) by (induction us arbitrary: m) (simp_all add: merge_unknown [where known = known] assms(2))

lemma parse_unknowns:
  assumes "\<forall>u \<in> set us. unknown_field lib known u" and "wire_format lib"
    and "\<And>tag m bs. tag \<notin> known \<Longrightarrow> field tag m bs = None"
  shows "parse_loop lib field unknown m (concat us @ r) = parse_loop lib field unknown (fold unknown us m) r"
  using assms(1) by (induction us arbitrary: m) (simp_all add: parse_unknown [where known = known] assms(2,3))

subsection \<open>The loops end\<close>

lemma merge_loop_returns:
  assumes "readers_advance lib" and "\<And>m bs. field 0 m bs = None"
    and "\<And>tag m bs ok m1 r. field tag m bs = Some (ok, m1, r) \<Longrightarrow> length r \<le> length bs"
  shows "merge_loop lib field unknown m bs \<noteq> None"
proof (induction "length bs" arbitrary: m bs rule: less_induct)
  case less
  obtain tag cutoff r where r: "ReadTagWithCutoff lib 127 bs = ((tag, cutoff), r)" by (metis prod.collapse)
  note less_r = readers_advanceD(1) [OF assms(1) r]
  show ?case
  proof (cases "if cutoff then field tag m r else None")
    case (Some a)
    obtain ok m1 r1 where a: "a = (ok, m1, r1)" by (cases a)
    have "field tag m r = Some (ok, m1, r1)" "tag \<noteq> 0" using Some a assms(2) by (auto split: if_splits intro: ccontr)
    then have "length r1 < length bs" using assms(3) less_r by (meson le_less_trans)
    then show ?thesis using less.hyps [of r1 m1] r Some a by (subst merge_loop.simps) (simp del: not_None_eq)
  next
    case None
    obtain ok w r1 where s: "SkipField lib tag r = (ok, w, r1)" by (metis prod.collapse)
    then have "length r1 \<le> length r" by (rule readers_advanceD(4) [OF assms(1)])
    then have "tag \<noteq> 0 \<Longrightarrow> length r1 < length bs" using less_r by simp
    then show ?thesis using less.hyps [of r1 "unknown w m"] r None s by (subst merge_loop.simps) (simp del: not_None_eq)
  qed
qed

lemma parse_loop_returns:
  assumes "readers_advance lib"
    and "\<And>tag m bs m1 r. field tag m bs = Some (m1, Some r) \<Longrightarrow> length r \<le> length bs"
  shows "parse_loop lib field unknown m bs \<noteq> None"
proof (induction "length bs" arbitrary: m bs rule: less_induct)
  case less
  show ?case
  proof (cases "ctx_Done lib bs \<or> ReadTag lib bs = None")
    case True
    then show ?thesis by (subst parse_loop.simps) auto
  next
    case False
    then obtain tag r where r: "ReadTag lib bs = Some (tag, r)" and d: "\<not> ctx_Done lib bs" by auto
    note less_r = readers_advanceD(5) [OF assms(1) r]
    show ?thesis
    proof (cases "field tag m r")
      case (Some a)
      obtain m1 p where a: "a = (m1, p)" by (cases a)
      have "p = Some r1 \<Longrightarrow> length r1 < length bs" for r1 using assms(2) [of tag m r m1 r1] Some a less_r by simp
      then show ?thesis using less.hyps r d Some a by (subst parse_loop.simps) (auto split: option.split)
    next
      case None
      obtain w p where u: "UnknownFieldParse lib tag r = (w, p)" by (cases "UnknownFieldParse lib tag r")
      have "length r1 < length bs" if "p = Some r1" for r1
        using readers_advanceD(8) [OF assms(1)] u that less_r by (meson le_less_trans)
      then show ?thesis using less.hyps r d None u by (subst parse_loop.simps) (auto split: option.split)
    qed
  qed
qed

section \<open>Messages\<close>

text \<open>A class of messages whose parser reads what its serializer writes as a merge. A sequence of messages,
  written one after the other, is then read as the merge of all of them in order.\<close>

locale wire_message =
  fixes lawful :: bool and ok :: "'m \<Rightarrow> bool" and parse :: "'m \<Rightarrow> byte list \<Rightarrow> 'r" and finished :: "'m \<Rightarrow> 'r"
    and serialize :: "'m \<Rightarrow> byte list" and merge :: "'m \<Rightarrow> 'm \<Rightarrow> 'm"
  assumes parse_serialize: "lawful \<Longrightarrow> ok b \<Longrightarrow> parse m (serialize b @ r) = parse (merge b m) r"
    and parse_finished: "lawful \<Longrightarrow> parse m [] = finished m"
begin

lemma parse_one: "lawful \<Longrightarrow> ok b \<Longrightarrow> parse m (serialize b) = finished (merge b m)"
  using parse_serialize [of b m "[]"] parse_finished by simp

lemma parse_many: "lawful \<Longrightarrow> list_all ok bs \<Longrightarrow> parse m (concat (map serialize bs)) = finished (fold merge bs m)"
  by (induction bs arbitrary: m) (simp_all add: parse_finished parse_serialize)

end

section \<open>A library\<close>

text \<open>A library that reads and writes the wire format with base-128 numbers, to evaluate the messages with.
  Its text is ASCII; of the wire types it skips numbers and lengths.\<close>

definition ascii :: "byte list \<Rightarrow> bool" where
  "ascii s \<longleftrightarrow> list_all (\<lambda>b. unat b < 128) s"

definition wire_tag :: "byte list \<Rightarrow> (u32 \<times> byte list) option" where
  "wire_tag bs = (case read_base128 bs of None \<Rightarrow> None
     | Some (n, r) \<Rightarrow> if n < 2 ^ 32 then Some (word_of_nat n, r) else None)"

definition wire_string :: "byte list \<Rightarrow> bool \<times> byte list \<times> byte list" where
  "wire_string bs = (case read_base128 bs of None \<Rightarrow> (False, [], [])
     | Some (n, r) \<Rightarrow> if n \<le> length r then (True, take n r, drop n r) else (False, [], r))"

definition wire_skip :: "u32 \<Rightarrow> byte list \<Rightarrow> bool \<times> byte list \<times> byte list" where
  "wire_skip tag bs =
     (if tag AND 7 = 0 then
        (case read_base128 bs of None \<Rightarrow> (False, [], [])
         | Some (n, r) \<Rightarrow> (True, base128 (unat tag) @ base128 n, r))
      else if tag AND 7 = 2 then
        (case wire_string bs of (ok, s, r) \<Rightarrow> (ok, base128 (unat tag) @ base128 (length s) @ s, r))
      else (False, [], bs))"

definition wire_lib :: pb_lib where
  "wire_lib = \<lparr>
     ReadTagWithCutoff = (\<lambda>c bs. case wire_tag bs of None \<Rightarrow> ((0, False), []) | Some (t, r) \<Rightarrow> ((t, t \<le> c), r)),
     GetTagFieldNumber = drop_bit 3,
     ReadUInt32 = (\<lambda>bs. case read_base128 bs of None \<Rightarrow> (None, []) | Some (n, r) \<Rightarrow> (Some (word_of_nat n), r)),
     ReadString = wire_string, VerifyUtf8String = ascii, SkipField = wire_skip, ctx_Done = (\<lambda>bs. bs = []),
     ReadTag = wire_tag,
     ReadVarint = (\<lambda>bs. case read_base128 bs of None \<Rightarrow> (0, None) | Some (n, r) \<Rightarrow> (word_of_nat n, Some r)),
     StringParserUTF8 = (\<lambda>bs. case wire_string bs of (ok, s, r) \<Rightarrow> (s, if ok \<and> ascii s then Some r else None)),
     UnknownFieldParse = (\<lambda>t bs. case wire_skip t bs of (ok, w, r) \<Rightarrow> (w, if ok then Some r else None)),
     WriteUInt32 = (\<lambda>f v. base128 (8 * f) @ base128 (unat v)),
     WriteString = (\<lambda>f s. base128 (8 * f + 2) @ base128 (length s) @ s),
     UInt32Size = (\<lambda>v. word_of_nat (length (base128 (unat v)))),
     StringSize = (\<lambda>s. word_of_nat (length (base128 (length s)) + length s)),
     ToCachedSize = sint\<rparr>"

lemma read_base128_shorter: "read_base128 bs = Some (n, r) \<Longrightarrow> length r < length bs"
  by (induction bs arbitrary: n) (fastforce split: if_splits)+

lemma base128_small: "n < 128 \<Longrightarrow> base128 n = [word_of_nat n]"
  by (simp add: base128.simps)

lemma wire_tag_small:
  assumes "0 < n" and "n < 128"
  shows "wire_tag (word_of_nat n # bs) = Some (word_of_nat n, bs)" "(word_of_nat n :: u32) \<le> 127"
proof -
  have "unat (word_of_nat n :: byte) = n" "unat (word_of_nat n :: u32) = n" using assms(2) by (simp_all add: unat_of_nat_small)
  then show "wire_tag (word_of_nat n # bs) = Some (word_of_nat n, bs)" "(word_of_nat n :: u32) \<le> 127"
    using assms(2) by (simp_all add: wire_tag_def word_le_nat_alt)
qed

lemma base128_not_Nil [simp]: "base128 n \<noteq> []"
  by (subst base128.simps) simp

lemma wire_lib_format: "wire_format wire_lib"
proof -
  have low: "(ucast (word_of_nat (unat v) :: u64) :: u32) = v" for v :: u32
    by (rule bit_word_eqI) (simp add: bit_simps)
  have "uint32_field wire_lib f v r" if "0 < f" "f < 16" for f v r
    using wire_tag_small [where n = "8 * f"] that
    unfolding uint32_field_def reads_tag_def
    by (intro exI [of _ "base128 (unat v)"] exI [of _ "word_of_nat (unat v)"])
      (simp add: wire_lib_def base128_small read_base128_append unat_of_nat_small low [simplified])
  moreover have "text_field wire_lib f s r" if "0 < f" "f < 16" for f s r
    using wire_tag_small [where n = "8 * f + 2"] that
    unfolding text_field_def reads_tag_def
    by (intro exI [of _ "base128 (length s) @ s"])
      (simp add: wire_lib_def base128_small wire_string_def read_base128_append)
  moreover have "length (WriteUInt32 wire_lib f v) = 1 + unat (UInt32Size wire_lib v)" if "f < 16" for f v
  proof -
    have "length (base128 (unat v)) \<le> 5" using length_base128 [where n = "unat v" and k = 5] unsigned_less [of v, where ?'a = nat] by simp
    with that show ?thesis by (simp add: wire_lib_def base128_small unat_of_nat_small)
  qed
  moreover have "length (WriteString wire_lib f s) = 1 + unat (StringSize wire_lib s)" if "f < 16" "length s < 2 ^ 31" for f s
  proof -
    have "length (base128 (length s)) \<le> 5" using length_base128 [where n = "length s" and k = 5] that(2) by simp
    then have "unat (word_of_nat (length (base128 (length s)) + length s) :: size_t) = length (base128 (length s)) + length s"
      using that(2) by (intro unat_of_nat_small) simp
    with that show ?thesis by (simp add: wire_lib_def base128_small del: of_nat_add)
  qed
  moreover have "GetTagFieldNumber wire_lib t = drop_bit 3 t" "ReadTagWithCutoff wire_lib 127 [] = ((0, False), [])"
    "ctx_Done wire_lib bs \<longleftrightarrow> bs = []" for t bs
    by (simp_all add: wire_lib_def wire_tag_def)
  ultimately show ?thesis unfolding wire_format_def by blast
qed

lemma wire_tag_shorter: "wire_tag bs = Some (t, r) \<Longrightarrow> length r < length bs"
  by (auto simp: wire_tag_def dest: read_base128_shorter split: option.splits if_splits)

lemma wire_string_shorter: "wire_string bs = (ok, s, r) \<Longrightarrow> length r \<le> length bs"
  by (auto simp: wire_string_def dest!: read_base128_shorter split: option.splits if_splits)

lemma wire_skip_shorter: "wire_skip t bs = (ok, s, r) \<Longrightarrow> length r \<le> length bs"
  by (auto simp: wire_skip_def dest: read_base128_shorter wire_string_shorter split: option.splits if_splits prod.splits)

lemma wire_lib_advances: "readers_advance wire_lib"
  unfolding readers_advance_def wire_lib_def
  by (auto dest: wire_tag_shorter wire_string_shorter wire_skip_shorter read_base128_shorter
      split: option.splits if_splits prod.splits)

end
