(* ===== verification/Messages.thy ===== *)
theory Messages
  imports WireFormat
begin

text \<open>
  The two messages of \<open>src/MsgDefine/KaBaseDefine.pb.h\<close> and \<open>KaBaseDefine.pb.cc\<close>, the classes of
  \<open>KaBaseDefine.proto\<close>: a user and a chat message, with their accessors, merging, the two parsers
  (one of them is compiled) and the serializer, over the library of \<open>WireFormat\<close>. The holders of the
  library are represented by what they hold: a string field by its bytes, the metadata by the bytes
  of the unknown fields, the cached size by a number.
\<close>

section \<open>UserInfo\<close>

record IMBase_UserInfo =
  ui_metadata :: "byte list"
  ui_user_nick_name :: "byte list"
  ui_passwd :: "byte list"
  ui_user_id :: u32
  ui_user_gender :: u32
  ui_status :: u32
  ui_cached_size :: int

text \<open>The accessors. A C string ends at its first NUL; a null pointer is undefined. \<open>mutable\<close> hands out a
  pointer to the string, whose owner makes \<open>h\<close> of it; \<open>release\<close> gives a null pointer when the string is
  empty and the holder owns none (\<open>owned\<close>).\<close>

definition clear_user_id :: "IMBase_UserInfo \<Rightarrow> IMBase_UserInfo" where
  "clear_user_id m = m\<lparr>ui_user_id := 0\<rparr>"

definition UserInfo_user_id :: "IMBase_UserInfo \<Rightarrow> u32" where
  "UserInfo_user_id m = ui_user_id m"

definition set_user_id :: "u32 \<Rightarrow> IMBase_UserInfo \<Rightarrow> IMBase_UserInfo" where
  "set_user_id v m = m\<lparr>ui_user_id := v\<rparr>"

definition clear_user_gender :: "IMBase_UserInfo \<Rightarrow> IMBase_UserInfo" where
  "clear_user_gender m = m\<lparr>ui_user_gender := 0\<rparr>"

definition UserInfo_user_gender :: "IMBase_UserInfo \<Rightarrow> u32" where
  "UserInfo_user_gender m = ui_user_gender m"

definition set_user_gender :: "u32 \<Rightarrow> IMBase_UserInfo \<Rightarrow> IMBase_UserInfo" where
  "set_user_gender v m = m\<lparr>ui_user_gender := v\<rparr>"

definition clear_status :: "IMBase_UserInfo \<Rightarrow> IMBase_UserInfo" where
  "clear_status m = m\<lparr>ui_status := 0\<rparr>"

definition UserInfo_status :: "IMBase_UserInfo \<Rightarrow> u32" where
  "UserInfo_status m = ui_status m"

definition set_status :: "u32 \<Rightarrow> IMBase_UserInfo \<Rightarrow> IMBase_UserInfo" where
  "set_status v m = m\<lparr>ui_status := v\<rparr>"

definition clear_user_nick_name :: "IMBase_UserInfo \<Rightarrow> IMBase_UserInfo" where
  "clear_user_nick_name m = m\<lparr>ui_user_nick_name := []\<rparr>"

definition UserInfo_user_nick_name :: "IMBase_UserInfo \<Rightarrow> byte list" where
  "UserInfo_user_nick_name m = ui_user_nick_name m"

definition set_user_nick_name :: "byte list \<Rightarrow> IMBase_UserInfo \<Rightarrow> IMBase_UserInfo" where
  "set_user_nick_name v m = m\<lparr>ui_user_nick_name := v\<rparr>"

definition set_user_nick_name_cstr :: "byte list option \<Rightarrow> IMBase_UserInfo \<Rightarrow> cxx_error + IMBase_UserInfo" where
  "set_user_nick_name_cstr v m =
     (case v of None \<Rightarrow> Inl Undefined_Behaviour | Some s \<Rightarrow> Inr (set_user_nick_name (takeWhile (\<lambda>b. b \<noteq> 0) s) m))"

definition set_user_nick_name_mem :: "byte list \<Rightarrow> size_t \<Rightarrow> IMBase_UserInfo \<Rightarrow> cxx_error + IMBase_UserInfo" where
  "set_user_nick_name_mem v n m =
     (if length v < unat n then Inl Undefined_Behaviour else Inr (set_user_nick_name (take (unat n) v) m))"

definition mutable_user_nick_name :: "(byte list \<Rightarrow> byte list) \<Rightarrow> IMBase_UserInfo \<Rightarrow> IMBase_UserInfo" where
  "mutable_user_nick_name h m = m\<lparr>ui_user_nick_name := h (ui_user_nick_name m)\<rparr>"

definition release_user_nick_name :: "bool \<Rightarrow> IMBase_UserInfo \<Rightarrow> byte list option \<times> IMBase_UserInfo" where
  "release_user_nick_name owned m =
     (if ui_user_nick_name m = [] \<and> \<not> owned then None else Some (ui_user_nick_name m), m\<lparr>ui_user_nick_name := []\<rparr>)"

definition set_allocated_user_nick_name :: "byte list option \<Rightarrow> IMBase_UserInfo \<Rightarrow> IMBase_UserInfo" where
  "set_allocated_user_nick_name s m =
     m\<lparr>ui_user_nick_name := (case s of None \<Rightarrow> [] | Some v \<Rightarrow> v)\<rparr>"

definition clear_passwd :: "IMBase_UserInfo \<Rightarrow> IMBase_UserInfo" where
  "clear_passwd m = m\<lparr>ui_passwd := []\<rparr>"

definition UserInfo_passwd :: "IMBase_UserInfo \<Rightarrow> byte list" where
  "UserInfo_passwd m = ui_passwd m"

definition set_passwd :: "byte list \<Rightarrow> IMBase_UserInfo \<Rightarrow> IMBase_UserInfo" where
  "set_passwd v m = m\<lparr>ui_passwd := v\<rparr>"

definition set_passwd_cstr :: "byte list option \<Rightarrow> IMBase_UserInfo \<Rightarrow> cxx_error + IMBase_UserInfo" where
  "set_passwd_cstr v m =
     (case v of None \<Rightarrow> Inl Undefined_Behaviour | Some s \<Rightarrow> Inr (set_passwd (takeWhile (\<lambda>b. b \<noteq> 0) s) m))"

definition set_passwd_mem :: "byte list \<Rightarrow> size_t \<Rightarrow> IMBase_UserInfo \<Rightarrow> cxx_error + IMBase_UserInfo" where
  "set_passwd_mem v n m =
     (if length v < unat n then Inl Undefined_Behaviour else Inr (set_passwd (take (unat n) v) m))"

definition mutable_passwd :: "(byte list \<Rightarrow> byte list) \<Rightarrow> IMBase_UserInfo \<Rightarrow> IMBase_UserInfo" where
  "mutable_passwd h m = m\<lparr>ui_passwd := h (ui_passwd m)\<rparr>"

definition release_passwd :: "bool \<Rightarrow> IMBase_UserInfo \<Rightarrow> byte list option \<times> IMBase_UserInfo" where
  "release_passwd owned m =
     (if ui_passwd m = [] \<and> \<not> owned then None else Some (ui_passwd m), m\<lparr>ui_passwd := []\<rparr>)"

definition set_allocated_passwd :: "byte list option \<Rightarrow> IMBase_UserInfo \<Rightarrow> IMBase_UserInfo" where
  "set_allocated_passwd s m =
     m\<lparr>ui_passwd := (case s of None \<Rightarrow> [] | Some v \<Rightarrow> v)\<rparr>"

text \<open>Construction, copying and clearing.\<close>

definition UserInfo_new :: "IMBase_UserInfo" where
  "UserInfo_new =
     \<lparr>ui_metadata = [], ui_user_nick_name = [], ui_passwd = [], ui_user_id = 0, ui_user_gender = 0, ui_status = 0, ui_cached_size = 0\<rparr>"

definition UserInfo_copy :: "IMBase_UserInfo \<Rightarrow> IMBase_UserInfo" where
  "UserInfo_copy from_m =
     \<lparr>ui_metadata = [] @ ui_metadata from_m,
      ui_user_nick_name = (if 0 < length (UserInfo_user_nick_name from_m) then ui_user_nick_name from_m else []),
      ui_passwd = (if 0 < length (UserInfo_passwd from_m) then ui_passwd from_m else []),
      ui_user_id = ui_user_id from_m, ui_user_gender = ui_user_gender from_m, ui_status = ui_status from_m, ui_cached_size = 0\<rparr>"

definition UserInfo_default_instance :: "IMBase_UserInfo" where
  "UserInfo_default_instance = UserInfo_new"

definition UserInfo_New :: "IMBase_UserInfo" where
  "UserInfo_New = UserInfo_new"

definition UserInfo_Clear :: "IMBase_UserInfo \<Rightarrow> IMBase_UserInfo" where
  "UserInfo_Clear m =
     m\<lparr>ui_user_nick_name := [], ui_passwd := [], ui_user_id := 0, ui_user_gender := 0, ui_status := 0, ui_metadata := []\<rparr>"

definition UserInfo_SetCachedSize :: "int \<Rightarrow> IMBase_UserInfo \<Rightarrow> IMBase_UserInfo" where
  "UserInfo_SetCachedSize n m = m\<lparr>ui_cached_size := n\<rparr>"

definition UserInfo_GetCachedSize :: "IMBase_UserInfo \<Rightarrow> int" where
  "UserInfo_GetCachedSize m = ui_cached_size m"

definition UserInfo_IsInitialized :: "IMBase_UserInfo \<Rightarrow> bool" where
  "UserInfo_IsInitialized m = True"

definition UserInfo_GetTypeName :: "IMBase_UserInfo \<Rightarrow> string" where
  "UserInfo_GetTypeName m = ''IMBase.UserInfo''"

text \<open>Merging another message into this one.\<close>

definition UserInfo_MergeFrom :: "IMBase_UserInfo \<Rightarrow> IMBase_UserInfo \<Rightarrow> IMBase_UserInfo" where
  "UserInfo_MergeFrom from_m m =
     (let m0 = m\<lparr>ui_metadata := ui_metadata m @ ui_metadata from_m\<rparr>;
          m1 = (if 0 < length (UserInfo_user_nick_name from_m) then m0\<lparr>ui_user_nick_name := ui_user_nick_name from_m\<rparr> else m0);
          m2 = (if 0 < length (UserInfo_passwd from_m) then m1\<lparr>ui_passwd := ui_passwd from_m\<rparr> else m1);
          m3 = (if UserInfo_user_id from_m \<noteq> 0 then set_user_id (UserInfo_user_id from_m) m2 else m2);
          m4 = (if UserInfo_user_gender from_m \<noteq> 0 then set_user_gender (UserInfo_user_gender from_m) m3 else m3)
      in if UserInfo_status from_m \<noteq> 0 then set_status (UserInfo_status from_m) m4 else m4)"

definition UserInfo_CheckTypeAndMergeFrom :: "IMBase_UserInfo \<Rightarrow> IMBase_UserInfo \<Rightarrow> IMBase_UserInfo" where
  "UserInfo_CheckTypeAndMergeFrom from_m m = UserInfo_MergeFrom from_m m"

text \<open>\<open>same\<close> tells whether the two references are one object.\<close>

definition UserInfo_CopyFrom :: "bool \<Rightarrow> IMBase_UserInfo \<Rightarrow> IMBase_UserInfo \<Rightarrow> IMBase_UserInfo" where
  "UserInfo_CopyFrom same from_m m = (if same then m else UserInfo_MergeFrom from_m (UserInfo_Clear m))"

definition UserInfo_InternalSwap :: "IMBase_UserInfo \<Rightarrow> IMBase_UserInfo \<Rightarrow> IMBase_UserInfo \<times> IMBase_UserInfo" where
  "UserInfo_InternalSwap a b =
     (b\<lparr>ui_cached_size := ui_cached_size a\<rparr>, a\<lparr>ui_cached_size := ui_cached_size b\<rparr>)"

definition UserInfo_Swap :: "bool \<Rightarrow> IMBase_UserInfo \<Rightarrow> IMBase_UserInfo \<Rightarrow> IMBase_UserInfo \<times> IMBase_UserInfo" where
  "UserInfo_Swap same a b = (if same then (a, b) else UserInfo_InternalSwap a b)"

definition UserInfo_move_assign :: "bool \<Rightarrow> IMBase_UserInfo \<Rightarrow> IMBase_UserInfo \<Rightarrow> IMBase_UserInfo \<times> IMBase_UserInfo" where
  "UserInfo_move_assign same from_m m = (if same then (m, from_m) else UserInfo_InternalSwap m from_m)"

definition UserInfo_move :: "IMBase_UserInfo \<Rightarrow> IMBase_UserInfo \<times> IMBase_UserInfo" where
  "UserInfo_move from_m = UserInfo_move_assign False from_m UserInfo_new"

text \<open>The switch of the stream parser and the parser; the same over a pointer.\<close>

definition UserInfo_read_field :: "pb_lib \<Rightarrow> u32 \<Rightarrow> IMBase_UserInfo \<Rightarrow> byte list \<Rightarrow> (bool \<times> IMBase_UserInfo \<times> byte list) option" where
  "UserInfo_read_field lib tag m bs =
     (let n = GetTagFieldNumber lib tag; t = (ucast tag :: byte) in
      if n = 1 then (if t = 8 then Some (read_uint32 lib set_user_id m bs) else None)
      else if n = 2 then (if t = 16 then Some (read_uint32 lib set_user_gender m bs) else None)
      else if n = 3 then (if t = 26 then Some (read_text lib (\<lambda>s. mutable_user_nick_name (\<lambda>_. s)) m bs) else None)
      else if n = 4 then (if t = 34 then Some (read_text lib (\<lambda>s. mutable_passwd (\<lambda>_. s)) m bs) else None)
      else if n = 5 then (if t = 40 then Some (read_uint32 lib set_status m bs) else None)
      else None)"

definition UserInfo_parse_field :: "pb_lib \<Rightarrow> u32 \<Rightarrow> IMBase_UserInfo \<Rightarrow> byte list \<Rightarrow> (IMBase_UserInfo \<times> byte list option) option" where
  "UserInfo_parse_field lib tag m bs =
     (let n = drop_bit 3 tag; t = (ucast tag :: byte) in
      if n = 1 then (if t = 8 then Some (parse_uint32 lib set_user_id m bs) else None)
      else if n = 2 then (if t = 16 then Some (parse_uint32 lib set_user_gender m bs) else None)
      else if n = 3 then (if t = 26 then Some (parse_text lib (\<lambda>s. mutable_user_nick_name (\<lambda>_. s)) m bs) else None)
      else if n = 4 then (if t = 34 then Some (parse_text lib (\<lambda>s. mutable_passwd (\<lambda>_. s)) m bs) else None)
      else if n = 5 then (if t = 40 then Some (parse_uint32 lib set_status m bs) else None)
      else None)"

definition UserInfo_add_unknown :: "byte list \<Rightarrow> IMBase_UserInfo \<Rightarrow> IMBase_UserInfo" where
  "UserInfo_add_unknown w m = m\<lparr>ui_metadata := ui_metadata m @ w\<rparr>"

definition UserInfo_MergePartialFromCodedStream :: "pb_lib \<Rightarrow> IMBase_UserInfo \<Rightarrow> byte list \<Rightarrow> (bool \<times> IMBase_UserInfo \<times> byte list) option" where
  "UserInfo_MergePartialFromCodedStream lib = merge_loop lib (UserInfo_read_field lib) UserInfo_add_unknown"

definition UserInfo_InternalParse :: "pb_lib \<Rightarrow> IMBase_UserInfo \<Rightarrow> byte list \<Rightarrow> (byte list option \<times> u32 option \<times> IMBase_UserInfo) option" where
  "UserInfo_InternalParse lib = parse_loop lib (UserInfo_parse_field lib) UserInfo_add_unknown"

text \<open>What is written and how many bytes that is.\<close>

definition UserInfo_SerializeWithCachedSizes :: "pb_lib \<Rightarrow> IMBase_UserInfo \<Rightarrow> byte list" where
  "UserInfo_SerializeWithCachedSizes lib m =
     (if UserInfo_user_id m \<noteq> 0 then WriteUInt32 lib 1 (UserInfo_user_id m) else []) @
     (if UserInfo_user_gender m \<noteq> 0 then WriteUInt32 lib 2 (UserInfo_user_gender m) else []) @
     (if 0 < length (UserInfo_user_nick_name m) then WriteString lib 3 (UserInfo_user_nick_name m) else []) @
     (if 0 < length (UserInfo_passwd m) then WriteString lib 4 (UserInfo_passwd m) else []) @
     (if UserInfo_status m \<noteq> 0 then WriteUInt32 lib 5 (UserInfo_status m) else []) @
     ui_metadata m"

definition UserInfo_ByteSizeLong :: "pb_lib \<Rightarrow> IMBase_UserInfo \<Rightarrow> size_t \<times> IMBase_UserInfo" where
  "UserInfo_ByteSizeLong lib m =
     (let total_size = word_of_nat (length (ui_metadata m)) +
            (if 0 < length (UserInfo_user_nick_name m) then 1 + StringSize lib (UserInfo_user_nick_name m) else 0) +
            (if 0 < length (UserInfo_passwd m) then 1 + StringSize lib (UserInfo_passwd m) else 0) +
            (if UserInfo_user_id m \<noteq> 0 then 1 + UInt32Size lib (UserInfo_user_id m) else 0) +
            (if UserInfo_user_gender m \<noteq> 0 then 1 + UInt32Size lib (UserInfo_user_gender m) else 0) +
            (if UserInfo_status m \<noteq> 0 then 1 + UInt32Size lib (UserInfo_status m) else 0)
      in (total_size, UserInfo_SetCachedSize (ToCachedSize lib total_size) m))"

section \<open>ChatMessage\<close>

record IMBase_ChatMessage =
  cm_metadata :: "byte list"
  cm_chatdata :: "byte list"
  cm_sendid :: u32
  cm_targetid :: u32
  cm_cached_size :: int

text \<open>The accessors.\<close>

definition clear_sendid :: "IMBase_ChatMessage \<Rightarrow> IMBase_ChatMessage" where
  "clear_sendid m = m\<lparr>cm_sendid := 0\<rparr>"

definition ChatMessage_sendid :: "IMBase_ChatMessage \<Rightarrow> u32" where
  "ChatMessage_sendid m = cm_sendid m"

definition set_sendid :: "u32 \<Rightarrow> IMBase_ChatMessage \<Rightarrow> IMBase_ChatMessage" where
  "set_sendid v m = m\<lparr>cm_sendid := v\<rparr>"

definition clear_targetid :: "IMBase_ChatMessage \<Rightarrow> IMBase_ChatMessage" where
  "clear_targetid m = m\<lparr>cm_targetid := 0\<rparr>"

definition ChatMessage_targetid :: "IMBase_ChatMessage \<Rightarrow> u32" where
  "ChatMessage_targetid m = cm_targetid m"

definition set_targetid :: "u32 \<Rightarrow> IMBase_ChatMessage \<Rightarrow> IMBase_ChatMessage" where
  "set_targetid v m = m\<lparr>cm_targetid := v\<rparr>"

definition clear_chatdata :: "IMBase_ChatMessage \<Rightarrow> IMBase_ChatMessage" where
  "clear_chatdata m = m\<lparr>cm_chatdata := []\<rparr>"

definition ChatMessage_chatdata :: "IMBase_ChatMessage \<Rightarrow> byte list" where
  "ChatMessage_chatdata m = cm_chatdata m"

definition set_chatdata :: "byte list \<Rightarrow> IMBase_ChatMessage \<Rightarrow> IMBase_ChatMessage" where
  "set_chatdata v m = m\<lparr>cm_chatdata := v\<rparr>"

definition set_chatdata_cstr :: "byte list option \<Rightarrow> IMBase_ChatMessage \<Rightarrow> cxx_error + IMBase_ChatMessage" where
  "set_chatdata_cstr v m =
     (case v of None \<Rightarrow> Inl Undefined_Behaviour | Some s \<Rightarrow> Inr (set_chatdata (takeWhile (\<lambda>b. b \<noteq> 0) s) m))"

definition set_chatdata_mem :: "byte list \<Rightarrow> size_t \<Rightarrow> IMBase_ChatMessage \<Rightarrow> cxx_error + IMBase_ChatMessage" where
  "set_chatdata_mem v n m =
     (if length v < unat n then Inl Undefined_Behaviour else Inr (set_chatdata (take (unat n) v) m))"

definition mutable_chatdata :: "(byte list \<Rightarrow> byte list) \<Rightarrow> IMBase_ChatMessage \<Rightarrow> IMBase_ChatMessage" where
  "mutable_chatdata h m = m\<lparr>cm_chatdata := h (cm_chatdata m)\<rparr>"

definition release_chatdata :: "bool \<Rightarrow> IMBase_ChatMessage \<Rightarrow> byte list option \<times> IMBase_ChatMessage" where
  "release_chatdata owned m =
     (if cm_chatdata m = [] \<and> \<not> owned then None else Some (cm_chatdata m), m\<lparr>cm_chatdata := []\<rparr>)"

definition set_allocated_chatdata :: "byte list option \<Rightarrow> IMBase_ChatMessage \<Rightarrow> IMBase_ChatMessage" where
  "set_allocated_chatdata s m =
     m\<lparr>cm_chatdata := (case s of None \<Rightarrow> [] | Some v \<Rightarrow> v)\<rparr>"

text \<open>Construction, copying and clearing.\<close>

definition ChatMessage_new :: "IMBase_ChatMessage" where
  "ChatMessage_new =
     \<lparr>cm_metadata = [], cm_chatdata = [], cm_sendid = 0, cm_targetid = 0, cm_cached_size = 0\<rparr>"

definition ChatMessage_copy :: "IMBase_ChatMessage \<Rightarrow> IMBase_ChatMessage" where
  "ChatMessage_copy from_m =
     \<lparr>cm_metadata = [] @ cm_metadata from_m,
      cm_chatdata = (if 0 < length (ChatMessage_chatdata from_m) then cm_chatdata from_m else []),
      cm_sendid = cm_sendid from_m, cm_targetid = cm_targetid from_m, cm_cached_size = 0\<rparr>"

definition ChatMessage_default_instance :: "IMBase_ChatMessage" where
  "ChatMessage_default_instance = ChatMessage_new"

definition ChatMessage_New :: "IMBase_ChatMessage" where
  "ChatMessage_New = ChatMessage_new"

definition ChatMessage_Clear :: "IMBase_ChatMessage \<Rightarrow> IMBase_ChatMessage" where
  "ChatMessage_Clear m =
     m\<lparr>cm_chatdata := [], cm_sendid := 0, cm_targetid := 0, cm_metadata := []\<rparr>"

definition ChatMessage_SetCachedSize :: "int \<Rightarrow> IMBase_ChatMessage \<Rightarrow> IMBase_ChatMessage" where
  "ChatMessage_SetCachedSize n m = m\<lparr>cm_cached_size := n\<rparr>"

definition ChatMessage_GetCachedSize :: "IMBase_ChatMessage \<Rightarrow> int" where
  "ChatMessage_GetCachedSize m = cm_cached_size m"

definition ChatMessage_IsInitialized :: "IMBase_ChatMessage \<Rightarrow> bool" where
  "ChatMessage_IsInitialized m = True"

definition ChatMessage_GetTypeName :: "IMBase_ChatMessage \<Rightarrow> string" where
  "ChatMessage_GetTypeName m = ''IMBase.ChatMessage''"

text \<open>Merging another message into this one.\<close>

definition ChatMessage_MergeFrom :: "IMBase_ChatMessage \<Rightarrow> IMBase_ChatMessage \<Rightarrow> IMBase_ChatMessage" where
  "ChatMessage_MergeFrom from_m m =
     (let m0 = m\<lparr>cm_metadata := cm_metadata m @ cm_metadata from_m\<rparr>;
          m1 = (if 0 < length (ChatMessage_chatdata from_m) then m0\<lparr>cm_chatdata := cm_chatdata from_m\<rparr> else m0);
          m2 = (if ChatMessage_sendid from_m \<noteq> 0 then set_sendid (ChatMessage_sendid from_m) m1 else m1)
      in if ChatMessage_targetid from_m \<noteq> 0 then set_targetid (ChatMessage_targetid from_m) m2 else m2)"

definition ChatMessage_CheckTypeAndMergeFrom :: "IMBase_ChatMessage \<Rightarrow> IMBase_ChatMessage \<Rightarrow> IMBase_ChatMessage" where
  "ChatMessage_CheckTypeAndMergeFrom from_m m = ChatMessage_MergeFrom from_m m"

definition ChatMessage_CopyFrom :: "bool \<Rightarrow> IMBase_ChatMessage \<Rightarrow> IMBase_ChatMessage \<Rightarrow> IMBase_ChatMessage" where
  "ChatMessage_CopyFrom same from_m m =
     (if same then m else ChatMessage_MergeFrom from_m (ChatMessage_Clear m))"

definition ChatMessage_InternalSwap :: "IMBase_ChatMessage \<Rightarrow> IMBase_ChatMessage \<Rightarrow> IMBase_ChatMessage \<times> IMBase_ChatMessage" where
  "ChatMessage_InternalSwap a b =
     (b\<lparr>cm_cached_size := cm_cached_size a\<rparr>, a\<lparr>cm_cached_size := cm_cached_size b\<rparr>)"

definition ChatMessage_Swap :: "bool \<Rightarrow> IMBase_ChatMessage \<Rightarrow> IMBase_ChatMessage \<Rightarrow> IMBase_ChatMessage \<times> IMBase_ChatMessage" where
  "ChatMessage_Swap same a b = (if same then (a, b) else ChatMessage_InternalSwap a b)"

definition ChatMessage_move_assign :: "bool \<Rightarrow> IMBase_ChatMessage \<Rightarrow> IMBase_ChatMessage \<Rightarrow> IMBase_ChatMessage \<times> IMBase_ChatMessage" where
  "ChatMessage_move_assign same from_m m = (if same then (m, from_m) else ChatMessage_InternalSwap m from_m)"

definition ChatMessage_move :: "IMBase_ChatMessage \<Rightarrow> IMBase_ChatMessage \<times> IMBase_ChatMessage" where
  "ChatMessage_move from_m = ChatMessage_move_assign False from_m ChatMessage_new"

text \<open>The switch of the stream parser and the parser; the same over a pointer.\<close>

definition ChatMessage_read_field :: "pb_lib \<Rightarrow> u32 \<Rightarrow> IMBase_ChatMessage \<Rightarrow> byte list \<Rightarrow> (bool \<times> IMBase_ChatMessage \<times> byte list) option" where
  "ChatMessage_read_field lib tag m bs =
     (let n = GetTagFieldNumber lib tag; t = (ucast tag :: byte) in
      if n = 1 then (if t = 8 then Some (read_uint32 lib set_sendid m bs) else None)
      else if n = 2 then (if t = 16 then Some (read_uint32 lib set_targetid m bs) else None)
      else if n = 3 then (if t = 26 then Some (read_text lib (\<lambda>s. mutable_chatdata (\<lambda>_. s)) m bs) else None)
      else None)"

definition ChatMessage_parse_field :: "pb_lib \<Rightarrow> u32 \<Rightarrow> IMBase_ChatMessage \<Rightarrow> byte list \<Rightarrow> (IMBase_ChatMessage \<times> byte list option) option" where
  "ChatMessage_parse_field lib tag m bs =
     (let n = drop_bit 3 tag; t = (ucast tag :: byte) in
      if n = 1 then (if t = 8 then Some (parse_uint32 lib set_sendid m bs) else None)
      else if n = 2 then (if t = 16 then Some (parse_uint32 lib set_targetid m bs) else None)
      else if n = 3 then (if t = 26 then Some (parse_text lib (\<lambda>s. mutable_chatdata (\<lambda>_. s)) m bs) else None)
      else None)"

definition ChatMessage_add_unknown :: "byte list \<Rightarrow> IMBase_ChatMessage \<Rightarrow> IMBase_ChatMessage" where
  "ChatMessage_add_unknown w m = m\<lparr>cm_metadata := cm_metadata m @ w\<rparr>"

definition ChatMessage_MergePartialFromCodedStream :: "pb_lib \<Rightarrow> IMBase_ChatMessage \<Rightarrow> byte list \<Rightarrow> (bool \<times> IMBase_ChatMessage \<times> byte list) option" where
  "ChatMessage_MergePartialFromCodedStream lib = merge_loop lib (ChatMessage_read_field lib) ChatMessage_add_unknown"

definition ChatMessage_InternalParse :: "pb_lib \<Rightarrow> IMBase_ChatMessage \<Rightarrow> byte list \<Rightarrow> (byte list option \<times> u32 option \<times> IMBase_ChatMessage) option" where
  "ChatMessage_InternalParse lib = parse_loop lib (ChatMessage_parse_field lib) ChatMessage_add_unknown"

text \<open>What is written and how many bytes that is.\<close>

definition ChatMessage_SerializeWithCachedSizes :: "pb_lib \<Rightarrow> IMBase_ChatMessage \<Rightarrow> byte list" where
  "ChatMessage_SerializeWithCachedSizes lib m =
     (if ChatMessage_sendid m \<noteq> 0 then WriteUInt32 lib 1 (ChatMessage_sendid m) else []) @
     (if ChatMessage_targetid m \<noteq> 0 then WriteUInt32 lib 2 (ChatMessage_targetid m) else []) @
     (if 0 < length (ChatMessage_chatdata m) then WriteString lib 3 (ChatMessage_chatdata m) else []) @
     cm_metadata m"

definition ChatMessage_ByteSizeLong :: "pb_lib \<Rightarrow> IMBase_ChatMessage \<Rightarrow> size_t \<times> IMBase_ChatMessage" where
  "ChatMessage_ByteSizeLong lib m =
     (let total_size = word_of_nat (length (cm_metadata m)) +
            (if 0 < length (ChatMessage_chatdata m) then 1 + StringSize lib (ChatMessage_chatdata m) else 0) +
            (if ChatMessage_sendid m \<noteq> 0 then 1 + UInt32Size lib (ChatMessage_sendid m) else 0) +
            (if ChatMessage_targetid m \<noteq> 0 then 1 + UInt32Size lib (ChatMessage_targetid m) else 0)
      in (total_size, ChatMessage_SetCachedSize (ToCachedSize lib total_size) m))"

section \<open>Lemmas\<close>

lemmas UserInfo_fields = UserInfo_user_id_def set_user_id_def UserInfo_user_gender_def set_user_gender_def
  UserInfo_status_def set_status_def UserInfo_user_nick_name_def mutable_user_nick_name_def
  UserInfo_passwd_def mutable_passwd_def

lemmas ChatMessage_fields = ChatMessage_sendid_def set_sendid_def ChatMessage_targetid_def set_targetid_def
  ChatMessage_chatdata_def mutable_chatdata_def

text \<open>The field number and the low byte of a tag below 256 determine it.\<close>

lemma tag_byte:
  assumes "drop_bit 3 (t :: u32) = k" and "unat k < 32" and "(ucast t :: byte) = b"
  shows "t = ucast b"
proof -
  have "unat t div 8 < 32" using assms(1,2) by (simp flip: assms(1) add: size_simps)
  then have "unat t < 256" by simp
  moreover have "unat b = unat t mod 256" by (simp flip: assms(3) add: size_simps)
  ultimately have "unat t = unat (ucast b :: u32)" by (simp add: size_simps unsigned_ucast_eq)
  then show ?thesis by (rule unsigned_word_eqI)
qed

definition user_tags :: "u32 set" where
  "user_tags = {8, 16, 26, 34, 40}"

definition chat_tags :: "u32 set" where
  "chat_tags = {8, 16, 26}"

lemma UserInfo_read_field_tags:
  assumes "wire_format lib"
  shows "UserInfo_read_field lib 8 m bs = Some (read_uint32 lib set_user_id m bs)"
    "UserInfo_read_field lib 16 m bs = Some (read_uint32 lib set_user_gender m bs)"
    "UserInfo_read_field lib 26 m bs = Some (read_text lib (\<lambda>s. mutable_user_nick_name (\<lambda>_. s)) m bs)"
    "UserInfo_read_field lib 34 m bs = Some (read_text lib (\<lambda>s. mutable_passwd (\<lambda>_. s)) m bs)"
    "UserInfo_read_field lib 40 m bs = Some (read_uint32 lib set_status m bs)"
    "tag \<notin> user_tags \<Longrightarrow> UserInfo_read_field lib tag m bs = None"
proof -
  have n: "GetTagFieldNumber lib t = drop_bit 3 t" for t using assms by (simp add: wire_format_def)
  show "UserInfo_read_field lib 8 m bs = Some (read_uint32 lib set_user_id m bs)"
    "UserInfo_read_field lib 16 m bs = Some (read_uint32 lib set_user_gender m bs)"
    "UserInfo_read_field lib 26 m bs = Some (read_text lib (\<lambda>s. mutable_user_nick_name (\<lambda>_. s)) m bs)"
    "UserInfo_read_field lib 34 m bs = Some (read_text lib (\<lambda>s. mutable_passwd (\<lambda>_. s)) m bs)"
    "UserInfo_read_field lib 40 m bs = Some (read_uint32 lib set_status m bs)"
    by (simp_all add: UserInfo_read_field_def n Let_def)
  show "UserInfo_read_field lib tag m bs = None" if "tag \<notin> user_tags"
    using that tag_byte [of tag] by (auto simp: UserInfo_read_field_def n Let_def user_tags_def)
qed


lemma UserInfo_parse_field_tags:
  "UserInfo_parse_field lib 8 m bs = Some (parse_uint32 lib set_user_id m bs)"
  "UserInfo_parse_field lib 16 m bs = Some (parse_uint32 lib set_user_gender m bs)"
  "UserInfo_parse_field lib 26 m bs = Some (parse_text lib (\<lambda>s. mutable_user_nick_name (\<lambda>_. s)) m bs)"
  "UserInfo_parse_field lib 34 m bs = Some (parse_text lib (\<lambda>s. mutable_passwd (\<lambda>_. s)) m bs)"
  "UserInfo_parse_field lib 40 m bs = Some (parse_uint32 lib set_status m bs)"
  "tag \<notin> user_tags \<Longrightarrow> UserInfo_parse_field lib tag m bs = None"
  using tag_byte [of tag] by (simp_all add: UserInfo_parse_field_def Let_def) (auto simp: user_tags_def)

lemma ChatMessage_read_field_tags:
  assumes "wire_format lib"
  shows "ChatMessage_read_field lib 8 m bs = Some (read_uint32 lib set_sendid m bs)"
    "ChatMessage_read_field lib 16 m bs = Some (read_uint32 lib set_targetid m bs)"
    "ChatMessage_read_field lib 26 m bs = Some (read_text lib (\<lambda>s. mutable_chatdata (\<lambda>_. s)) m bs)"
    "tag \<notin> chat_tags \<Longrightarrow> ChatMessage_read_field lib tag m bs = None"
proof -
  have n: "GetTagFieldNumber lib t = drop_bit 3 t" for t using assms by (simp add: wire_format_def)
  show "ChatMessage_read_field lib 8 m bs = Some (read_uint32 lib set_sendid m bs)"
    "ChatMessage_read_field lib 16 m bs = Some (read_uint32 lib set_targetid m bs)"
    "ChatMessage_read_field lib 26 m bs = Some (read_text lib (\<lambda>s. mutable_chatdata (\<lambda>_. s)) m bs)"
    by (simp_all add: ChatMessage_read_field_def n Let_def)
  show "ChatMessage_read_field lib tag m bs = None" if "tag \<notin> chat_tags"
    using that tag_byte [of tag] by (auto simp: ChatMessage_read_field_def n Let_def chat_tags_def)
qed

lemma ChatMessage_parse_field_tags:
  "ChatMessage_parse_field lib 8 m bs = Some (parse_uint32 lib set_sendid m bs)"
  "ChatMessage_parse_field lib 16 m bs = Some (parse_uint32 lib set_targetid m bs)"
  "ChatMessage_parse_field lib 26 m bs = Some (parse_text lib (\<lambda>s. mutable_chatdata (\<lambda>_. s)) m bs)"
  "tag \<notin> chat_tags \<Longrightarrow> ChatMessage_parse_field lib tag m bs = None"
  using tag_byte [of tag] by (simp_all add: ChatMessage_parse_field_def Let_def) (auto simp: chat_tags_def)

text \<open>A string that can be sent: short enough, and UTF-8 when there is any text.\<close>

definition sendable :: "pb_lib \<Rightarrow> byte list \<Rightarrow> bool" where
  "sendable lib s \<longleftrightarrow> length s < 2 ^ 31 \<and> (s \<noteq> [] \<longrightarrow> VerifyUtf8String lib s)"

text \<open>A message with sendable strings whose unknown fields are whole fields, none of them its own.\<close>

definition UserInfo_sendable :: "pb_lib \<Rightarrow> IMBase_UserInfo \<Rightarrow> bool" where
  "UserInfo_sendable lib m \<longleftrightarrow> sendable lib (UserInfo_user_nick_name m) \<and> sendable lib (UserInfo_passwd m) \<and>
     (\<exists>us. ui_metadata m = concat us \<and> (\<forall>u \<in> set us. unknown_field lib user_tags u))"

definition ChatMessage_sendable :: "pb_lib \<Rightarrow> IMBase_ChatMessage \<Rightarrow> bool" where
  "ChatMessage_sendable lib m \<longleftrightarrow> sendable lib (ChatMessage_chatdata m) \<and>
     (\<exists>us. cm_metadata m = concat us \<and> (\<forall>u \<in> set us. unknown_field lib chat_tags u))"

lemma optional_append: "(if c then e else []) @ r = (if c then e @ r else r)"
  by simp

lemma UserInfo_add_unknowns: "fold UserInfo_add_unknown us m = m\<lparr>ui_metadata := ui_metadata m @ concat us\<rparr>"
  by (induction us arbitrary: m) (simp_all add: UserInfo_add_unknown_def)

lemma ChatMessage_add_unknowns: "fold ChatMessage_add_unknown us m = m\<lparr>cm_metadata := cm_metadata m @ concat us\<rparr>"
  by (induction us arbitrary: m) (simp_all add: ChatMessage_add_unknown_def)

lemma UserInfo_read_steps:
  assumes "wire_format lib"
  shows "merge_loop lib (UserInfo_read_field lib) k m (if v \<noteq> 0 then WriteUInt32 lib 1 v @ r else r) =
      merge_loop lib (UserInfo_read_field lib) k (if v \<noteq> 0 then set_user_id v m else m) r"
    "merge_loop lib (UserInfo_read_field lib) k m (if v \<noteq> 0 then WriteUInt32 lib 2 v @ r else r) =
      merge_loop lib (UserInfo_read_field lib) k (if v \<noteq> 0 then set_user_gender v m else m) r"
    "sendable lib s \<Longrightarrow> merge_loop lib (UserInfo_read_field lib) k m (if s \<noteq> [] then WriteString lib 3 s @ r else r) =
      merge_loop lib (UserInfo_read_field lib) k (if s \<noteq> [] then m\<lparr>ui_user_nick_name := s\<rparr> else m) r"
    "length s < 2 ^ 31 \<Longrightarrow> s \<noteq> [] \<Longrightarrow> \<not> VerifyUtf8String lib s \<Longrightarrow>
      merge_loop lib (UserInfo_read_field lib) k m (WriteString lib 3 s @ r) = Some (False, m\<lparr>ui_user_nick_name := s\<rparr>, r)"
    "sendable lib s \<Longrightarrow> merge_loop lib (UserInfo_read_field lib) k m (if s \<noteq> [] then WriteString lib 4 s @ r else r) =
      merge_loop lib (UserInfo_read_field lib) k (if s \<noteq> [] then m\<lparr>ui_passwd := s\<rparr> else m) r"
    "length s < 2 ^ 31 \<Longrightarrow> s \<noteq> [] \<Longrightarrow> \<not> VerifyUtf8String lib s \<Longrightarrow>
      merge_loop lib (UserInfo_read_field lib) k m (WriteString lib 4 s @ r) = Some (False, m\<lparr>ui_passwd := s\<rparr>, r)"
    "merge_loop lib (UserInfo_read_field lib) k m (if v \<noteq> 0 then WriteUInt32 lib 5 v @ r else r) =
      merge_loop lib (UserInfo_read_field lib) k (if v \<noteq> 0 then set_status v m else m) r"
proof -
  show "merge_loop lib (UserInfo_read_field lib) k m (if v \<noteq> 0 then WriteUInt32 lib 1 v @ r else r) =
      merge_loop lib (UserInfo_read_field lib) k (if v \<noteq> 0 then set_user_id v m else m) r"
    by (rule merge_uint32 [OF assms]) (simp_all add: UserInfo_read_field_tags [OF assms])
  show "merge_loop lib (UserInfo_read_field lib) k m (if v \<noteq> 0 then WriteUInt32 lib 2 v @ r else r) =
      merge_loop lib (UserInfo_read_field lib) k (if v \<noteq> 0 then set_user_gender v m else m) r"
    by (rule merge_uint32 [OF assms]) (simp_all add: UserInfo_read_field_tags [OF assms])
  show "merge_loop lib (UserInfo_read_field lib) k m (if s \<noteq> [] then WriteString lib 3 s @ r else r) =
      merge_loop lib (UserInfo_read_field lib) k (if s \<noteq> [] then m\<lparr>ui_user_nick_name := s\<rparr> else m) r" if "sendable lib s"
    using that merge_text [OF assms, where f = 3 and s = s and upd = "\<lambda>s. mutable_user_nick_name (\<lambda>_. s)" and field = "UserInfo_read_field lib"]
    by (simp add: UserInfo_read_field_tags [OF assms] sendable_def mutable_user_nick_name_def)
  show "merge_loop lib (UserInfo_read_field lib) k m (WriteString lib 3 s @ r) = Some (False, m\<lparr>ui_user_nick_name := s\<rparr>, r)" if "length s < 2 ^ 31" "s \<noteq> []" "\<not> VerifyUtf8String lib s"
    using that merge_text [OF assms, where f = 3 and s = s and upd = "\<lambda>s. mutable_user_nick_name (\<lambda>_. s)" and field = "UserInfo_read_field lib"]
    by (simp add: UserInfo_read_field_tags [OF assms] mutable_user_nick_name_def)
  show "merge_loop lib (UserInfo_read_field lib) k m (if s \<noteq> [] then WriteString lib 4 s @ r else r) =
      merge_loop lib (UserInfo_read_field lib) k (if s \<noteq> [] then m\<lparr>ui_passwd := s\<rparr> else m) r" if "sendable lib s"
    using that merge_text [OF assms, where f = 4 and s = s and upd = "\<lambda>s. mutable_passwd (\<lambda>_. s)" and field = "UserInfo_read_field lib"]
    by (simp add: UserInfo_read_field_tags [OF assms] sendable_def mutable_passwd_def)
  show "merge_loop lib (UserInfo_read_field lib) k m (WriteString lib 4 s @ r) = Some (False, m\<lparr>ui_passwd := s\<rparr>, r)" if "length s < 2 ^ 31" "s \<noteq> []" "\<not> VerifyUtf8String lib s"
    using that merge_text [OF assms, where f = 4 and s = s and upd = "\<lambda>s. mutable_passwd (\<lambda>_. s)" and field = "UserInfo_read_field lib"]
    by (simp add: UserInfo_read_field_tags [OF assms] mutable_passwd_def)
  show "merge_loop lib (UserInfo_read_field lib) k m (if v \<noteq> 0 then WriteUInt32 lib 5 v @ r else r) =
      merge_loop lib (UserInfo_read_field lib) k (if v \<noteq> 0 then set_status v m else m) r"
    by (rule merge_uint32 [OF assms]) (simp_all add: UserInfo_read_field_tags [OF assms])
qed

lemma UserInfo_reads_serialized:
  assumes "wire_format lib" and "UserInfo_sendable lib b"
  shows "UserInfo_MergePartialFromCodedStream lib m (UserInfo_SerializeWithCachedSizes lib b @ r) = UserInfo_MergePartialFromCodedStream lib (UserInfo_MergeFrom b m) r"
proof -
  obtain us where us: "ui_metadata b = concat us" "\<forall>u \<in> set us. unknown_field lib user_tags u"
    and s: "sendable lib (UserInfo_user_nick_name b)" "sendable lib (UserInfo_passwd b)"
    using assms(2) by (auto simp: UserInfo_sendable_def)
  have un: "merge_loop lib (UserInfo_read_field lib) UserInfo_add_unknown m (concat us @ r) = merge_loop lib (UserInfo_read_field lib) UserInfo_add_unknown (fold UserInfo_add_unknown us m) r" for m
    by (rule merge_unknowns [OF us(2)]) (rule UserInfo_read_field_tags(6) [OF assms(1)])
  show ?thesis
    unfolding UserInfo_MergePartialFromCodedStream_def UserInfo_SerializeWithCachedSizes_def append_assoc length_greater_0_conv us(1)
    unfolding optional_append UserInfo_read_steps [OF assms(1)] UserInfo_read_steps(3) [OF assms(1) s(1)] UserInfo_read_steps(5) [OF assms(1) s(2)] un
    by (rule arg_cong [where f = "\<lambda>m. merge_loop lib _ _ m r"])
      (simp add: UserInfo_MergeFrom_def UserInfo_add_unknowns UserInfo_fields us(1))
qed

lemma UserInfo_parse_steps:
  assumes "wire_format lib"
  shows "parse_loop lib (UserInfo_parse_field lib) k m (if v \<noteq> 0 then WriteUInt32 lib 1 v @ r else r) =
      parse_loop lib (UserInfo_parse_field lib) k (if v \<noteq> 0 then set_user_id v m else m) r"
    "parse_loop lib (UserInfo_parse_field lib) k m (if v \<noteq> 0 then WriteUInt32 lib 2 v @ r else r) =
      parse_loop lib (UserInfo_parse_field lib) k (if v \<noteq> 0 then set_user_gender v m else m) r"
    "sendable lib s \<Longrightarrow> parse_loop lib (UserInfo_parse_field lib) k m (if s \<noteq> [] then WriteString lib 3 s @ r else r) =
      parse_loop lib (UserInfo_parse_field lib) k (if s \<noteq> [] then m\<lparr>ui_user_nick_name := s\<rparr> else m) r"
    "length s < 2 ^ 31 \<Longrightarrow> s \<noteq> [] \<Longrightarrow> \<not> VerifyUtf8String lib s \<Longrightarrow>
      parse_loop lib (UserInfo_parse_field lib) k m (WriteString lib 3 s @ r) = Some (None, None, m\<lparr>ui_user_nick_name := s\<rparr>)"
    "sendable lib s \<Longrightarrow> parse_loop lib (UserInfo_parse_field lib) k m (if s \<noteq> [] then WriteString lib 4 s @ r else r) =
      parse_loop lib (UserInfo_parse_field lib) k (if s \<noteq> [] then m\<lparr>ui_passwd := s\<rparr> else m) r"
    "length s < 2 ^ 31 \<Longrightarrow> s \<noteq> [] \<Longrightarrow> \<not> VerifyUtf8String lib s \<Longrightarrow>
      parse_loop lib (UserInfo_parse_field lib) k m (WriteString lib 4 s @ r) = Some (None, None, m\<lparr>ui_passwd := s\<rparr>)"
    "parse_loop lib (UserInfo_parse_field lib) k m (if v \<noteq> 0 then WriteUInt32 lib 5 v @ r else r) =
      parse_loop lib (UserInfo_parse_field lib) k (if v \<noteq> 0 then set_status v m else m) r"
proof -
  show "parse_loop lib (UserInfo_parse_field lib) k m (if v \<noteq> 0 then WriteUInt32 lib 1 v @ r else r) =
      parse_loop lib (UserInfo_parse_field lib) k (if v \<noteq> 0 then set_user_id v m else m) r"
    by (rule parse_uint32_step [OF assms]) (simp_all add: UserInfo_parse_field_tags)
  show "parse_loop lib (UserInfo_parse_field lib) k m (if v \<noteq> 0 then WriteUInt32 lib 2 v @ r else r) =
      parse_loop lib (UserInfo_parse_field lib) k (if v \<noteq> 0 then set_user_gender v m else m) r"
    by (rule parse_uint32_step [OF assms]) (simp_all add: UserInfo_parse_field_tags)
  show "parse_loop lib (UserInfo_parse_field lib) k m (if s \<noteq> [] then WriteString lib 3 s @ r else r) =
      parse_loop lib (UserInfo_parse_field lib) k (if s \<noteq> [] then m\<lparr>ui_user_nick_name := s\<rparr> else m) r" if "sendable lib s"
    using that parse_text_step [OF assms, where f = 3 and s = s and upd = "\<lambda>s. mutable_user_nick_name (\<lambda>_. s)" and field = "UserInfo_parse_field lib"]
    by (simp add: UserInfo_parse_field_tags sendable_def mutable_user_nick_name_def)
  show "parse_loop lib (UserInfo_parse_field lib) k m (WriteString lib 3 s @ r) = Some (None, None, m\<lparr>ui_user_nick_name := s\<rparr>)" if "length s < 2 ^ 31" "s \<noteq> []" "\<not> VerifyUtf8String lib s"
    using that parse_text_step [OF assms, where f = 3 and s = s and upd = "\<lambda>s. mutable_user_nick_name (\<lambda>_. s)" and field = "UserInfo_parse_field lib"]
    by (simp add: UserInfo_parse_field_tags mutable_user_nick_name_def)
  show "parse_loop lib (UserInfo_parse_field lib) k m (if s \<noteq> [] then WriteString lib 4 s @ r else r) =
      parse_loop lib (UserInfo_parse_field lib) k (if s \<noteq> [] then m\<lparr>ui_passwd := s\<rparr> else m) r" if "sendable lib s"
    using that parse_text_step [OF assms, where f = 4 and s = s and upd = "\<lambda>s. mutable_passwd (\<lambda>_. s)" and field = "UserInfo_parse_field lib"]
    by (simp add: UserInfo_parse_field_tags sendable_def mutable_passwd_def)
  show "parse_loop lib (UserInfo_parse_field lib) k m (WriteString lib 4 s @ r) = Some (None, None, m\<lparr>ui_passwd := s\<rparr>)" if "length s < 2 ^ 31" "s \<noteq> []" "\<not> VerifyUtf8String lib s"
    using that parse_text_step [OF assms, where f = 4 and s = s and upd = "\<lambda>s. mutable_passwd (\<lambda>_. s)" and field = "UserInfo_parse_field lib"]
    by (simp add: UserInfo_parse_field_tags mutable_passwd_def)
  show "parse_loop lib (UserInfo_parse_field lib) k m (if v \<noteq> 0 then WriteUInt32 lib 5 v @ r else r) =
      parse_loop lib (UserInfo_parse_field lib) k (if v \<noteq> 0 then set_status v m else m) r"
    by (rule parse_uint32_step [OF assms]) (simp_all add: UserInfo_parse_field_tags)
qed

lemma UserInfo_parses_serialized:
  assumes "wire_format lib" and "UserInfo_sendable lib b"
  shows "UserInfo_InternalParse lib m (UserInfo_SerializeWithCachedSizes lib b @ r) = UserInfo_InternalParse lib (UserInfo_MergeFrom b m) r"
proof -
  obtain us where us: "ui_metadata b = concat us" "\<forall>u \<in> set us. unknown_field lib user_tags u"
    and s: "sendable lib (UserInfo_user_nick_name b)" "sendable lib (UserInfo_passwd b)"
    using assms(2) by (auto simp: UserInfo_sendable_def)
  have un: "parse_loop lib (UserInfo_parse_field lib) UserInfo_add_unknown m (concat us @ r) = parse_loop lib (UserInfo_parse_field lib) UserInfo_add_unknown (fold UserInfo_add_unknown us m) r" for m
    by (rule parse_unknowns [OF us(2) assms(1)]) (rule UserInfo_parse_field_tags(6))
  show ?thesis
    unfolding UserInfo_InternalParse_def UserInfo_SerializeWithCachedSizes_def append_assoc length_greater_0_conv us(1)
    unfolding optional_append UserInfo_parse_steps [OF assms(1)] UserInfo_parse_steps(3) [OF assms(1) s(1)] UserInfo_parse_steps(5) [OF assms(1) s(2)] un
    by (rule arg_cong [where f = "\<lambda>m. parse_loop lib _ _ m r"])
      (simp add: UserInfo_MergeFrom_def UserInfo_add_unknowns UserInfo_fields us(1))
qed

lemma ChatMessage_read_steps:
  assumes "wire_format lib"
  shows "merge_loop lib (ChatMessage_read_field lib) k m (if v \<noteq> 0 then WriteUInt32 lib 1 v @ r else r) =
      merge_loop lib (ChatMessage_read_field lib) k (if v \<noteq> 0 then set_sendid v m else m) r"
    "merge_loop lib (ChatMessage_read_field lib) k m (if v \<noteq> 0 then WriteUInt32 lib 2 v @ r else r) =
      merge_loop lib (ChatMessage_read_field lib) k (if v \<noteq> 0 then set_targetid v m else m) r"
    "sendable lib s \<Longrightarrow> merge_loop lib (ChatMessage_read_field lib) k m (if s \<noteq> [] then WriteString lib 3 s @ r else r) =
      merge_loop lib (ChatMessage_read_field lib) k (if s \<noteq> [] then m\<lparr>cm_chatdata := s\<rparr> else m) r"
    "length s < 2 ^ 31 \<Longrightarrow> s \<noteq> [] \<Longrightarrow> \<not> VerifyUtf8String lib s \<Longrightarrow>
      merge_loop lib (ChatMessage_read_field lib) k m (WriteString lib 3 s @ r) = Some (False, m\<lparr>cm_chatdata := s\<rparr>, r)"
proof -
  show "merge_loop lib (ChatMessage_read_field lib) k m (if v \<noteq> 0 then WriteUInt32 lib 1 v @ r else r) =
      merge_loop lib (ChatMessage_read_field lib) k (if v \<noteq> 0 then set_sendid v m else m) r"
    by (rule merge_uint32 [OF assms]) (simp_all add: ChatMessage_read_field_tags [OF assms])
  show "merge_loop lib (ChatMessage_read_field lib) k m (if v \<noteq> 0 then WriteUInt32 lib 2 v @ r else r) =
      merge_loop lib (ChatMessage_read_field lib) k (if v \<noteq> 0 then set_targetid v m else m) r"
    by (rule merge_uint32 [OF assms]) (simp_all add: ChatMessage_read_field_tags [OF assms])
  show "merge_loop lib (ChatMessage_read_field lib) k m (if s \<noteq> [] then WriteString lib 3 s @ r else r) =
      merge_loop lib (ChatMessage_read_field lib) k (if s \<noteq> [] then m\<lparr>cm_chatdata := s\<rparr> else m) r" if "sendable lib s"
    using that merge_text [OF assms, where f = 3 and s = s and upd = "\<lambda>s. mutable_chatdata (\<lambda>_. s)" and field = "ChatMessage_read_field lib"]
    by (simp add: ChatMessage_read_field_tags [OF assms] sendable_def mutable_chatdata_def)
  show "merge_loop lib (ChatMessage_read_field lib) k m (WriteString lib 3 s @ r) = Some (False, m\<lparr>cm_chatdata := s\<rparr>, r)" if "length s < 2 ^ 31" "s \<noteq> []" "\<not> VerifyUtf8String lib s"
    using that merge_text [OF assms, where f = 3 and s = s and upd = "\<lambda>s. mutable_chatdata (\<lambda>_. s)" and field = "ChatMessage_read_field lib"]
    by (simp add: ChatMessage_read_field_tags [OF assms] mutable_chatdata_def)
qed

lemma ChatMessage_reads_serialized:
  assumes "wire_format lib" and "ChatMessage_sendable lib b"
  shows "ChatMessage_MergePartialFromCodedStream lib m (ChatMessage_SerializeWithCachedSizes lib b @ r) = ChatMessage_MergePartialFromCodedStream lib (ChatMessage_MergeFrom b m) r"
proof -
  obtain us where us: "cm_metadata b = concat us" "\<forall>u \<in> set us. unknown_field lib chat_tags u"
    and s: "sendable lib (ChatMessage_chatdata b)"
    using assms(2) by (auto simp: ChatMessage_sendable_def)
  have un: "merge_loop lib (ChatMessage_read_field lib) ChatMessage_add_unknown m (concat us @ r) = merge_loop lib (ChatMessage_read_field lib) ChatMessage_add_unknown (fold ChatMessage_add_unknown us m) r" for m
    by (rule merge_unknowns [OF us(2)]) (rule ChatMessage_read_field_tags(4) [OF assms(1)])
  show ?thesis
    unfolding ChatMessage_MergePartialFromCodedStream_def ChatMessage_SerializeWithCachedSizes_def append_assoc length_greater_0_conv us(1)
    unfolding optional_append ChatMessage_read_steps [OF assms(1)] ChatMessage_read_steps(3) [OF assms(1) s(1)] un
    by (rule arg_cong [where f = "\<lambda>m. merge_loop lib _ _ m r"])
      (simp add: ChatMessage_MergeFrom_def ChatMessage_add_unknowns ChatMessage_fields us(1))
qed

lemma ChatMessage_parse_steps:
  assumes "wire_format lib"
  shows "parse_loop lib (ChatMessage_parse_field lib) k m (if v \<noteq> 0 then WriteUInt32 lib 1 v @ r else r) =
      parse_loop lib (ChatMessage_parse_field lib) k (if v \<noteq> 0 then set_sendid v m else m) r"
    "parse_loop lib (ChatMessage_parse_field lib) k m (if v \<noteq> 0 then WriteUInt32 lib 2 v @ r else r) =
      parse_loop lib (ChatMessage_parse_field lib) k (if v \<noteq> 0 then set_targetid v m else m) r"
    "sendable lib s \<Longrightarrow> parse_loop lib (ChatMessage_parse_field lib) k m (if s \<noteq> [] then WriteString lib 3 s @ r else r) =
      parse_loop lib (ChatMessage_parse_field lib) k (if s \<noteq> [] then m\<lparr>cm_chatdata := s\<rparr> else m) r"
    "length s < 2 ^ 31 \<Longrightarrow> s \<noteq> [] \<Longrightarrow> \<not> VerifyUtf8String lib s \<Longrightarrow>
      parse_loop lib (ChatMessage_parse_field lib) k m (WriteString lib 3 s @ r) = Some (None, None, m\<lparr>cm_chatdata := s\<rparr>)"
proof -
  show "parse_loop lib (ChatMessage_parse_field lib) k m (if v \<noteq> 0 then WriteUInt32 lib 1 v @ r else r) =
      parse_loop lib (ChatMessage_parse_field lib) k (if v \<noteq> 0 then set_sendid v m else m) r"
    by (rule parse_uint32_step [OF assms]) (simp_all add: ChatMessage_parse_field_tags)
  show "parse_loop lib (ChatMessage_parse_field lib) k m (if v \<noteq> 0 then WriteUInt32 lib 2 v @ r else r) =
      parse_loop lib (ChatMessage_parse_field lib) k (if v \<noteq> 0 then set_targetid v m else m) r"
    by (rule parse_uint32_step [OF assms]) (simp_all add: ChatMessage_parse_field_tags)
  show "parse_loop lib (ChatMessage_parse_field lib) k m (if s \<noteq> [] then WriteString lib 3 s @ r else r) =
      parse_loop lib (ChatMessage_parse_field lib) k (if s \<noteq> [] then m\<lparr>cm_chatdata := s\<rparr> else m) r" if "sendable lib s"
    using that parse_text_step [OF assms, where f = 3 and s = s and upd = "\<lambda>s. mutable_chatdata (\<lambda>_. s)" and field = "ChatMessage_parse_field lib"]
    by (simp add: ChatMessage_parse_field_tags sendable_def mutable_chatdata_def)
  show "parse_loop lib (ChatMessage_parse_field lib) k m (WriteString lib 3 s @ r) = Some (None, None, m\<lparr>cm_chatdata := s\<rparr>)" if "length s < 2 ^ 31" "s \<noteq> []" "\<not> VerifyUtf8String lib s"
    using that parse_text_step [OF assms, where f = 3 and s = s and upd = "\<lambda>s. mutable_chatdata (\<lambda>_. s)" and field = "ChatMessage_parse_field lib"]
    by (simp add: ChatMessage_parse_field_tags mutable_chatdata_def)
qed

lemma ChatMessage_parses_serialized:
  assumes "wire_format lib" and "ChatMessage_sendable lib b"
  shows "ChatMessage_InternalParse lib m (ChatMessage_SerializeWithCachedSizes lib b @ r) = ChatMessage_InternalParse lib (ChatMessage_MergeFrom b m) r"
proof -
  obtain us where us: "cm_metadata b = concat us" "\<forall>u \<in> set us. unknown_field lib chat_tags u"
    and s: "sendable lib (ChatMessage_chatdata b)"
    using assms(2) by (auto simp: ChatMessage_sendable_def)
  have un: "parse_loop lib (ChatMessage_parse_field lib) ChatMessage_add_unknown m (concat us @ r) = parse_loop lib (ChatMessage_parse_field lib) ChatMessage_add_unknown (fold ChatMessage_add_unknown us m) r" for m
    by (rule parse_unknowns [OF us(2) assms(1)]) (rule ChatMessage_parse_field_tags(4))
  show ?thesis
    unfolding ChatMessage_InternalParse_def ChatMessage_SerializeWithCachedSizes_def append_assoc length_greater_0_conv us(1)
    unfolding optional_append ChatMessage_parse_steps [OF assms(1)] ChatMessage_parse_steps(3) [OF assms(1) s(1)] un
    by (rule arg_cong [where f = "\<lambda>m. parse_loop lib _ _ m r"])
      (simp add: ChatMessage_MergeFrom_def ChatMessage_add_unknowns ChatMessage_fields us(1))
qed


subsection \<open>The messages as wire messages\<close>

text \<open>Both parsers of both classes.\<close>

interpretation user_stream: wire_message "wire_format lib" "UserInfo_sendable lib" "UserInfo_MergePartialFromCodedStream lib"
    "\<lambda>m. Some (True, m, [])" "UserInfo_SerializeWithCachedSizes lib" UserInfo_MergeFrom for lib
  by unfold_locales (rule UserInfo_reads_serialized, assumption+,
    simp add: UserInfo_MergePartialFromCodedStream_def merge_end UserInfo_read_field_tags user_tags_def)

interpretation user_pointer: wire_message "wire_format lib" "UserInfo_sendable lib" "UserInfo_InternalParse lib"
    "\<lambda>m. Some (Some [], None, m)" "UserInfo_SerializeWithCachedSizes lib" UserInfo_MergeFrom for lib
  by unfold_locales (rule UserInfo_parses_serialized, assumption+, simp add: UserInfo_InternalParse_def parse_end)

interpretation chat_stream: wire_message "wire_format lib" "ChatMessage_sendable lib" "ChatMessage_MergePartialFromCodedStream lib"
    "\<lambda>m. Some (True, m, [])" "ChatMessage_SerializeWithCachedSizes lib" ChatMessage_MergeFrom for lib
  by unfold_locales (rule ChatMessage_reads_serialized, assumption+,
    simp add: ChatMessage_MergePartialFromCodedStream_def merge_end ChatMessage_read_field_tags chat_tags_def)

interpretation chat_pointer: wire_message "wire_format lib" "ChatMessage_sendable lib" "ChatMessage_InternalParse lib"
    "\<lambda>m. Some (Some [], None, m)" "ChatMessage_SerializeWithCachedSizes lib" ChatMessage_MergeFrom for lib
  by unfold_locales (rule ChatMessage_parses_serialized, assumption+, simp add: ChatMessage_InternalParse_def parse_end)

lemma UserInfo_MergeFrom_new: "UserInfo_MergeFrom m UserInfo_new = m\<lparr>ui_cached_size := 0\<rparr>"
  by (cases m) (simp add: UserInfo_MergeFrom_def UserInfo_new_def UserInfo_fields Let_def)

lemma ChatMessage_MergeFrom_new: "ChatMessage_MergeFrom m ChatMessage_new = m\<lparr>cm_cached_size := 0\<rparr>"
  by (cases m) (simp add: ChatMessage_MergeFrom_def ChatMessage_new_def ChatMessage_fields Let_def)

subsection \<open>Malformed input\<close>

lemma read_uint32_shorter: "readers_advance lib \<Longrightarrow> read_uint32 lib upd m bs = (ok, m1, r) \<Longrightarrow> length r \<le> length bs"
  using readers_advanceD(2) [of lib bs] by (auto simp: read_uint32_def split: prod.splits option.splits)

lemma read_text_shorter: "readers_advance lib \<Longrightarrow> read_text lib upd m bs = (ok, m1, r) \<Longrightarrow> length r \<le> length bs"
  using readers_advanceD(3) [of lib bs] by (auto simp: read_text_def split: prod.splits)

lemma parse_uint32_shorter: "readers_advance lib \<Longrightarrow> parse_uint32 lib upd m bs = (m1, Some r) \<Longrightarrow> length r \<le> length bs"
  using readers_advanceD(6) [of lib bs] by (auto simp: parse_uint32_def split: prod.splits)

lemma parse_text_shorter: "readers_advance lib \<Longrightarrow> parse_text lib upd m bs = (m1, Some r) \<Longrightarrow> length r \<le> length bs"
  using readers_advanceD(7) [of lib bs] by (auto simp: parse_text_def split: prod.splits)

lemmas fields_shorter = read_uint32_shorter read_text_shorter parse_uint32_shorter parse_text_shorter

lemma read_fields_shorter:
  assumes "readers_advance lib"
  shows "UserInfo_read_field lib tag u bs = Some (ok, u1, r) \<Longrightarrow> length r \<le> length bs"
    "ChatMessage_read_field lib tag c bs = Some (ok, c1, r) \<Longrightarrow> length r \<le> length bs"
    "UserInfo_parse_field lib tag u bs = Some (u1, Some r) \<Longrightarrow> length r \<le> length bs"
    "ChatMessage_parse_field lib tag c bs = Some (c1, Some r) \<Longrightarrow> length r \<le> length bs"
  by (auto simp: UserInfo_read_field_def ChatMessage_read_field_def UserInfo_parse_field_def ChatMessage_parse_field_def Let_def
      dest: fields_shorter [OF assms] split: if_splits)

subsection \<open>Sizes\<close>

lemma written_size:
  assumes "wire_format lib" and "0 < f" and "f < 16"
  shows "(word_of_nat (length (WriteUInt32 lib f v)) :: size_t) = 1 + UInt32Size lib v"
    "length s < 2 ^ 31 \<Longrightarrow> (word_of_nat (length (WriteString lib f s)) :: size_t) = 1 + StringSize lib s"
  using wire_formatD(3,4) [OF assms] by simp_all

lemma UserInfo_size:
  assumes "wire_format lib" and "length (UserInfo_user_nick_name m) < 2 ^ 31" and "length (UserInfo_passwd m) < 2 ^ 31"
  shows "fst (UserInfo_ByteSizeLong lib m) = word_of_nat (length (UserInfo_SerializeWithCachedSizes lib m))"
  using written_size [OF assms(1)] assms(2,3)
  by (simp add: UserInfo_ByteSizeLong_def UserInfo_SerializeWithCachedSizes_def Let_def)

lemma ChatMessage_size:
  assumes "wire_format lib" and "length (ChatMessage_chatdata m) < 2 ^ 31"
  shows "fst (ChatMessage_ByteSizeLong lib m) = word_of_nat (length (ChatMessage_SerializeWithCachedSizes lib m))"
  using written_size [OF assms(1)] assms(2)
  by (simp add: ChatMessage_ByteSizeLong_def ChatMessage_SerializeWithCachedSizes_def Let_def)


subsection \<open>Text that is not UTF-8\<close>

lemma not_sendable: "\<not> sendable lib s \<Longrightarrow> length s < 2 ^ 31 \<Longrightarrow> s \<noteq> [] \<and> \<not> VerifyUtf8String lib s"
  by (auto simp: sendable_def)

lemmas serialize_simps = append_assoc optional_append length_greater_0_conv if_True not_False_eq_True prod.inject option.inject

lemma UserInfo_read_refuses:
  assumes "wire_format lib" and "length (UserInfo_user_nick_name u) < 2 ^ 31" and "length (UserInfo_passwd u) < 2 ^ 31"
    and "\<not> sendable lib (UserInfo_user_nick_name u) \<or> \<not> sendable lib (UserInfo_passwd u)"
  shows "\<exists>m r. UserInfo_MergePartialFromCodedStream lib m0 (UserInfo_SerializeWithCachedSizes lib u) = Some (False, m, r)"
proof (cases "sendable lib (UserInfo_user_nick_name u)")
  case True
  with assms(3,4) not_sendable [of lib "UserInfo_passwd u"]
  have b: "UserInfo_passwd u \<noteq> []" "\<not> VerifyUtf8String lib (UserInfo_passwd u)" by simp_all
  show ?thesis
    by (simp only: UserInfo_MergePartialFromCodedStream_def UserInfo_SerializeWithCachedSizes_def serialize_simps b(1)
        UserInfo_read_steps(1,2) [OF assms(1)] UserInfo_read_steps(3) [OF assms(1) True] UserInfo_read_steps(6) [OF assms(1,3) b]) blast
next
  case False
  with assms(2) not_sendable have b: "UserInfo_user_nick_name u \<noteq> []" "\<not> VerifyUtf8String lib (UserInfo_user_nick_name u)" by simp_all
  show ?thesis
    by (simp only: UserInfo_MergePartialFromCodedStream_def UserInfo_SerializeWithCachedSizes_def serialize_simps b(1)
        UserInfo_read_steps(1,2) [OF assms(1)] UserInfo_read_steps(4) [OF assms(1,2) b]) blast
qed

lemma ChatMessage_read_refuses:
  assumes "wire_format lib" and "length (ChatMessage_chatdata c) < 2 ^ 31" and "\<not> sendable lib (ChatMessage_chatdata c)"
  shows "\<exists>m r. ChatMessage_MergePartialFromCodedStream lib m0 (ChatMessage_SerializeWithCachedSizes lib c) = Some (False, m, r)"
proof -
  from assms(2,3) not_sendable have b: "ChatMessage_chatdata c \<noteq> []" "\<not> VerifyUtf8String lib (ChatMessage_chatdata c)" by simp_all
  show ?thesis
    by (simp only: ChatMessage_MergePartialFromCodedStream_def ChatMessage_SerializeWithCachedSizes_def serialize_simps b(1)
        ChatMessage_read_steps(1,2) [OF assms(1)] ChatMessage_read_steps(4) [OF assms(1,2) b]) blast
qed

lemma UserInfo_parse_refuses:
  assumes "wire_format lib" and "length (UserInfo_user_nick_name u) < 2 ^ 31" and "length (UserInfo_passwd u) < 2 ^ 31"
    and "\<not> sendable lib (UserInfo_user_nick_name u) \<or> \<not> sendable lib (UserInfo_passwd u)"
  shows "\<exists>m. UserInfo_InternalParse lib m0 (UserInfo_SerializeWithCachedSizes lib u) = Some (None, None, m)"
proof (cases "sendable lib (UserInfo_user_nick_name u)")
  case True
  with assms(3,4) not_sendable [of lib "UserInfo_passwd u"]
  have b: "UserInfo_passwd u \<noteq> []" "\<not> VerifyUtf8String lib (UserInfo_passwd u)" by simp_all
  show ?thesis
    by (simp only: UserInfo_InternalParse_def UserInfo_SerializeWithCachedSizes_def serialize_simps b(1)
        UserInfo_parse_steps(1,2) [OF assms(1)] UserInfo_parse_steps(3) [OF assms(1) True] UserInfo_parse_steps(6) [OF assms(1,3) b]) blast
next
  case False
  with assms(2) not_sendable have b: "UserInfo_user_nick_name u \<noteq> []" "\<not> VerifyUtf8String lib (UserInfo_user_nick_name u)" by simp_all
  show ?thesis
    by (simp only: UserInfo_InternalParse_def UserInfo_SerializeWithCachedSizes_def serialize_simps b(1)
        UserInfo_parse_steps(1,2) [OF assms(1)] UserInfo_parse_steps(4) [OF assms(1,2) b]) blast
qed

lemma ChatMessage_parse_refuses:
  assumes "wire_format lib" and "length (ChatMessage_chatdata c) < 2 ^ 31" and "\<not> sendable lib (ChatMessage_chatdata c)"
  shows "\<exists>m. ChatMessage_InternalParse lib m0 (ChatMessage_SerializeWithCachedSizes lib c) = Some (None, None, m)"
proof -
  from assms(2,3) not_sendable have b: "ChatMessage_chatdata c \<noteq> []" "\<not> VerifyUtf8String lib (ChatMessage_chatdata c)" by simp_all
  show ?thesis
    by (simp only: ChatMessage_InternalParse_def ChatMessage_SerializeWithCachedSizes_def serialize_simps b(1)
        ChatMessage_parse_steps(1,2) [OF assms(1)] ChatMessage_parse_steps(4) [OF assms(1,2) b]) blast
qed


subsection \<open>Copies\<close>

lemma message_copies:
  "UserInfo_copy u = u\<lparr>ui_cached_size := 0\<rparr>" "ChatMessage_copy c = c\<lparr>cm_cached_size := 0\<rparr>"
  "fst (UserInfo_move u) = UserInfo_copy u" "fst (ChatMessage_move c) = ChatMessage_copy c"
  "UserInfo_MergeFrom UserInfo_new u = u" "ChatMessage_MergeFrom ChatMessage_new c = c"
  "UserInfo_Swap same a b = (a', b') \<Longrightarrow> UserInfo_Swap same a' b' = (a, b)"
  by (auto simp: UserInfo_copy_def UserInfo_fields ChatMessage_copy_def ChatMessage_fields UserInfo_move_def UserInfo_move_assign_def
      UserInfo_InternalSwap_def UserInfo_new_def ChatMessage_move_def ChatMessage_move_assign_def ChatMessage_InternalSwap_def
      ChatMessage_new_def UserInfo_MergeFrom_def ChatMessage_MergeFrom_def UserInfo_Swap_def Let_def split: if_splits)


section \<open>Properties\<close>

text \<open>C5. Messages survive the wire, and both parsers agree. Any sequence of sendable messages, written one
  after the other, is read by the stream parser and by the pointer parser to its end, into the message
  that \<open>MergeFrom\<close> makes of them in order; fields a class does not know are kept.\<close>

theorem messages_are_merged:
  assumes "wire_format lib" and "list_all (UserInfo_sendable lib) us" and "list_all (ChatMessage_sendable lib) cs"
  shows "UserInfo_MergePartialFromCodedStream lib u (concat (map (UserInfo_SerializeWithCachedSizes lib) us)) =
      Some (True, fold UserInfo_MergeFrom us u, []) \<and>
    UserInfo_InternalParse lib u (concat (map (UserInfo_SerializeWithCachedSizes lib) us)) =
      Some (Some [], None, fold UserInfo_MergeFrom us u) \<and>
    ChatMessage_MergePartialFromCodedStream lib c (concat (map (ChatMessage_SerializeWithCachedSizes lib) cs)) =
      Some (True, fold ChatMessage_MergeFrom cs c, []) \<and>
    ChatMessage_InternalParse lib c (concat (map (ChatMessage_SerializeWithCachedSizes lib) cs)) =
      Some (Some [], None, fold ChatMessage_MergeFrom cs c)"
  using user_stream.parse_many [OF assms(1,2)] user_pointer.parse_many [OF assms(1,2)]
    chat_stream.parse_many [OF assms(1,3)] chat_pointer.parse_many [OF assms(1,3)] by simp

text \<open>C20. A message that is sent is received: read into a new object by either parser, or copied there by
  \<open>CopyFrom\<close>, it is the message that was written, up to the cached size.\<close>

theorem message_roundtrip:
  assumes "wire_format lib" and "UserInfo_sendable lib u" and "ChatMessage_sendable lib c"
  shows "UserInfo_MergePartialFromCodedStream lib UserInfo_new (UserInfo_SerializeWithCachedSizes lib u) =
      Some (True, u\<lparr>ui_cached_size := 0\<rparr>, []) \<and>
    UserInfo_InternalParse lib UserInfo_new (UserInfo_SerializeWithCachedSizes lib u) = Some (Some [], None, u\<lparr>ui_cached_size := 0\<rparr>) \<and>
    UserInfo_CopyFrom False u UserInfo_new = u\<lparr>ui_cached_size := 0\<rparr> \<and>
    ChatMessage_MergePartialFromCodedStream lib ChatMessage_new (ChatMessage_SerializeWithCachedSizes lib c) =
      Some (True, c\<lparr>cm_cached_size := 0\<rparr>, []) \<and>
    ChatMessage_InternalParse lib ChatMessage_new (ChatMessage_SerializeWithCachedSizes lib c) = Some (Some [], None, c\<lparr>cm_cached_size := 0\<rparr>) \<and>
    ChatMessage_CopyFrom False c ChatMessage_new = c\<lparr>cm_cached_size := 0\<rparr>"
proof -
  have "UserInfo_CopyFrom False u UserInfo_new = u\<lparr>ui_cached_size := 0\<rparr>"
    using UserInfo_MergeFrom_new [of u] by (simp add: UserInfo_CopyFrom_def UserInfo_Clear_def UserInfo_new_def)
  moreover have "ChatMessage_CopyFrom False c ChatMessage_new = c\<lparr>cm_cached_size := 0\<rparr>"
    using ChatMessage_MergeFrom_new [of c] by (simp add: ChatMessage_CopyFrom_def ChatMessage_Clear_def ChatMessage_new_def)
  ultimately show ?thesis
    using user_stream.parse_one [OF assms(1,2)] user_pointer.parse_one [OF assms(1,2)]
      chat_stream.parse_one [OF assms(1,3)] chat_pointer.parse_one [OF assms(1,3)]
    by (simp add: UserInfo_MergeFrom_new ChatMessage_MergeFrom_new)
qed

text \<open>C14. Text that is not UTF-8 is sent and cannot be received. The serializer checks a string and writes it all
  the same; both parsers of the class refuse what it wrote.\<close>

theorem invalid_text_is_refused:
  assumes "wire_format lib" and "length (UserInfo_user_nick_name u) < 2 ^ 31" and "length (UserInfo_passwd u) < 2 ^ 31"
    and "\<not> sendable lib (UserInfo_user_nick_name u) \<or> \<not> sendable lib (UserInfo_passwd u)"
    and "length (ChatMessage_chatdata c) < 2 ^ 31" and "\<not> sendable lib (ChatMessage_chatdata c)"
  shows "(\<exists>m r. UserInfo_MergePartialFromCodedStream lib UserInfo_new (UserInfo_SerializeWithCachedSizes lib u) = Some (False, m, r)) \<and>
    (\<exists>m. UserInfo_InternalParse lib UserInfo_new (UserInfo_SerializeWithCachedSizes lib u) = Some (None, None, m)) \<and>
    (\<exists>m r. ChatMessage_MergePartialFromCodedStream lib ChatMessage_new (ChatMessage_SerializeWithCachedSizes lib c) = Some (False, m, r)) \<and>
    (\<exists>m. ChatMessage_InternalParse lib ChatMessage_new (ChatMessage_SerializeWithCachedSizes lib c) = Some (None, None, m))"
  using UserInfo_read_refuses [OF assms(1-4)] UserInfo_parse_refuses [OF assms(1-4)]
    ChatMessage_read_refuses [OF assms(1,5,6)] ChatMessage_parse_refuses [OF assms(1,5,6)] by blast

text \<open>C23. No input makes a parser loop: whatever the bytes and whatever message it reads into, it returns.\<close>

theorem parsers_return:
  assumes "wire_format lib" and "readers_advance lib"
  shows "UserInfo_MergePartialFromCodedStream lib u bs \<noteq> None \<and> UserInfo_InternalParse lib u bs \<noteq> None \<and>
    ChatMessage_MergePartialFromCodedStream lib c bs \<noteq> None \<and> ChatMessage_InternalParse lib c bs \<noteq> None"
proof (intro conjI)
  show "UserInfo_MergePartialFromCodedStream lib u bs \<noteq> None" unfolding UserInfo_MergePartialFromCodedStream_def
    by (rule merge_loop_returns [OF assms(2)])
      (simp add: UserInfo_read_field_tags(6) [OF assms(1)] user_tags_def, rule read_fields_shorter(1) [OF assms(2)])
  show "UserInfo_InternalParse lib u bs \<noteq> None" unfolding UserInfo_InternalParse_def
    by (rule parse_loop_returns [OF assms(2)]) (rule read_fields_shorter(3) [OF assms(2)])
  show "ChatMessage_MergePartialFromCodedStream lib c bs \<noteq> None" unfolding ChatMessage_MergePartialFromCodedStream_def
    by (rule merge_loop_returns [OF assms(2)])
      (simp add: ChatMessage_read_field_tags(4) [OF assms(1)] chat_tags_def, rule read_fields_shorter(2) [OF assms(2)])
  show "ChatMessage_InternalParse lib c bs \<noteq> None" unfolding ChatMessage_InternalParse_def
    by (rule parse_loop_returns [OF assms(2)]) (rule read_fields_shorter(4) [OF assms(2)])
qed

text \<open>C38. \<open>ByteSizeLong\<close> is exact: with strings below 2 GiB it is the number of bytes the serializer writes, modulo
  the width of \<open>size_t\<close>, though it adds the fields in another order; it changes nothing but the cached size.\<close>

theorem size_is_exact:
  assumes "wire_format lib" and "length (UserInfo_user_nick_name u) < 2 ^ 31" and "length (UserInfo_passwd u) < 2 ^ 31"
    and "length (ChatMessage_chatdata c) < 2 ^ 31"
  shows "UserInfo_ByteSizeLong lib u = (word_of_nat (length (UserInfo_SerializeWithCachedSizes lib u)),
      u\<lparr>ui_cached_size := ToCachedSize lib (word_of_nat (length (UserInfo_SerializeWithCachedSizes lib u)))\<rparr>) \<and>
    ChatMessage_ByteSizeLong lib c = (word_of_nat (length (ChatMessage_SerializeWithCachedSizes lib c)),
      c\<lparr>cm_cached_size := ToCachedSize lib (word_of_nat (length (ChatMessage_SerializeWithCachedSizes lib c)))\<rparr>)"
  using UserInfo_size [OF assms(1-3)] ChatMessage_size [OF assms(1,4)]
  by (simp add: UserInfo_ByteSizeLong_def ChatMessage_ByteSizeLong_def UserInfo_SetCachedSize_def ChatMessage_SetCachedSize_def Let_def)


text \<open>A user with a field of a later version of the class, and a chat message.\<close>

definition demo_user :: IMBase_UserInfo where
  "demo_user = UserInfo_new\<lparr>ui_user_id := 7, ui_user_nick_name := [107, 97], ui_metadata := [72, 1]\<rparr>"

definition demo_chat :: IMBase_ChatMessage where
  "demo_chat = ChatMessage_new\<lparr>cm_sendid := 7, cm_targetid := 300, cm_chatdata := [104, 105]\<rparr>"

lemma demo_unknown: "unknown_field wire_lib user_tags [72, 1]"
  unfolding unknown_field_def
  by (intro conjI allI exI [of _ 72] exI [of _ True] exI [of _ "[1]"])
    (simp_all add: wire_lib_def wire_tag_def wire_skip_def user_tags_def base128_small)

lemma demo_sendable: "UserInfo_sendable wire_lib demo_user" "ChatMessage_sendable wire_lib demo_chat"
proof -
  have "ui_metadata demo_user = concat [[72, 1]] \<and> (\<forall>u \<in> set [[72, 1]]. unknown_field wire_lib user_tags u)"
    using demo_unknown by (simp add: demo_user_def)
  moreover have "sendable wire_lib (UserInfo_user_nick_name demo_user)" "sendable wire_lib (UserInfo_passwd demo_user)"
    by (simp_all add: sendable_def demo_user_def UserInfo_fields UserInfo_new_def wire_lib_def ascii_def)
  ultimately show "UserInfo_sendable wire_lib demo_user" unfolding UserInfo_sendable_def by blast
  have "cm_metadata demo_chat = concat []" "sendable wire_lib (ChatMessage_chatdata demo_chat)"
    by (simp_all add: sendable_def demo_chat_def ChatMessage_fields ChatMessage_new_def wire_lib_def ascii_def)
  then show "ChatMessage_sendable wire_lib demo_chat" unfolding ChatMessage_sendable_def by (metis empty_iff list.set(1))
qed

lemma demo_bytes:
  "UserInfo_SerializeWithCachedSizes wire_lib demo_user = [8, 7, 26, 2, 107, 97, 72, 1]"
  "ChatMessage_SerializeWithCachedSizes wire_lib demo_chat = [8, 7, 16, 172, 2, 26, 2, 104, 105]"
  by (simp_all add: UserInfo_SerializeWithCachedSizes_def ChatMessage_SerializeWithCachedSizes_def demo_user_def demo_chat_def
      UserInfo_fields ChatMessage_fields UserInfo_new_def ChatMessage_new_def wire_lib_def base128.simps)

theorem message_roundtrip_witness:
  "UserInfo_MergePartialFromCodedStream wire_lib UserInfo_new [8, 7, 26, 2, 107, 97, 72, 1] = Some (True, demo_user, []) \<and>
   ChatMessage_InternalParse wire_lib ChatMessage_new [8, 7, 16, 172, 2, 26, 2, 104, 105] = Some (Some [], None, demo_chat)"
proof -
  have "demo_user\<lparr>ui_cached_size := 0\<rparr> = demo_user" "demo_chat\<lparr>cm_cached_size := 0\<rparr> = demo_chat"
    by (simp_all add: demo_user_def UserInfo_new_def demo_chat_def ChatMessage_new_def)
  then show ?thesis using message_roundtrip [OF wire_lib_format demo_sendable] by (simp add: demo_bytes)
qed

theorem messages_are_merged_witness:
  "UserInfo_MergePartialFromCodedStream wire_lib (UserInfo_new\<lparr>ui_status := 2, ui_user_id := 9\<rparr>) [8, 7, 26, 2, 107, 97, 72, 1] =
     Some (True, demo_user\<lparr>ui_status := 2\<rparr>, [])"
proof -
  have "UserInfo_MergeFrom demo_user (UserInfo_new\<lparr>ui_status := 2, ui_user_id := 9\<rparr>) = demo_user\<lparr>ui_status := 2\<rparr>"
    by (simp add: UserInfo_MergeFrom_def demo_user_def UserInfo_new_def UserInfo_fields)
  moreover have "list_all (UserInfo_sendable wire_lib) [demo_user]" "list_all (ChatMessage_sendable wire_lib) []"
    using demo_sendable by simp_all
  note messages_are_merged [OF wire_lib_format this, of "UserInfo_new\<lparr>ui_status := 2, ui_user_id := 9\<rparr>"]
  ultimately show ?thesis by (simp add: demo_bytes)
qed

theorem invalid_text_is_refused_witness:
  "\<exists>m r. UserInfo_MergePartialFromCodedStream wire_lib UserInfo_new [26, 1, 255] = Some (False, m, r)"
proof -
  let ?u = "UserInfo_new\<lparr>ui_user_nick_name := [255]\<rparr>" and ?c = "ChatMessage_new\<lparr>cm_chatdata := [255]\<rparr>"
  have "length (UserInfo_user_nick_name ?u) < 2 ^ 31" "length (UserInfo_passwd ?u) < 2 ^ 31"
    "\<not> sendable wire_lib (UserInfo_user_nick_name ?u) \<or> \<not> sendable wire_lib (UserInfo_passwd ?u)"
    "length (ChatMessage_chatdata ?c) < 2 ^ 31" "\<not> sendable wire_lib (ChatMessage_chatdata ?c)"
    by (simp_all add: UserInfo_fields ChatMessage_fields UserInfo_new_def ChatMessage_new_def sendable_def wire_lib_def ascii_def)
  moreover have "UserInfo_SerializeWithCachedSizes wire_lib ?u = [26, 1, 255]"
    by (simp add: UserInfo_SerializeWithCachedSizes_def UserInfo_fields UserInfo_new_def wire_lib_def base128.simps)
  ultimately show ?thesis using invalid_text_is_refused [OF wire_lib_format, of ?u ?c] by simp
qed

theorem parsers_return_witness:
  "UserInfo_InternalParse wire_lib demo_user [255, 255, 255] \<noteq> None"
  using parsers_return [OF wire_lib_format wire_lib_advances] by blast

theorem size_is_exact_witness:
  "UserInfo_ByteSizeLong wire_lib demo_user = (8, demo_user\<lparr>ui_cached_size := 8\<rparr>)"
proof -
  have "length (UserInfo_user_nick_name demo_user) < 2 ^ 31" "length (UserInfo_passwd demo_user) < 2 ^ 31"
    "length (ChatMessage_chatdata demo_chat) < 2 ^ 31"
    by (simp_all add: demo_user_def demo_chat_def UserInfo_fields ChatMessage_fields UserInfo_new_def ChatMessage_new_def)
  note size_is_exact [OF wire_lib_format this]
  moreover have "ToCachedSize wire_lib = sint" by (simp add: wire_lib_def)
  ultimately show ?thesis by (simp add: demo_bytes)
qed

end
