(* ===== verification/Programs.thy ===== *)
theory Programs
  imports Servers LogWriter Messages
begin

text \<open>
  The programs beside the server that call more than one component: \<open>Test_KaSocket_Head\<close> of
  \<open>src/main.cpp\<close>, a server for one client on the wrappers of \<open>Sockets\<close>, its \<open>testLog\<close>, and
  \<open>src/MsgDefine/test_main.cc\<close>. What they print is left out.
\<close>

section \<open>The test of the socket wrappers\<close>

text \<open>The flow of the function is straight: neither a failed \<open>bind\<close> nor a failed \<open>accept\<close> stops it.
  The destructor of \<open>ServerSock\<close> closes the listening descriptor at the end of the scope.\<close>

definition Test_KaSocket_Head :: "'k system \<Rightarrow> (string \<Rightarrow> u32) \<Rightarrow> 'k \<Rightarrow> int \<times> 'k" where
  "Test_KaSocket_Head sys inet_addr k0 =
     (let (ServerSock, k1) = KaSocket_new sys k0;
          (_, k2) = setReuseAddr sys ServerSock True k1;
          (_, k3) = setReusePort sys ServerSock True k2;
          ServerAddr = KaNetAddr_ip inet_addr ''127.0.0.1'' 8888;
          (_, k4) = bindAddr sys ServerSock ServerAddr k3;
          (_, k5) = KaSocket_listen sys ServerSock 10 k4;
          (clientfd, Clientaddr, k6) = KaSocket_accept sys ServerSock (KaNetAddr_default inet_addr) k5;
          (ret, k7) = call sys (Sys_send clientfd (c_str ''abcde'')) k6
      in (0, KaSocket_delete sys ServerSock k7))"

text \<open>A system that keeps the calls it is given.\<close>

definition recording :: "'k system \<Rightarrow> ('k \<times> syscall list) system" where
  "recording sys = (\<lambda>(k, cs) c. let (r, k') = sys k c in (r, (k', cs @ [c])))"

lemma call_recording: "call (recording sys) c (k, cs) = (let (v, k') = call sys c k in (v, (k', cs @ [c])))"
  by (simp add: call_def recording_def split: prod.splits)

lemma accept_recording: "KaNet_Accept (recording sys) f a (k, cs) =
    (let (v, b, k') = KaNet_Accept sys f a k in (v, b, (k', cs @ [Sys_accept f])))"
  by (simp add: KaNet_Accept_def recording_def split: prod.splits)

lemmas socket_wrappers = KaSocket_new_def setReuseAddr_def setSocketReuseAddr_def setReusePort_def
  setSocketReusePort_def bindAddr_def KaNet_Bind_def KaSocket_listen_def KaNet_Listen_def
  KaSocket_accept_def KaSocket_delete_def

text \<open>Whatever the system answers, the program makes the same eight calls in the same order and
  returns 0: it sends to whatever \<open>accept\<close> gave it, \<open>-1\<close> included, and closes the descriptor it
  listens on but not the one of the client, unless the system gave out the same number twice.\<close>

theorem Test_KaSocket_Head_calls:
  "\<exists>s c k'. Test_KaSocket_Head (recording sys) inet (k, []) = (0, (k',
     [Sys_socket, Sys_setsockopt s SO_REUSEADDR 1, Sys_setsockopt s SO_REUSEPORT 1,
      Sys_bind s (KaNetAddr_ip inet ''127.0.0.1'' 8888), Sys_listen s 10, Sys_accept s,
      Sys_send c ''abcde'', Sys_close s])) \<and>
     (s \<noteq> c \<longrightarrow> Sys_close c \<notin> set (snd (snd (Test_KaSocket_Head (recording sys) inet (k, [])))))"
  by (simp add: Test_KaSocket_Head_def socket_wrappers call_recording accept_recording c_str_def
      split: prod.splits)

section \<open>The test of the logger\<close>

text \<open>The message is the UTF-8 text of the source; the name of the file is the compiler's.\<close>

definition testLog :: "string \<Rightarrow> Ka_Log \<Rightarrow> cxx_error + Ka_Log" where
  "testLog file = LOGB file ''testLog'' 47
     [CHR 0xE9, CHR 0x94, CHR 0x99, CHR 0xE8, CHR 0xAF, CHR 0xAF]"

lemma testLog_prints_once:
  "\<exists>prefix. testLog file l = Inr (l\<lparr>lg_console := lg_console l @
     [prefix @ [CHR 0xE9, CHR 0x94, CHR 0x99, CHR 0xE8, CHR 0xAF, CHR 0xAF]]\<rparr>)"
  by (auto simp: testLog_def LOGB_def EasyDebug_def Let_def c_str_def)

section \<open>The test of the messages\<close>

definition example_user :: "cxx_error + IMBase_UserInfo" where
  "example_user =
     bind_r (set_user_nick_name_cstr (Some (map (\<lambda>c. of_nat (of_char c)) ''kaonon''))
         (set_user_gender 2 (set_user_id 1 UserInfo_new))) (\<lambda>a.
     bind_r (set_passwd_cstr (Some (map (\<lambda>c. of_nat (of_char c)) ''python2018'')) a) (\<lambda>a.
     Inr (set_status 3 a)))"

lemma example_user_fields:
  "\<exists>a. example_user = Inr a \<and> UserInfo_user_id a = 1 \<and> UserInfo_user_gender a = 2 \<and> UserInfo_status a = 3 \<and>
     length (UserInfo_user_nick_name a) = 6 \<and> length (UserInfo_passwd a) = 10"
  by (simp add: example_user_def set_user_nick_name_cstr_def set_passwd_cstr_def set_user_nick_name_def
      set_passwd_def set_user_gender_def set_user_id_def set_status_def UserInfo_user_id_def
      UserInfo_user_gender_def UserInfo_status_def UserInfo_user_nick_name_def UserInfo_passwd_def bind_r_def)

end
