(* ===== verification/Spec2Isabelle.thy ===== *)
theory Spec2Isabelle
  imports ByteStream BufferQueues LoopRuns PoolThreads Sockets ConnReads ServerRuns ZlibUtil
    ChatSessions ConfigReader LogWriter QueryResults MysqlPools RedisPools Daemons Programs
begin

text \<open>
  A verification library for KaIM, an instant-messaging server in C++: its network library
  (\<open>src/Net\<close>, \<open>src/time\<close>), its utilities (\<open>src/Util\<close>), the session of a chat client
  (\<open>src/ChatServer\<close>), its messages (\<open>src/MsgDefine\<close>) and its access to MySQL and Redis (\<open>src/DataBase\<close>).

  How the parts interact. A \<open>TcpServer\<close> owns a \<open>KaAcceptor\<close> and a pool of \<open>EventLoopThread\<close>s. Each
  \<open>EventLoop\<close> turns: it fires the due timers of its \<open>TimerQueue\<close>, asks its \<open>KaPoller\<close> for events, hands
  them to the \<open>KaChannel\<close>s and calls the functors other threads queued. The acceptor's channel hands an
  accepted descriptor to \<open>TcpServer::newConnection\<close>, which makes a \<open>TcpConnection\<close> on the next loop of
  the pool. A connection reads into a \<open>Buffer\<close> and calls the message callback; \<open>ChatSession::OnRead\<close> cuts
  packets out of that buffer, inflates them and processes them. Beside this stand the logger with
  its writer thread, the configuration reader, and the pools of database and cache connections,
  whose managers read their settings with the configuration reader.

  Theories and the code they model.
  \<^item> \<open>Prelude\<close>, \<open>CLib\<close>: machine types, errors as values (\<open>cxx_error + 'a\<close>, sequenced by \<open>bind_r\<close>), what
    the source uses of the C library. \<open>Codec\<close>, \<open>Registry\<close>, \<open>ConnPools\<close> and the locales of \<open>ByteBuffer\<close> and
    \<open>LoopPools\<close>: the interfaces (a byte format, a container of identified things, a pool of
    connections and the threads that share it, a buffer filled in pieces, a rotation), each interpreted
    on the model's operations.
  \<^item> \<open>ByteStream\<close>: \<open>Util/ProtocoIStream.cpp\<close>. The checksum and the 7-bit integers, with round trips.
  \<^item> \<open>ByteBuffer\<close>: \<open>Net/Buffer.h\<close>, \<open>Buffer.cpp\<close>. The index invariant of every buffer the public operations
    reach, where \<open>hasWritten\<close> is told of no more than is writable, and what happens otherwise; what reading a
    descriptor in pieces delivers. \<open>BufferQueues\<close>: the buffer refines an abstract queue of bytes,
    for every sequence of operations.
  \<^item> \<open>Timestamps\<close>, \<open>TimerQueues\<close>: \<open>src/time\<close>. The order of the queue; which timers a pass fires; a timer
    is fired exactly as often as it was asked to. A ghost account of every timer (runs asked for, runs made,
    removals) balances over every history of the queue's operations.
  \<^item> \<open>Pollers\<close>: \<open>KaChannel\<close>, \<open>KaPoller\<close>. A simulation between the poller's map and the interest list of
    the kernel; no channel made by the constructor is registered, unless somebody calls \<open>setIndex\<close> on it,
    which in the repository only the poller does.
  \<^item> \<open>EventLoops\<close>, \<open>LoopThreads\<close>, \<open>LoopPools\<close>: \<open>EventLoop\<close>, \<open>EventLoopThread\<close>, \<open>EventLoopThreadPool\<close>. The
    steps of a turn, the interleaved handshake of \<open>startLoop\<close> as two step relations, the round robin. A run of
    the owner and the new thread is an infinite sequence of states; it is fair when neither thread is passed
    over for ever while it can step and \<open>startLoop\<close> runs, and in every fair run \<open>startLoop\<close> returns.
    \<open>LoopRuns\<close>: what the turns of a loop do, whatever its users do through its interface and that of its channels,
    \<open>setIndex\<close> included.
    \<open>PoolThreads\<close>: starting and stopping a whole pool beside its threads; it implements the sequential
    start of \<open>LoopPools\<close>, and its stop never returns.
  \<^item> \<open>Sockets\<close>, \<open>Connections\<close>, \<open>Servers\<close>: \<open>KaSocket\<close>, \<open>TcpConnection\<close>, \<open>KaAcceptor\<close>, \<open>TcpServer\<close>. The state
    machine of a connection, its dispatch of reads, the life of an accepted descriptor, the names of
    connections. \<open>ConnReads\<close>: a connection that reads its socket to the end. \<open>ServerRuns\<close>: the invariant of
    every history of a server. This theory adds what becomes of a server that is started, and of one that
    has threads and is stopped; which threads can be joined is an argument of the \<open>stop\<close> functions.
  \<^item> \<open>ZlibUtil\<close>, \<open>ChatSessions\<close>: \<open>KaZlibUtil\<close>, \<open>ChatServer/ChatSession.cpp\<close>, \<open>MsgDefine/MsgDefine.h\<close>,
    \<open>Net/TcpSessin.h\<close>. The packet header as a byte format; the packet loop.
  \<^item> \<open>WireFormat\<close>, \<open>Messages\<close>: \<open>MsgDefine/KaBaseDefine.pb.h\<close>, \<open>KaBaseDefine.pb.cc\<close>. The two message classes
    with both their parsers; what is written is read back, as a merge; every parser ends.
  \<^item> \<open>ConfigReader\<close>: \<open>Util/ConfigFileReader.cpp\<close>. Writing a configuration and loading it again.
  \<^item> \<open>LogWriter\<close>: \<open>Util/KaLog.cpp\<close>. The writer thread and its callers as step relations over a shared
    state; the lines come out in order. The exits of the writer that a failing file causes are steps of their own.
  \<^item> \<open>QueryResults\<close>, \<open>MysqlPools\<close>: \<open>DataBase/KaMysql\<close>. Reading a result row by row, with the
    types of its fields; connections, their pool, the threads that wait for it, and its manager. The users of a
    pool may give back a connection again while it is free; what a second return does when another user has the
    connection is stated apart. \<open>RedisConns\<close>, \<open>RedisPools\<close>: \<open>DataBase/KaRedis\<close>. The commands, which of them are
    safe with which answers, the life of a context as a protocol that the journal of the calls to hiredis keeps
    to, the pool and its manager.
  \<^item> \<open>Daemons\<close>: \<open>Util/DaemonRun.cpp\<close>, \<open>Util/KaSingleton.h\<close>. \<open>Programs\<close>: the test functions of \<open>main.cpp\<close> and
    \<open>MsgDefine/test_main.cc\<close>, which call several components.

  How the code is represented. A class is a record of its members, a method a function from the
  object to the result and the new object. A pointer or \<open>shared_ptr\<close> is an address in an explicit store
  where aliasing matters (timers, channels, connections). \<open>size_t\<close> and the sized integers are words;
  signed arithmetic that may overflow, reads outside an object, null dereferences, a missing return
  and calling an empty \<open>std::function\<close> are values of \<open>cxx_error\<close>, so a property that gives \<open>Inr\<close> also
  says that none of this happens. \<open>std::map\<close> is a list of pairs in key order. Two threads are
  interleaved step by step; a step is a statement between two accesses to the shared state. What the
  outside decides (system calls, the clock, \<open>epoll_wait\<close>, the memory allocator's choice of an address)
  is an argument, universally quantified in the properties. Callbacks are opaque values: calling one is
  an event of a trace.

  Libraries as parameters: \<open>zlib\<close> (what \<open>compress\<close> makes \<open>uncompress\<close> reads back, within the documented
  bound), protocol buffers (a field is read back as it was written, in a stream below the library's limit of 2 GiB in
  all, which the laws do not mention), the MySQL client, hiredis, \<open>inet_addr\<close>, \<open>epoll\<close>, and \<open>toLowerString\<close> and \<open>CacheConn::getPoolName\<close>,
  which the repository uses and does not define. A property with a law of a library as hypothesis has
  a witness with a concrete library that satisfies it.

  Bounds and fuel. \<open>EventLoop::loop\<close> runs over a list of turns: a property about it is for every list, so
  for every number of turns. \<open>OnRead\<close> and \<open>clearStoreResults\<close> take a number of turns and give \<open>None\<close> when
  it is used up; the property of \<open>OnRead\<close> is for every such number, and says that no number gives a
  defined end, be the packet plain or compressed. The parse loops of the messages are partial functions, and are proved to return. The loop of \<open>writeToFile\<close> consumes the list of what \<open>fwrite\<close> returns, as many as it asks
  for; that it ends when bytes are taken is part of its property. Every other loop is structural on the
  data or on the number of turns the code counts.

  Properties that are about what the code does and not about what it means to do are stated as they
  are: among others, a channel's constructor marks it as added, so that the poller refuses to
  register it; the header of a packet is never consumed; the test of \<open>KaDBManager::getInstance\<close> is inverted; the
  overload of \<open>KaZlibUtil::compressBuf\<close> for strings passes the address of an \<open>int\<close> as that of an unsigned long,
  which has eight bytes on the platform that is modelled, so that every call that compresses is undefined.

  Not modelled. The registration of the default message instances; the HTTP server and \<open>ChatServer\<close>, which are
  declarations without bodies, as are \<open>read7BitEncode\<close> and the binary stream classes of
  \<open>ProtocoIStream.h\<close>; \<open>TcpSession::sendPack\<close>, which is commented out; \<open>Field::getFloatValue\<close> (floating point);
  \<open>getUserStatus\<close>, which converts an integer to a string and cannot be compiled; the example programs that call
  no component; messages
  printed to the console. The destructors that only destroy members have no definition. Spurious failures of
  memory allocation are not modelled.
\<close>

section \<open>A server that is started\<close>

text \<open>A server made over a fresh poller and started is listening and counts as started, but its
  listening descriptor is not registered with \<open>epoll\<close>: the channel of the acceptor is refused like
  every other, \<open>listen\<close> does not look at the answer, and no later \<open>poll\<close>, whatever the kernel
  reports, hands an event to the acceptor. No client is ever accepted.\<close>

theorem started_server_never_accepts:
  assumes "unregistered k0 (ps loop)"
    and "TcpServer_new sys readcb newcb defconn defmsg ch loop listenAddr nameArg ps k = (s, k1)"
  shows "\<exists>s' k2. TcpServer_start sys ctl started workThreadCount s k1 = Inr (s', k2) \<and>
    listening (m_acceptor s') \<and> m_serverStarted s' = 1 \<and>
    m_channels (pollers s' loop) = Map.empty \<and> kernel (pollers s' loop) = k0 \<and>
    (\<forall>r now t active e p'. KaPoller_poll r now (pollers s' loop) = Inr (t, active, e, p') \<longrightarrow> active = [])"
proof -
  from TcpServer_new_acceptor [OF assms] obtain c where s: "m_serverStarted s = 0" "s_loop s = loop"
    "unregistered k0 (pollers s (s_loop s))" "chans (pollers s (s_loop s)) (m_acceptChannel (m_acceptor s)) = Some c" by auto
  from TcpServer_start_returns [OF s(1,3,4), of sys ctl started workThreadCount k1] obtain s' k2 where
    s': "TcpServer_start sys ctl started workThreadCount s k1 = Inr (s', k2)" "listening (m_acceptor s')"
    "m_serverStarted s' = 1" "unregistered k0 (pollers s' loop)"
    by (auto simp: s(2) listening_def)
  have "active = []" if "KaPoller_poll r now (pollers s' loop) = Inr (t, active, e, p')" for r now t active e p'
    using unregistered_poll [OF s'(4) that] by simp
  with s' show ?thesis by (auto simp: unregistered_def)
qed

theorem started_server_never_accepts_witness:
  "\<exists>s k1 s' k2. TcpServer_new quiet_system (1 :: nat) 2 3 4 7 5 zero_addr ''im'' (\<lambda>l. KaPoller_new l Map.empty Map.empty) 0 = (s, k1) \<and>
     TcpServer_start quiet_system map_ctl (\<lambda>n. n) 2 s k1 = Inr (s', k2) \<and> listening (m_acceptor s') \<and>
     kernel (pollers s' 5) = Map.empty"
proof -
  let ?ps = "\<lambda>l :: nat. KaPoller_new l Map.empty Map.empty :: (fd \<Rightarrow> epoll_event option, nat) KaPoller"
  obtain s k1 where n: "TcpServer_new quiet_system (1 :: nat) 2 3 4 7 5 zero_addr ''im'' ?ps 0 = (s, k1)"
    by (cases "TcpServer_new quiet_system (1 :: nat) 2 3 4 7 5 zero_addr ''im'' ?ps 0")
  have "unregistered Map.empty (?ps 5)" by (simp add: unregistered_def KaPoller_new_def)
  from started_server_never_accepts [OF this n, of map_ctl "\<lambda>n. n" 2] n show ?thesis by blast
qed

section \<open>A server with threads\<close>

text \<open>C28. A server that has a thread cannot be stopped. Take any state a server reaches in which it is
  started, and any state its pool's caller and threads reach beside it in which \<open>start\<close> has returned: \<open>stop\<close>
  tells the first thread of the pool to quit, waits for it and does not return; the server still counts as
  started, no other thread is told, none ends its loop; and the destructor, which stops the server first,
  does not return either.\<close>

theorem threaded_server_never_stops:
  assumes "server_reach sys ctl binds rmcb k0 s k" and "m_serverStarted s \<noteq> 0" and "m_eventLoopThreadPool s = Some pool"
    and "pool_reach envs p ps" and "envs \<noteq> []" and "m_threads p = []" and "\<forall>i. sys_caller ps \<noteq> P_Start i"
    and "m_threads pool = m_threads (sys_pool ps)"
  shows "\<exists>s'. TcpServer_stop (\<lambda>i. lt_owner (thread_at ps i) = S_Joined) s = Inr (False, s', [hd (m_threads pool)]) \<and>
    m_serverStarted s' = m_serverStarted s \<and>
    TcpServer_delete (\<lambda>i. lt_owner (thread_at ps i) = S_Joined) s = Inr (False, [hd (m_threads pool)]) \<and>
    (\<forall>j < length envs. lt_thread (thread_at ps j) \<noteq> T_Done)"
proof -
  have "m_connections s = []" using server_reach_serves_nobody [OF assms(1)] by (simp add: serves_nobody_def)
  moreover have "EventLoopThreadPool_stop (\<lambda>i. lt_owner (thread_at ps i) = S_Joined) (sys_pool ps) =
      ([hd (m_threads (sys_pool ps))], False)" and ends: "\<forall>j < length envs. lt_thread (thread_at ps j) \<noteq> T_Done"
    using pool_stop_never_returns [OF assms(4,5)] assms(6,7) by blast+
  then have "EventLoopThreadPool_stop (\<lambda>i. lt_owner (thread_at ps i) = S_Joined) pool = ([hd (m_threads pool)], False)"
    by (simp add: EventLoopThreadPool_stop_def assms(8))
  ultimately have "TcpServer_stop (\<lambda>i. lt_owner (thread_at ps i) = S_Joined) s =
      Inr (False, s\<lparr>m_connections := []\<rparr>, [hd (m_threads pool)])"
    using assms(2,3) by (simp add: TcpServer_stop_def stop_connections_def)
  with ends show ?thesis by (simp add: TcpServer_delete_def)
qed

lemma demo_pool_started: "\<exists>ps. pool_reach demo_envs demo_pool ps \<and> sys_caller ps = P_Running \<and>
    m_threads (sys_pool ps) = m_threads (fst (EventLoopThreadPool_start False (\<lambda>i. te_addr (demo_envs ! i)) demo_pool))"
proof -
  have "sys_caller (pool_system_new demo_envs demo_pool) = P_Start 0" by (simp add: pool_system_new_def)
  from start_completes [OF pr_init this] obtain ps where
    ps: "(PoolThreads.pool_step demo_envs)\<^sup>*\<^sup>* (pool_system_new demo_envs demo_pool) ps" "sys_caller ps = P_Running" by blast
  have r: "pool_reach demo_envs demo_pool ps" by (rule pool_steps_reach [OF ps(1) pool_reach.pr_init])
  have "sys_pool ps = stored demo_envs demo_pool P_Running" using pool_reach_inv [OF r] ps(2) by (simp add: pool_system_inv_def)
  then have "m_threads (sys_pool ps) = m_threads (fst (EventLoopThreadPool_start False (\<lambda>i. te_addr (demo_envs ! i)) demo_pool))"
    by (simp add: stored_def EventLoopThreadPool_start_def demo_pool_def demo_envs_def EventLoopThreadPool_init_def
        EventLoopThreadPool_new_def numeral_2_eq_2)
  with r ps(2) show ?thesis by blast
qed

theorem threaded_server_never_stops_witness:
  "\<exists>(s :: (fd \<Rightarrow> epoll_event option, nat) TcpServer) k ps s'.
     server_reach quiet_system map_ctl \<lparr>bind_read = id, bind_write = id, bind_close = id, bind_error = id\<rparr> 9 (\<lambda>l. Map.empty) s k \<and>
     pool_reach demo_envs demo_pool ps \<and>
     TcpServer_stop (\<lambda>i. lt_owner (thread_at ps i) = S_Joined) s = Inr (False, s', [''0'']) \<and> m_serverStarted s' = 1"
proof -
  let ?ps = "\<lambda>l :: nat. KaPoller_new l Map.empty Map.empty :: (fd \<Rightarrow> epoll_event option, nat) KaPoller"
  let ?b = "\<lparr>bind_read = id, bind_write = id, bind_close = id, bind_error = id\<rparr> :: nat conn_binds"
  let ?pool = "fst (EventLoopThreadPool_start False (\<lambda>i. te_addr (demo_envs ! i)) demo_pool)"
  have un: "unregistered Map.empty (?ps l)" for l by (simp add: unregistered_def KaPoller_new_def)
  obtain s k where n: "TcpServer_new quiet_system 1 2 3 4 7 1 zero_addr ''im'' ?ps 0 = (s, k)"
    by (cases "TcpServer_new quiet_system 1 2 3 4 7 1 zero_addr ''im'' ?ps 0")
  note r1 = sr_new [OF pr_new n, where ctl = map_ctl and binds = ?b and rmcb = 9]
  from TcpServer_new_acceptor [OF un n] obtain ch where s: "m_serverStarted s = 0" "s_loop s = 1"
    "unregistered Map.empty (pollers s (s_loop s))" "chans (pollers s (s_loop s)) (m_acceptChannel (m_acceptor s)) = Some ch" by auto
  from TcpServer_start_returns [OF s(1,3,4), of quiet_system map_ctl "\<lambda>i. te_addr (demo_envs ! i)" 2 k] obtain a p k' where
    st: "TcpServer_start quiet_system map_ctl (\<lambda>i. te_addr (demo_envs ! i)) 2 s k = Inr (s\<lparr>m_eventLoopThreadPool := Some ?pool,
       m_acceptor := a, m_serverStarted := 1, pollers := (pollers s)(s_loop s := p)\<rparr>, k')"
    by (auto simp: s(2) demo_pool_def)
  note r2 = sr_start [OF r1 st]
  from demo_pool_started obtain ps where ps: "pool_reach demo_envs demo_pool ps" "sys_caller ps = P_Running"
    "m_threads (sys_pool ps) = m_threads ?pool" by blast
  have "hd (m_threads ?pool) = ''0''"
    by (simp add: EventLoopThreadPool_start_def demo_pool_def demo_envs_def EventLoopThreadPool_init_def
        EventLoopThreadPool_new_def numeral_2_eq_2 show_nat.simps digit_char_def snprintf_buf_def c_str_def char_of_eq_iff)
  moreover have "demo_envs \<noteq> []" "m_threads demo_pool = []"
    by (simp_all add: demo_envs_def demo_pool_def EventLoopThreadPool_init_def EventLoopThreadPool_new_def)
  ultimately show ?thesis using threaded_server_never_stops [OF r2 _ _ ps(1)] r2 ps by auto
qed

end
